(* ===== verification/Prelude.thy ===== *)
theory Prelude
  imports Main "HOL-Library.Word" "HOL-Library.Monad_Syntax"
begin

text \<open>
  Shared vocabulary of the development.

  Every C function of the kernel becomes a HOL function from a state to a result.  A result of
  type \<open>error + 'a\<close> is either a failure (\<^term>\<open>Inl\<close>) or the value the function returns together
  with the new state (\<^term>\<open>Inr\<close>).  Failures are of two kinds: a failed \<open>ASSERT\<close> or an explicit
  \<open>PANIC\<close>, both of which end in \<open>debug_panic\<close> (src/lib/debug.c) and never return, and a memory
  fault, the access through a null or dangling pointer.

  Loops that need not end return \<open>(error + 'a) option\<close>, with \<^term>\<open>None\<close> for a run that never
  returns.  The sequencing operators of both layers and their simplification rules are here,
  together with the machine-integer types of the target (a 32-bit ARM).
\<close>

section \<open>Machine integers\<close>

type_synonym u8 = "8 word"
type_synonym u16 = "16 word"
type_synonym u32 = "32 word"
type_synonym u64 = "64 word"

text \<open>A C \<open>int\<close> is a 32-bit word that is read with \<^const>\<open>sint\<close>.\<close>

type_synonym s32 = "32 word"

text \<open>The usual arithmetic conversion of an \<open>int\<close> to \<open>uint64_t\<close> keeps the signed value modulo $2^{64}$.\<close>

definition int_to_u64 :: "s32 \<Rightarrow> u64" where
  "int_to_u64 x = word_of_int (sint x)"

section \<open>Failures and sequencing\<close>

datatype error =
    Panic string  \<comment> \<open>\<open>debug_panic\<close>: a failed assertion (its condition) or a PANIC message\<close>
  | Fault         \<comment> \<open>access through a null or dangling pointer\<close>

definition bindE :: "error + 'a \<Rightarrow> ('a \<Rightarrow> error + 'b) \<Rightarrow> error + 'b" where
  "bindE m f = (case m of Inl e \<Rightarrow> Inl e | Inr x \<Rightarrow> f x)"

text \<open>
  \<open>PANIC\<close> of src/lib/debug.h calls \<open>debug_panic\<close>, which prints the message and exits.  \<open>ASSERT\<close>: nothing
  happens if the condition holds, otherwise a panic that is known by the text of the condition.
\<close>

definition PANIC :: "string \<Rightarrow> error + 'a" where
  "PANIC msg = Inl (Panic msg)"

definition NOT_REACHED :: "error + 'a" where
  "NOT_REACHED = PANIC ''executed an unreachable statement''"

definition ASSERT :: "bool \<Rightarrow> string \<Rightarrow> error + unit" where
  "ASSERT c msg = (if c then Inr () else PANIC msg)"

text \<open>Short-circuit conjunction and disjunction of conditions that read memory.\<close>

definition andE :: "error + bool \<Rightarrow> error + bool \<Rightarrow> error + bool" where
  "andE a b = bindE a (\<lambda>x. if x then b else Inr False)"

definition orE :: "error + bool \<Rightarrow> error + bool \<Rightarrow> error + bool" where
  "orE a b = bindE a (\<lambda>x. if x then Inr True else b)"

lemma bindE_Inr [simp]: "bindE (Inr x) f = f x"
  by (simp add: bindE_def)

lemma bindE_Inl [simp]: "bindE (Inl e) f = Inl e"
  by (simp add: bindE_def)

lemma bindE_assoc: "bindE (bindE m f) g = bindE m (\<lambda>x. bindE (f x) g)"
  by (simp add: bindE_def split: sum.splits)

lemma bindE_eq_InrE:
  assumes "bindE m f = Inr y"
  obtains x where "m = Inr x" and "f x = Inr y"
  using assms by (auto simp: bindE_def split: sum.splits)

declare PANIC_def [simp]

lemma ASSERT_True [simp]: "ASSERT True msg = Inr ()"
  by (simp add: ASSERT_def)

lemma ASSERT_False [simp]: "ASSERT False msg = Inl (Panic msg)"
  by (simp add: ASSERT_def)

lemma andE_simps [simp]:
  "andE (Inr True) b = b" "andE (Inr False) b = Inr False" "andE (Inl e) b = Inl e"
  by (simp_all add: andE_def)

lemma andE_Inr [simp]: "andE (Inr a) (Inr b) = Inr (a \<and> b)"
  by (cases a) simp_all

lemma orE_simps [simp]:
  "orE (Inr True) b = Inr True" "orE (Inr False) b = b" "orE (Inl e) b = Inl e"
  by (simp_all add: orE_def)

section \<open>Loops that may not return\<close>

definition bindR :: "(error + 'a) option \<Rightarrow> ('a \<Rightarrow> (error + 'b) option) \<Rightarrow> (error + 'b) option" where
  "bindR m f = Option.bind m (\<lambda>r. case r of Inl e \<Rightarrow> Some (Inl e) | Inr x \<Rightarrow> f x)"

lemma bindR_simps [simp]:
  "bindR None f = None" "bindR (Some (Inl e)) f = Some (Inl e)" "bindR (Some (Inr x)) f = f x"
  by (simp_all add: bindR_def)

lemma bindR_assoc: "bindR (bindR m f) g = bindR m (\<lambda>x. bindR (f x) g)"
  by (cases m) (auto simp: bindR_def split: sum.splits)

text \<open>A sequence ends if its parts do.\<close>

lemma bindR_ends:
  "\<exists>r. m = Some r \<Longrightarrow> (\<And>x. m = Some (Inr x) \<Longrightarrow> \<exists>r. f x = Some r) \<Longrightarrow> \<exists>r. bindR m f = Some r"
  by (auto simp: bindR_def split: sum.splits)

text \<open>The rule that lets loops call \<^const>\<open>bindR\<close> inside \<^theory_text>\<open>partial_function\<close>.\<close>

lemma bindR_mono [partial_function_mono]:
  assumes "mono_option B" and "\<And>y. mono_option (\<lambda>f. C y f)"
  shows "mono_option (\<lambda>f. bindR (B f) (\<lambda>y. C y f))"
  unfolding bindR_def
proof (rule bind_mono [OF assms(1)])
  fix r :: "error + 'c"
  show "mono_option (\<lambda>f. case r of Inl e \<Rightarrow> Some (Inl e) | Inr x \<Rightarrow> C x f)"
    using assms(2) by (cases r) (auto intro: option.const_mono)
qed

section \<open>Generic facts on lists\<close>

lemma last_snoc_or: "last (p # xs @ [x]) = x"
  by simp

lemma last_in_Cons: "last (p # xs) \<in> insert p (set xs)"
  by (induction xs arbitrary: p) auto

section \<open>Generic facts on words\<close>

lemma unat_plus_one: "x < q \<Longrightarrow> unat (x + 1) = unat x + 1" for x q :: "'a::len word"
proof -
  assume "x < q"
  moreover have "unat q < 2 ^ LENGTH('a)" by (rule unsigned_less)
  ultimately have "Suc (unat x) < 2 ^ LENGTH('a)" unfolding word_less_nat_alt by linarith
  then show ?thesis by (simp add: unat_word_ariths(1))
qed

lemma sint_minus_one: "0 < sint x \<Longrightarrow> sint (x - 1) = sint x - 1" for x :: s32
  using sint_lt [of x] by (simp add: sint_word_ariths signed_take_bit_int_eq_self)

lemma sint_plus:
  fixes x y :: s32
  assumes "- (2 ^ 31) \<le> sint x + sint y" "sint x + sint y < 2 ^ 31"
  shows "sint (x + y) = sint x + sint y"
  using assms by (simp add: sint_word_ariths signed_take_bit_int_eq_self)

lemma int_to_u64_le_iff:
  assumes "0 \<le> sint x" "0 \<le> sint y"
  shows "int_to_u64 x \<le> int_to_u64 y \<longleftrightarrow> sint x \<le> sint y"
proof -
  have "uint (word_of_int (sint z) :: u64) = sint z" if "0 \<le> sint z" for z :: s32
    unfolding uint_word_of_int_eq by (rule take_bit_int_eq_self) (use that sint_lt [of z] in auto)
  with assms show ?thesis unfolding int_to_u64_def word_le_def by metis
qed

lemma ucast_plus_one: "(ucast (x + 1) :: u32) = ucast x + 1" for x :: u64
  by (rule word_uint_eqI) (simp add: uint_word_ariths unsigned_ucast_eq take_bit_eq_mod mod_simps mod_mod_cancel)

end
