(* ===== verification/CList.thy ===== *)
theory CList
  imports Prelude
begin

text \<open>
  The doubly linked list of src/misc/list.c and src/misc/list.h.

  Memory is a partial map from addresses to \<open>struct list_elem\<close> cells, so that the model shows both
  aliasing (an element linked into two lists) and dangling pointers.  The type \<open>'a\<close> of addresses
  is arbitrary here; the kernel instantiates it with the addresses of list headers and of the
  elements embedded in its structures.  A pointer is an option, \<^term>\<open>None\<close> being \<open>NULL\<close>.
\<close>

section \<open>Data\<close>

type_synonym 'a ptr = "'a option"

abbreviation NULL :: "'a ptr" where
  "NULL \<equiv> None"

record 'a list_elem =
  prev :: "'a ptr"
  "next" :: "'a ptr"

text \<open>A \<open>struct list\<close> is known by the addresses of its two header elements.\<close>

record 'a clist =
  head :: 'a
  tail :: 'a

type_synonym 'a heap = "'a \<Rightarrow> 'a list_elem option"

section \<open>Access to memory\<close>

definition deref :: "'b option \<Rightarrow> error + 'b" where
  "deref p = (case p of None \<Rightarrow> Inl Fault | Some x \<Rightarrow> Inr x)"

definition load :: "'a ptr \<Rightarrow> 'a heap \<Rightarrow> error + 'a list_elem" where
  "load p h = bindE (deref p) (\<lambda>a. deref (h a))"

definition load_prev :: "'a ptr \<Rightarrow> 'a heap \<Rightarrow> error + 'a ptr" where
  "load_prev p h = bindE (load p h) (\<lambda>c. Inr (prev c))"

definition load_next :: "'a ptr \<Rightarrow> 'a heap \<Rightarrow> error + 'a ptr" where
  "load_next p h = bindE (load p h) (\<lambda>c. Inr (next c))"

definition store_prev :: "'a ptr \<Rightarrow> 'a ptr \<Rightarrow> 'a heap \<Rightarrow> error + 'a heap" where
  "store_prev p v h = bindE (deref p) (\<lambda>a. bindE (deref (h a)) (\<lambda>c. Inr (h(a \<mapsto> c\<lparr>prev := v\<rparr>))))"

definition store_next :: "'a ptr \<Rightarrow> 'a ptr \<Rightarrow> 'a heap \<Rightarrow> error + 'a heap" where
  "store_next p v h = bindE (deref p) (\<lambda>a. bindE (deref (h a)) (\<lambda>c. Inr (h(a \<mapsto> c\<lparr>next := v\<rparr>))))"

section \<open>Operations\<close>

definition is_head :: "'a ptr \<Rightarrow> 'a heap \<Rightarrow> error + bool" where
  "is_head elem h =
     andE (Inr (elem \<noteq> NULL))
    (andE (bindE (load_prev elem h) (\<lambda>p. Inr (p = NULL)))
          (bindE (load_next elem h) (\<lambda>n. Inr (n \<noteq> NULL))))"

definition is_interior :: "'a ptr \<Rightarrow> 'a heap \<Rightarrow> error + bool" where
  "is_interior elem h =
     andE (Inr (elem \<noteq> NULL))
    (andE (bindE (load_prev elem h) (\<lambda>p. Inr (p \<noteq> NULL)))
          (bindE (load_next elem h) (\<lambda>n. Inr (n \<noteq> NULL))))"

definition is_tail :: "'a ptr \<Rightarrow> 'a heap \<Rightarrow> error + bool" where
  "is_tail elem h =
     andE (Inr (elem \<noteq> NULL))
    (andE (bindE (load_prev elem h) (\<lambda>p. Inr (p \<noteq> NULL)))
          (bindE (load_next elem h) (\<lambda>n. Inr (n = NULL))))"

definition list_init :: "'a clist ptr \<Rightarrow> 'a heap \<Rightarrow> error + 'a heap" where
  "list_init list h =
     bindE (ASSERT (list \<noteq> NULL) ''list != NULL'') (\<lambda>_.
     bindE (deref list) (\<lambda>l.
     bindE (store_prev (Some (head l)) NULL h) (\<lambda>h.
     bindE (store_next (Some (head l)) (Some (tail l)) h) (\<lambda>h.
     bindE (store_prev (Some (tail l)) (Some (head l)) h) (\<lambda>h.
     store_next (Some (tail l)) NULL h)))))"

text \<open>\<open>LIST_INITIALIZER (l)\<close>: the contents of the two header elements.\<close>

definition LIST_INITIALIZER :: "'a clist \<Rightarrow> 'a list_elem \<times> 'a list_elem" where
  "LIST_INITIALIZER l = (\<lparr>prev = NULL, next = Some (tail l)\<rparr>, \<lparr>prev = Some (head l), next = NULL\<rparr>)"

definition list_begin :: "'a clist ptr \<Rightarrow> 'a heap \<Rightarrow> error + 'a ptr" where
  "list_begin list h =
     bindE (ASSERT (list \<noteq> NULL) ''list != NULL'') (\<lambda>_.
     bindE (deref list) (\<lambda>l. load_next (Some (head l)) h))"

definition list_next :: "'a ptr \<Rightarrow> 'a heap \<Rightarrow> error + 'a ptr" where
  "list_next elem h =
     bindE (orE (is_head elem h) (is_interior elem h)) (\<lambda>c.
     bindE (ASSERT c ''is_head (elem) || is_interior (elem)'') (\<lambda>_.
     load_next elem h))"

definition list_end :: "'a clist ptr \<Rightarrow> error + 'a ptr" where
  "list_end list =
     bindE (ASSERT (list \<noteq> NULL) ''list != NULL'') (\<lambda>_.
     bindE (deref list) (\<lambda>l. Inr (Some (tail l))))"

definition list_rbegin :: "'a clist ptr \<Rightarrow> 'a heap \<Rightarrow> error + 'a ptr" where
  "list_rbegin list h =
     bindE (ASSERT (list \<noteq> NULL) ''list != NULL'') (\<lambda>_.
     bindE (deref list) (\<lambda>l. load_prev (Some (tail l)) h))"

definition list_prev :: "'a ptr \<Rightarrow> 'a heap \<Rightarrow> error + 'a ptr" where
  "list_prev elem h =
     bindE (orE (is_interior elem h) (is_tail elem h)) (\<lambda>c.
     bindE (ASSERT c ''is_interior (elem) || is_tail (elem)'') (\<lambda>_.
     load_prev elem h))"

definition list_rend :: "'a clist ptr \<Rightarrow> error + 'a ptr" where
  "list_rend list =
     bindE (ASSERT (list \<noteq> NULL) ''list != NULL'') (\<lambda>_.
     bindE (deref list) (\<lambda>l. Inr (Some (head l))))"

definition list_head :: "'a clist ptr \<Rightarrow> error + 'a ptr" where
  "list_head list =
     bindE (ASSERT (list \<noteq> NULL) ''list != NULL'') (\<lambda>_.
     bindE (deref list) (\<lambda>l. Inr (Some (head l))))"

definition list_tail :: "'a clist ptr \<Rightarrow> error + 'a ptr" where
  "list_tail list =
     bindE (ASSERT (list \<noteq> NULL) ''list != NULL'') (\<lambda>_.
     bindE (deref list) (\<lambda>l. Inr (Some (tail l))))"

definition list_insert :: "'a ptr \<Rightarrow> 'a ptr \<Rightarrow> 'a heap \<Rightarrow> error + 'a heap" where
  "list_insert before elem h =
     bindE (orE (is_interior before h) (is_tail before h)) (\<lambda>c.
     bindE (ASSERT c ''is_interior (before) || is_tail (before)'') (\<lambda>_.
     bindE (ASSERT (elem \<noteq> NULL) ''elem != NULL'') (\<lambda>_.
     bindE (load_prev before h) (\<lambda>bp.
     bindE (store_prev elem bp h) (\<lambda>h.
     bindE (store_next elem before h) (\<lambda>h.
     bindE (load_prev before h) (\<lambda>bp.
     bindE (store_next bp elem h) (\<lambda>h.
     store_prev before elem h))))))))"

definition list_splice :: "'a ptr \<Rightarrow> 'a ptr \<Rightarrow> 'a ptr \<Rightarrow> 'a heap \<Rightarrow> error + 'a heap" where
  "list_splice before first lst h =
     bindE (orE (is_interior before h) (is_tail before h)) (\<lambda>c.
     bindE (ASSERT c ''is_interior (before) || is_tail (before)'') (\<lambda>_.
     if first = lst then Inr h
     else
       bindE (list_prev lst h) (\<lambda>lst.
       bindE (is_interior first h) (\<lambda>c.
       bindE (ASSERT c ''is_interior (first)'') (\<lambda>_.
       bindE (is_interior lst h) (\<lambda>c.
       bindE (ASSERT c ''is_interior (last)'') (\<lambda>_.
       bindE (load_prev first h) (\<lambda>fp.
       bindE (load_next lst h) (\<lambda>ln.
       bindE (store_next fp ln h) (\<lambda>h.
       bindE (load_next lst h) (\<lambda>ln.
       bindE (load_prev first h) (\<lambda>fp.
       bindE (store_prev ln fp h) (\<lambda>h.
       bindE (load_prev before h) (\<lambda>bp.
       bindE (store_prev first bp h) (\<lambda>h.
       bindE (store_next lst before h) (\<lambda>h.
       bindE (load_prev before h) (\<lambda>bp.
       bindE (store_next bp first h) (\<lambda>h.
       store_prev before lst h))))))))))))))))))"

definition list_push_front :: "'a clist ptr \<Rightarrow> 'a ptr \<Rightarrow> 'a heap \<Rightarrow> error + 'a heap" where
  "list_push_front list elem h = bindE (list_begin list h) (\<lambda>b. list_insert b elem h)"

definition list_push_back :: "'a clist ptr \<Rightarrow> 'a ptr \<Rightarrow> 'a heap \<Rightarrow> error + 'a heap" where
  "list_push_back list elem h = bindE (list_end list) (\<lambda>e. list_insert e elem h)"

definition list_remove :: "'a ptr \<Rightarrow> 'a heap \<Rightarrow> error + ('a ptr \<times> 'a heap)" where
  "list_remove elem h =
     bindE (is_interior elem h) (\<lambda>c.
     bindE (ASSERT c ''is_interior (elem)'') (\<lambda>_.
     bindE (load_prev elem h) (\<lambda>ep.
     bindE (load_next elem h) (\<lambda>en.
     bindE (store_next ep en h) (\<lambda>h.
     bindE (load_next elem h) (\<lambda>en.
     bindE (load_prev elem h) (\<lambda>ep.
     bindE (store_prev en ep h) (\<lambda>h.
     bindE (load_next elem h) (\<lambda>en.
     Inr (en, h))))))))))"

definition list_empty :: "'a clist ptr \<Rightarrow> 'a heap \<Rightarrow> error + bool" where
  "list_empty list h =
     bindE (list_begin list h) (\<lambda>b. bindE (list_end list) (\<lambda>e. Inr (b = e)))"

definition list_front :: "'a clist ptr \<Rightarrow> 'a heap \<Rightarrow> error + 'a ptr" where
  "list_front list h =
     bindE (list_empty list h) (\<lambda>c.
     bindE (ASSERT (\<not> c) ''!list_empty (list)'') (\<lambda>_.
     bindE (deref list) (\<lambda>l. load_next (Some (head l)) h)))"

definition list_back :: "'a clist ptr \<Rightarrow> 'a heap \<Rightarrow> error + 'a ptr" where
  "list_back list h =
     bindE (list_empty list h) (\<lambda>c.
     bindE (ASSERT (\<not> c) ''!list_empty (list)'') (\<lambda>_.
     bindE (deref list) (\<lambda>l. load_prev (Some (tail l)) h)))"

definition list_pop_front :: "'a clist ptr \<Rightarrow> 'a heap \<Rightarrow> error + ('a ptr \<times> 'a heap)" where
  "list_pop_front list h =
     bindE (list_front list h) (\<lambda>front.
     bindE (list_remove front h) (\<lambda>(_, h). Inr (front, h)))"

definition list_pop_back :: "'a clist ptr \<Rightarrow> 'a heap \<Rightarrow> error + ('a ptr \<times> 'a heap)" where
  "list_pop_back list h =
     bindE (list_back list h) (\<lambda>back.
     bindE (list_remove back h) (\<lambda>(_, h). Inr (back, h)))"

end
