(* ===== verification/CList_Spec.thy ===== *)
theory CList_Spec
  imports CList
begin

text \<open>
  What the operations of src/misc/list.c promise.

  \<open>is_list h l xs\<close> says that the memory \<open>h\<close> holds at the header \<open>l\<close> a well-formed doubly linked
  list whose interior elements are \<open>xs\<close>, front first: the picture at the top of list.c.  Every
  operation is first computed as an update of memory, then related to the list \<open>xs\<close>.  The frame
  part of each result (memory outside the list is untouched, no cell is created or lost) is what
  the kernel needs to keep several lists in one memory.
\<close>

section \<open>Well-formed lists in memory\<close>

definition nxt :: "'a heap \<Rightarrow> 'a \<Rightarrow> 'a option" where
  "nxt h a = (case h a of None \<Rightarrow> None | Some c \<Rightarrow> next c)"

definition prv :: "'a heap \<Rightarrow> 'a \<Rightarrow> 'a option" where
  "prv h a = (case h a of None \<Rightarrow> None | Some c \<Rightarrow> prev c)"

text \<open>\<open>chain h p xs q\<close>: from cell \<open>p\<close> the links lead through \<open>xs\<close> to cell \<open>q\<close>, forwards and backwards.\<close>

fun chain :: "'a heap \<Rightarrow> 'a \<Rightarrow> 'a list \<Rightarrow> 'a \<Rightarrow> bool" where
  "chain h p [] q \<longleftrightarrow> nxt h p = Some q \<and> prv h q = Some p"
| "chain h p (x # xs) q \<longleftrightarrow> nxt h p = Some x \<and> prv h x = Some p \<and> chain h x xs q"

definition nodes :: "'a clist \<Rightarrow> 'a list \<Rightarrow> 'a set" where
  "nodes l xs = insert (head l) (insert (tail l) (set xs))"

definition is_list :: "'a heap \<Rightarrow> 'a clist \<Rightarrow> 'a list \<Rightarrow> bool" where
  "is_list h l xs \<longleftrightarrow>
     chain h (head l) xs (tail l) \<and> distinct (head l # xs @ [tail l]) \<and>
     prv h (head l) = None \<and> nxt h (tail l) = None"

section \<open>Cells\<close>

named_theorems mem_simps

lemma nxt_upd [simp]: "nxt (h(a \<mapsto> c)) b = (if b = a then next c else nxt h b)"
  by (simp add: nxt_def)

lemma prv_upd [simp]: "prv (h(a \<mapsto> c)) b = (if b = a then prev c else prv h b)"
  by (simp add: prv_def)

lemma nxt_SomeD: "nxt h a = Some b \<Longrightarrow> \<exists>c. h a = Some c \<and> next c = Some b"
  by (auto simp: nxt_def split: option.splits)

lemma prv_SomeD: "prv h a = Some b \<Longrightarrow> \<exists>c. h a = Some c \<and> prev c = Some b"
  by (auto simp: prv_def split: option.splits)

lemma deref_simps [simp]: "deref None = Inl Fault" "deref (Some x) = Inr x"
  by (simp_all add: deref_def)

lemma load_prev_mapped [mem_simps]: "h a = Some c \<Longrightarrow> load_prev (Some a) h = Inr (prev c)"
  by (simp add: load_prev_def load_def)

lemma load_next_mapped [mem_simps]: "h a = Some c \<Longrightarrow> load_next (Some a) h = Inr (next c)"
  by (simp add: load_next_def load_def)

lemma store_prev_mapped [mem_simps]:
  "h a = Some c \<Longrightarrow> store_prev (Some a) v h = Inr (h(a \<mapsto> c\<lparr>prev := v\<rparr>))"
  by (simp add: store_prev_def)

lemma store_next_mapped [mem_simps]:
  "h a = Some c \<Longrightarrow> store_next (Some a) v h = Inr (h(a \<mapsto> c\<lparr>next := v\<rparr>))"
  by (simp add: store_next_def)

lemma is_head_mapped [mem_simps]:
  "h a = Some c \<Longrightarrow> is_head (Some a) h = Inr (prev c = None \<and> next c \<noteq> None)"
  by (cases "prev c") (simp_all add: is_head_def mem_simps)

lemma is_interior_mapped [mem_simps]:
  "h a = Some c \<Longrightarrow> is_interior (Some a) h = Inr (prev c \<noteq> None \<and> next c \<noteq> None)"
  by (cases "prev c") (simp_all add: is_interior_def mem_simps)

lemma is_tail_mapped [mem_simps]:
  "h a = Some c \<Longrightarrow> is_tail (Some a) h = Inr (prev c \<noteq> None \<and> next c = None)"
  by (cases "prev c") (simp_all add: is_tail_def mem_simps)

lemma list_next_mapped [mem_simps]:
  "h a = Some c \<Longrightarrow> next c = Some b \<Longrightarrow> list_next (Some a) h = Inr (Some b)"
  by (cases "prev c") (simp_all add: list_next_def mem_simps)

lemma list_prev_mapped [mem_simps]:
  "h a = Some c \<Longrightarrow> prev c = Some b \<Longrightarrow> list_prev (Some a) h = Inr (Some b)"
  by (cases "next c") (simp_all add: list_prev_def mem_simps)

section \<open>Chains\<close>

lemma chain_append:
  "chain h p (xs @ y # ys) q \<longleftrightarrow> chain h p xs y \<and> chain h y ys q"
  by (induction xs arbitrary: p) auto

lemma chain_cong:
  assumes "\<And>a. a \<in> insert p (set xs) \<Longrightarrow> nxt h' a = nxt h a"
    and "\<And>a. a \<in> insert q (set xs) \<Longrightarrow> prv h' a = prv h a"
  shows "chain h' p xs q = chain h p xs q"
  using assms by (induction xs arbitrary: p) auto

lemma chain_last:
  "chain h p xs q \<Longrightarrow> nxt h (last (p # xs)) = Some q \<and> prv h q = Some (last (p # xs))"
  by (induction xs arbitrary: p) auto

lemma chain_first: "chain h p xs q \<Longrightarrow> nxt h p = Some (hd (xs @ [q]))"
  by (cases xs) auto

lemma chain_mapped:
  "chain h p xs q \<Longrightarrow> a \<in> insert p (insert q (set xs)) \<Longrightarrow> \<exists>c. h a = Some c"
proof (induction xs arbitrary: p)
  case Nil
  then show ?case by (auto dest: nxt_SomeD prv_SomeD)
next
  case (Cons x xs)
  then show ?case by (auto dest: nxt_SomeD)
qed

text \<open>The list in memory is unique: forward links determine the elements.\<close>

lemma chain_unique:
  "chain h p xs q \<Longrightarrow> chain h p ys q \<Longrightarrow> nxt h q = None \<Longrightarrow> xs = ys"
proof (induction xs arbitrary: p ys)
  case Nil
  then show ?case by (cases ys) (auto, case_tac list, auto)
next
  case (Cons x xs)
  then obtain y ys' where "ys = y # ys'"
    by (cases ys) (auto, case_tac xs, auto)
  with Cons show ?case by auto
qed

section \<open>Lists\<close>

lemma is_list_unique: "is_list h l xs \<Longrightarrow> is_list h l ys \<Longrightarrow> xs = ys"
  unfolding is_list_def by (blast intro: chain_unique)

lemma is_list_mapped: "is_list h l xs \<Longrightarrow> a \<in> nodes l xs \<Longrightarrow> \<exists>c. h a = Some c"
  unfolding is_list_def nodes_def by (blast intro: chain_mapped)

lemma is_list_frame:
  assumes "is_list h l xs" and "\<And>a. a \<in> nodes l xs \<Longrightarrow> h' a = h a"
  shows "is_list h' l xs"
proof -
  have "nxt h' a = nxt h a" "prv h' a = prv h a" if "a \<in> nodes l xs" for a
    using assms(2) [OF that] by (simp_all add: nxt_def prv_def)
  note same = this
  have "chain h' (head l) xs (tail l) = chain h (head l) xs (tail l)"
    by (rule chain_cong) (auto simp: same nodes_def)
  then show ?thesis
    using assms(1) same by (simp add: is_list_def nodes_def)
qed

text \<open>\<open>only_changes h h' S\<close>: the step from \<open>h\<close> to \<open>h'\<close> creates and frees no cell and writes only in \<open>S\<close>.\<close>

definition only_changes :: "'a heap \<Rightarrow> 'a heap \<Rightarrow> 'a set \<Rightarrow> bool" where
  "only_changes h h' S \<longleftrightarrow> dom h' = dom h \<and> (\<forall>a. a \<notin> S \<longrightarrow> h' a = h a)"

lemma only_changes_refl [simp]: "only_changes h h S"
  by (simp add: only_changes_def)

lemma only_changes_trans:
  "only_changes h h1 S \<Longrightarrow> only_changes h1 h2 T \<Longrightarrow> S \<union> T \<subseteq> U \<Longrightarrow> only_changes h h2 U"
  unfolding only_changes_def by (metis UnCI subsetD)

lemma only_changes_mono: "only_changes h h' S \<Longrightarrow> S \<subseteq> T \<Longrightarrow> only_changes h h' T"
  by (auto simp: only_changes_def)

lemma only_changes_outside: "only_changes h h' S \<Longrightarrow> a \<notin> S \<Longrightarrow> h' a = h a"
  by (simp add: only_changes_def)

lemma only_changes_mapped: "only_changes h h' S \<Longrightarrow> h a = Some c \<Longrightarrow> \<exists>c'. h' a = Some c'"
  by (auto simp: only_changes_def)

lemma only_changes_dom: "only_changes h h' S \<Longrightarrow> a \<in> dom h' \<longleftrightarrow> a \<in> dom h"
  by (simp add: only_changes_def)

lemma is_list_other:
  "is_list h l xs \<Longrightarrow> only_changes h h' S \<Longrightarrow> nodes l xs \<inter> S = {} \<Longrightarrow> is_list h' l xs"
  by (erule is_list_frame) (auto simp: only_changes_def)

section \<open>Cutting and joining chains\<close>

text \<open>The chain from the first element of \<open>ys\<close> on; nothing if \<open>ys\<close> is empty.\<close>

definition rest :: "'a heap \<Rightarrow> 'a list \<Rightarrow> 'a \<Rightarrow> bool" where
  "rest h ys q \<longleftrightarrow> (case ys of [] \<Rightarrow> True | y # ys' \<Rightarrow> chain h y ys' q)"

lemma rest_simps [simp]: "rest h [] q" "rest h (y # ys) q = chain h y ys q"
  by (simp_all add: rest_def)

lemma chain_split:
  "chain h p (xs @ ys) q \<longleftrightarrow> chain h p xs (hd (ys @ [q])) \<and> rest h ys q"
  by (cases ys) (auto simp: chain_append)

lemma rest_cong:
  assumes "\<And>a. a \<in> set ys \<Longrightarrow> nxt h' a = nxt h a"
    and "\<And>a. a \<in> insert q (set (tl ys)) \<Longrightarrow> prv h' a = prv h a \<or> ys = []"
  shows "rest h' ys q = rest h ys q"
proof (cases ys)
  case (Cons y ys')
  with assms have "chain h' y ys' q = chain h y ys' q"
    by (intro chain_cong) auto
  with Cons show ?thesis by simp
qed simp

text \<open>Redirecting the last link of a chain from \<open>b\<close> to \<open>e\<close>.\<close>

lemma chain_retarget:
  assumes "chain h p xs b" and "distinct (p # xs)"
    and "\<And>a. a \<in> insert p (set xs) \<Longrightarrow> a \<noteq> last (p # xs) \<Longrightarrow> nxt h' a = nxt h a"
    and "\<And>a. a \<in> set xs \<Longrightarrow> prv h' a = prv h a"
    and "nxt h' (last (p # xs)) = Some e" and "prv h' e = Some (last (p # xs))"
  shows "chain h' p xs e"
  using assms
proof (induction xs arbitrary: p)
  case (Cons x xs)
  have "p \<noteq> last (x # xs)"
    using Cons.prems(2) last_in_Cons [of x xs] by auto
  then have p: "nxt h' p = Some x" "prv h' x = Some p"
    using Cons.prems by auto
  have "chain h' x xs e"
    by (rule Cons.IH) (use Cons.prems in auto)
  with p show ?case by simp
qed simp

lemma is_listD:
  assumes "is_list h l xs"
  shows "chain h (head l) xs (tail l)" "distinct (head l # xs @ [tail l])"
    "prv h (head l) = None" "nxt h (tail l) = None"
  using assms by (simp_all add: is_list_def)

section \<open>Insertion\<close>

lemma list_insert_eq:
  assumes "h b = Some cb" "prev cb = Some p" "h p = Some cp" "h e = Some ce"
    and "e \<noteq> b" "e \<noteq> p" "p \<noteq> b"
  shows "list_insert (Some b) (Some e) h =
     Inr (h(e \<mapsto> \<lparr>prev = Some p, next = Some b\<rparr>, p \<mapsto> cp\<lparr>next := Some e\<rparr>, b \<mapsto> cb\<lparr>prev := Some e\<rparr>))"
  using assms by (cases ce; cases "next cb") (simp_all add: list_insert_def mem_simps)

lemma list_insert_spec:
  assumes l: "is_list h l (xs @ ys)" and e: "e \<notin> nodes l (xs @ ys)" and he: "h e = Some ce"
  obtains h' where "list_insert (Some (hd (ys @ [tail l]))) (Some e) h = Inr h'"
    and "is_list h' l (xs @ e # ys)" and "only_changes h h' (insert e (nodes l (xs @ ys)))"
proof -
  define b where "b = hd (ys @ [tail l])"
  define p where "p = last (head l # xs)"
  note L = is_listD [OF l]
  from L(1) have c: "chain h (head l) xs b" and r: "rest h ys (tail l)"
    by (simp_all add: chain_split b_def)
  from chain_last [OF c] have np: "nxt h p = Some b" and pb: "prv h b = Some p"
    by (simp_all add: p_def)
  obtain cp where cp: "h p = Some cp" using np by (auto dest: nxt_SomeD)
  obtain cb where cb: "h b = Some cb" "prev cb = Some p" using pb by (auto dest: prv_SomeD)
  have pin: "p \<in> insert (head l) (set xs)" unfolding p_def by (rule last_in_Cons)
  have bin: "b \<in> insert (tail l) (set ys)" unfolding b_def by (cases ys) auto
  have ne: "e \<noteq> b" "e \<noteq> p" "p \<noteq> b"
    using e pin bin L(2) by (auto simp: nodes_def)
  define h' where "h' = h(e \<mapsto> \<lparr>prev = Some p, next = Some b\<rparr>, p \<mapsto> cp\<lparr>next := Some e\<rparr>, b \<mapsto> cb\<lparr>prev := Some e\<rparr>)"
  have ins: "list_insert (Some b) (Some e) h = Inr h'"
    unfolding h'_def by (rule list_insert_eq) (use cb cp he ne in auto)
  have nx: "nxt h' a = (if a = e then Some b else if a = p then Some e else nxt h a)" for a
    using ne cb(1) by (auto simp: h'_def nxt_def)
  have pr: "prv h' a = (if a = e then Some p else if a = b then Some e else prv h a)" for a
    using ne cp by (auto simp: h'_def prv_def)
  have "chain h' (head l) xs e"
    by (rule chain_retarget [OF c]) (use L(2) e bin ne in \<open>auto simp: nx pr nodes_def p_def\<close>)
  moreover have "rest h' ys (tail l) = rest h ys (tail l)"
    by (rule rest_cong) (use L(2) e bin pin in \<open>cases ys; auto simp: nx pr nodes_def b_def\<close>)+
  moreover have "nxt h' e = Some b" "prv h' b = Some e"
    using ne by (simp_all add: nx pr)
  ultimately have "chain h' (head l) (xs @ e # ys) (tail l)"
    using r chain_split [of h' e "[]" ys "tail l"] by (simp add: chain_append b_def)
  then have "is_list h' l (xs @ e # ys)"
    using L e pin bin ne by (auto simp: is_list_def nx pr nodes_def)
  moreover have "only_changes h h' (insert e (nodes l (xs @ ys)))"
    using pin bin he cp cb(1) by (auto simp: only_changes_def h'_def nodes_def)
  ultimately show thesis
    using that ins by (simp add: b_def)
qed

lemma list_push_back_spec:
  assumes "is_list h l xs" "e \<notin> nodes l xs" "h e = Some ce"
  obtains h' where "list_push_back (Some l) (Some e) h = Inr h'"
    and "is_list h' l (xs @ [e])" and "only_changes h h' (insert e (nodes l xs))"
  using list_insert_spec [of h l xs "[]" e ce] assms
  by (auto simp: list_push_back_def list_end_def)

lemma list_begin_spec: "is_list h l xs \<Longrightarrow> list_begin (Some l) h = Inr (Some (hd (xs @ [tail l])))"
  using chain_first [OF is_listD(1), of h l xs]
  by (auto simp: list_begin_def mem_simps dest!: nxt_SomeD)

lemma list_end_Some [simp]: "list_end (Some l) = Inr (Some (tail l))"
  by (simp add: list_end_def)

lemma list_push_front_spec:
  assumes "is_list h l xs" "e \<notin> nodes l xs" "h e = Some ce"
  obtains h' where "list_push_front (Some l) (Some e) h = Inr h'"
    and "is_list h' l (e # xs)" and "only_changes h h' (insert e (nodes l xs))"
  using list_insert_spec [of h l "[]" xs e ce] assms
  by (auto simp: list_push_front_def list_begin_spec)

section \<open>Removal\<close>

lemma list_remove_eq:
  assumes "h e = Some \<lparr>prev = Some p, next = Some n\<rparr>" "h p = Some cp" "h n = Some cn"
    and "e \<noteq> p" "e \<noteq> n" "p \<noteq> n"
  shows "list_remove (Some e) h =
     Inr (Some n, h(p \<mapsto> cp\<lparr>next := Some n\<rparr>, n \<mapsto> cn\<lparr>prev := Some p\<rparr>))"
  using assms by (simp add: list_remove_def mem_simps)

lemma list_remove_spec:
  assumes l: "is_list h l (xs @ e # ys)"
  obtains h' where "list_remove (Some e) h = Inr (Some (hd (ys @ [tail l])), h')"
    and "is_list h' l (xs @ ys)" and "only_changes h h' (nodes l (xs @ ys))"
proof -
  define n where "n = hd (ys @ [tail l])"
  define p where "p = last (head l # xs)"
  note L = is_listD [OF l]
  from L(1) have c: "chain h (head l) xs e" and c': "chain h e ys (tail l)"
    by (simp_all add: chain_append)
  from c' chain_split [of h e "[]" ys "tail l"] have r: "rest h ys (tail l)"
    and en: "nxt h e = Some n" "prv h n = Some e"
    by (simp_all add: n_def)
  from chain_last [OF c] have pe: "nxt h p = Some e" "prv h e = Some p"
    by (simp_all add: p_def)
  obtain cp where cp: "h p = Some cp" using pe(1) by (auto dest: nxt_SomeD)
  obtain cn where cn: "h n = Some cn" using en(2) by (auto dest: prv_SomeD)
  obtain ce where "h e = Some ce" "next ce = Some n" "prev ce = Some p"
    using en(1) pe(2) by (auto dest!: nxt_SomeD prv_SomeD)
  then have he: "h e = Some \<lparr>prev = Some p, next = Some n\<rparr>" by (cases ce) simp
  have pin: "p \<in> insert (head l) (set xs)" unfolding p_def by (rule last_in_Cons)
  have nin: "n \<in> insert (tail l) (set ys)" unfolding n_def by (cases ys) auto
  have ne: "e \<noteq> p" "e \<noteq> n" "p \<noteq> n"
    using pin nin L(2) by auto
  define h' where "h' = h(p \<mapsto> cp\<lparr>next := Some n\<rparr>, n \<mapsto> cn\<lparr>prev := Some p\<rparr>)"
  have rem: "list_remove (Some e) h = Inr (Some n, h')"
    unfolding h'_def by (rule list_remove_eq) (use he cp cn ne in auto)
  have nx: "nxt h' a = (if a = p then Some n else nxt h a)" for a
    using ne cn by (auto simp: h'_def nxt_def)
  have pr: "prv h' a = (if a = n then Some p else prv h a)" for a
    using ne cp by (auto simp: h'_def prv_def)
  have "chain h' (head l) xs n"
    by (rule chain_retarget [OF c]) (use L(2) nin ne in \<open>auto simp: nx pr p_def\<close>)
  moreover have "rest h' ys (tail l) = rest h ys (tail l)"
    by (rule rest_cong) (use L(2) pin nin in \<open>cases ys; auto simp: nx pr n_def\<close>)+
  ultimately have "chain h' (head l) (xs @ ys) (tail l)"
    using r by (simp add: chain_split n_def)
  then have "is_list h' l (xs @ ys)"
    using L pin nin ne by (auto simp: is_list_def nx pr)
  moreover have "only_changes h h' (nodes l (xs @ ys))"
    using pin nin cp cn by (auto simp: only_changes_def h'_def nodes_def)
  ultimately show thesis
    using that rem by (simp add: n_def)
qed

lemma list_empty_spec: "is_list h l xs \<Longrightarrow> list_empty (Some l) h = Inr (xs = [])"
  using is_listD(2) [of h l xs] by (cases xs) (auto simp: list_empty_def list_begin_spec)

lemma list_front_spec: "is_list h l (x # xs) \<Longrightarrow> list_front (Some l) h = Inr (Some x)"
  using list_begin_spec [of h l "x # xs"]
  by (simp add: list_front_def list_empty_spec list_begin_def)

lemma list_rbegin_spec: "is_list h l xs \<Longrightarrow> list_rbegin (Some l) h = Inr (Some (last (head l # xs)))"
  using chain_last [OF is_listD(1), of h l xs]
  by (auto simp: list_rbegin_def mem_simps dest!: prv_SomeD)

lemma list_back_spec: "is_list h l (xs @ [x]) \<Longrightarrow> list_back (Some l) h = Inr (Some x)"
  using list_rbegin_spec [of h l "xs @ [x]"]
  by (simp add: list_back_def list_empty_spec list_rbegin_def)

lemma list_pop_front_spec:
  assumes "is_list h l (x # xs)"
  obtains h' where "list_pop_front (Some l) h = Inr (Some x, h')"
    and "is_list h' l xs" and "only_changes h h' (nodes l xs)"
proof -
  have l: "is_list h l ([] @ x # xs)" using assms by simp
  obtain h' where r: "list_remove (Some x) h = Inr (Some (hd (xs @ [tail l])), h')"
    and "is_list h' l ([] @ xs)" "only_changes h h' (nodes l ([] @ xs))"
    by (rule list_remove_spec [OF l])
  then have h': "is_list h' l xs" "only_changes h h' (nodes l xs)" by simp_all
  have "list_pop_front (Some l) h = Inr (Some x, h')"
    by (simp add: list_pop_front_def list_front_spec [OF assms] r [simplified])
  with h' that show thesis by blast
qed

lemma list_pop_back_spec:
  assumes "is_list h l (xs @ [x])"
  obtains h' where "list_pop_back (Some l) h = Inr (Some x, h')"
    and "is_list h' l xs" and "only_changes h h' (nodes l xs)"
proof -
  have l: "is_list h l (xs @ x # [])" using assms by simp
  obtain h' where r: "list_remove (Some x) h = Inr (Some (hd ([] @ [tail l])), h')"
    and "is_list h' l (xs @ [])" "only_changes h h' (nodes l (xs @ []))"
    by (rule list_remove_spec [OF l])
  then have h': "is_list h' l xs" "only_changes h h' (nodes l xs)" by simp_all
  have "list_pop_back (Some l) h = Inr (Some x, h')"
    by (simp add: list_pop_back_def list_back_spec [OF assms] r [simplified])
  with h' that show thesis by blast
qed

text \<open>The documented errors: taking from an empty list fails the assertion of \<open>list_front\<close> and \<open>list_back\<close>.\<close>

lemma list_pop_front_empty: "is_list h l [] \<Longrightarrow> list_pop_front (Some l) h = Inl (Panic ''!list_empty (list)'')"
  by (simp add: list_pop_front_def list_front_def list_empty_spec)

lemma list_pop_back_empty: "is_list h l [] \<Longrightarrow> list_pop_back (Some l) h = Inl (Panic ''!list_empty (list)'')"
  by (simp add: list_pop_back_def list_back_def list_empty_spec)

section \<open>Initialisation\<close>

lemma list_init_spec:
  assumes "h (head l) = Some ch" "h (tail l) = Some ct" "head l \<noteq> tail l"
  obtains h' where "list_init (Some l) h = Inr h'"
    and "is_list h' l []" and "only_changes h h' {head l, tail l}"
  using assms
  by (auto simp: list_init_def mem_simps is_list_def only_changes_def)

text \<open>\<open>list_init\<close> writes what the static initialiser \<open>LIST_INITIALIZER\<close> holds.\<close>

lemma list_init_initializer:
  assumes "h (head l) = Some ch" "h (tail l) = Some ct" "head l \<noteq> tail l"
  shows "list_init (Some l) h =
    Inr (h(head l \<mapsto> fst (LIST_INITIALIZER l), tail l \<mapsto> snd (LIST_INITIALIZER l)))"
  using assms by (auto simp: list_init_def mem_simps LIST_INITIALIZER_def fun_eq_iff)

section \<open>Traversal\<close>

lemma list_next_spec:
  assumes "is_list h l (xs @ x # ys)"
  shows "list_next (Some x) h = Inr (Some (hd (ys @ [tail l])))"
  using chain_first [of h x ys "tail l"] is_listD(1) [OF assms]
  by (auto simp: chain_append mem_simps dest!: nxt_SomeD)

lemma list_prev_spec:
  assumes "is_list h l (xs @ x # ys)"
  shows "list_prev (Some x) h = Inr (Some (last (head l # xs)))"
  using chain_last [of h "head l" xs x] is_listD(1) [OF assms]
  by (auto simp: chain_append mem_simps dest!: prv_SomeD)

lemma list_prev_tail_spec:
  assumes "is_list h l xs"
  shows "list_prev (Some (tail l)) h = Inr (Some (last (head l # xs)))"
  using chain_last [OF is_listD(1) [OF assms]]
  by (auto simp: mem_simps dest!: prv_SomeD)

lemma list_next_head_spec:
  assumes "is_list h l xs"
  shows "list_next (Some (head l)) h = Inr (Some (hd (xs @ [tail l])))"
  using chain_first [OF is_listD(1) [OF assms]]
  by (auto simp: mem_simps dest!: nxt_SomeD)

end
