(* ===== verification/Kernel_State.thy ===== *)
theory Kernel_State
  imports CList
begin

text \<open>
  The data of the kernel: \<open>struct thread\<close> and its parts (src/threads/thread.h), the global
  variables of src/threads/thread.c, src/misc/timer.c, src/main.c and src/tests/tests.c as one
  record, and the access functions the operations use.

  The list elements embedded in \<open>struct thread\<close> (\<open>elem\<close>, \<open>allelem\<close>), in \<open>struct semaphore_elem\<close>
  and in the list headers live in one memory of \<open>struct list_elem\<close> cells, addressed by the
  structure they belong to.  A \<open>struct thread *\<close> is a 32-bit address, 0 being \<open>NULL\<close>; freeing a
  thread unmaps its record and the two list elements inside it.
\<close>

unbundle bit_operations_syntax

section \<open>Addresses\<close>

type_synonym tptr = u32

datatype list_id =
    Ready_list            \<comment> \<open>\<open>ready_list\<close> of thread.c\<close>
  | All_list              \<comment> \<open>\<open>all_list\<close> of thread.c\<close>
  | Lista_espera          \<comment> \<open>\<open>lista_espera\<close> of thread.c\<close>
  | Sema_waiters u32      \<comment> \<open>\<open>waiters\<close> of the \<open>struct semaphore\<close> at this address\<close>
  | Cond_waiters u32      \<comment> \<open>\<open>waiters\<close> of the \<open>struct condition\<close> at this address\<close>

datatype laddr =
    Head list_id
  | Tail list_id
  | AllElem tptr          \<comment> \<open>\<open>&t->allelem\<close>\<close>
  | Elem tptr             \<comment> \<open>\<open>&t->elem\<close>\<close>
  | Semaphore_elem u32    \<comment> \<open>\<open>&w->elem\<close> of the \<open>struct semaphore_elem\<close> at this address\<close>

text \<open>The header of a list, and the pointer to it (\<open>&ready_list\<close> and so on).\<close>

definition hdr :: "list_id \<Rightarrow> laddr clist" where
  "hdr i = \<lparr>head = Head i, tail = Tail i\<rparr>"

abbreviation ready_list :: "laddr clist ptr" where
  "ready_list \<equiv> Some (hdr Ready_list)"

abbreviation all_list :: "laddr clist ptr" where
  "all_list \<equiv> Some (hdr All_list)"

abbreviation lista_espera :: "laddr clist ptr" where
  "lista_espera \<equiv> Some (hdr Lista_espera)"

text \<open>
  \<open>list_entry (e, struct thread, elem)\<close> and \<open>list_entry (e, struct thread, allelem)\<close> go back from
  the address of a member to the address of the structure.
\<close>

definition list_entry_elem :: "laddr ptr \<Rightarrow> error + tptr" where
  "list_entry_elem e = (case e of Some (Elem t) \<Rightarrow> Inr t | _ \<Rightarrow> Inl Fault)"

definition list_entry_allelem :: "laddr ptr \<Rightarrow> error + tptr" where
  "list_entry_allelem e = (case e of Some (AllElem t) \<Rightarrow> Inr t | _ \<Rightarrow> Inl Fault)"

section \<open>Pages\<close>

definition BITMASK :: "nat \<Rightarrow> nat \<Rightarrow> u32" where
  "BITMASK SHIFT CNT = push_bit SHIFT (push_bit CNT 1 - 1)"

definition PGSHIFT :: nat where
  "PGSHIFT = 0"

definition PGBITS :: nat where
  "PGBITS = 12"

definition PGSIZE :: u32 where
  "PGSIZE = push_bit PGBITS 1"

definition PGMASK :: u32 where
  "PGMASK = BITMASK PGSHIFT PGBITS"

section \<open>Threads\<close>

datatype thread_status = THREAD_RUNNING | THREAD_READY | THREAD_BLOCKED | THREAD_DYING

fun status_code :: "thread_status \<Rightarrow> s32" where
  "status_code THREAD_RUNNING = 0"
| "status_code THREAD_READY = 1"
| "status_code THREAD_BLOCKED = 2"
| "status_code THREAD_DYING = 3"

record thread_register_save =
  reg_r0 :: u32
  reg_r1 :: u32
  reg_r2 :: u32
  reg_r3 :: u32
  reg_r4 :: u32
  reg_r5 :: u32
  reg_r6 :: u32
  reg_r7 :: u32
  reg_r8 :: u32
  reg_r9 :: u32
  reg_r10 :: u32
  reg_r11 :: u32
  reg_r12 :: u32
  reg_sp :: u32
  reg_lr :: u32
  reg_pc :: u32

text \<open>
  \<open>struct thread\<close> without its two list elements, which are cells of the list memory.  The unused
  \<open>donations_received_list\<close> is kept as the contents of its two header cells.
\<close>

record thread =
  tid :: s32
  status :: thread_status
  name :: string
  stack :: u32
  priority :: s32
  true_priority :: s32
  sleep_time :: u64
  donations_received_list :: "laddr list_elem \<times> laddr list_elem"
  register_save :: thread_register_save
  duration_ticks :: s32
  magic :: u32

definition TID_ERROR :: s32 where
  "TID_ERROR = - 1"

definition THREAD_MAGIC :: u32 where
  "THREAD_MAGIC = 0xcd6abf4b"

record kernel_thread_frame =
  eip :: u32
  "function" :: u32
  aux :: u32

definition sizeof_kernel_thread_frame :: u32 where
  "sizeof_kernel_thread_frame = 12"

text \<open>
  Size of \<open>struct thread\<close> on the 32-bit target: 4 (tid) + 4 (status) + 16 (name) + 4 (stack) +
  4 + 4 (priorities) + 8 (allelem) + 8 (elem), padded to a multiple of 8, + 8 (sleep\_time) +
  16 (donations\_received\_list) + 64 (register\_save) + 4 (duration\_ticks) + 4 (magic).
\<close>

definition sizeof_thread :: u32 where
  "sizeof_thread = 152"

text \<open>
  A \<open>const char *\<close> that names a thread: null, a string literal of thread.c (equal literals of one
  translation unit share their address), or a character array of the caller.
\<close>

datatype cstr = NullStr | StrLit string | CharBuf string

fun chars :: "cstr \<Rightarrow> string" where
  "chars NullStr = []"
| "chars (StrLit s) = s"
| "chars (CharBuf s) = s"

text \<open>\<open>strlcpy (dst, src, n)\<close> stores at most \<open>n - 1\<close> characters and a terminator.\<close>

definition strlcpy :: "string \<Rightarrow> nat \<Rightarrow> string" where
  "strlcpy src n = take (n - 1) src"

section \<open>The global state\<close>

text \<open>The processor registers that \<open>switch_threads_c\<close> reads or writes.\<close>

record cpu_regs =
  cpu_r3 :: u32
  cpu_r5 :: u32
  cpu_r6 :: u32
  cpu_r7 :: u32
  cpu_sp :: u32

text \<open>One call of \<open>printf\<close>: the format and the arguments.\<close>

datatype arg = AStr string | AInt s32

record kernel =
  links :: "laddr heap"
  threads :: "tptr \<Rightarrow> thread option"
  frames :: "u32 \<Rightarrow> kernel_thread_frame option"
  thread_running_var :: tptr
  idle_thread :: tptr
  initial_thread :: tptr
  idle_ticks :: u64
  kernel_ticks :: u64
  user_ticks :: u64
  thread_ticks :: u32
  next_tid :: s32
  ticks :: s32
  round_robin_mode :: s32
  round_robin_ticks :: u32
  thread_exit_on_return :: s32
  yield_on_return :: bool
  cpu :: cpu_regs
  irq :: u32
  console :: "(string \<times> arg list) list"

text \<open>
  The two functions of the Pico SDK (hardware/sync.h) that thread.c calls are parameters: the
  first maps the interrupt mask to the value it returns and the new mask, the second restores.
\<close>

record sdk =
  save_and_disable_interrupts :: "u32 \<Rightarrow> u32 \<times> u32"
  restore_interrupts :: "u32 \<Rightarrow> u32 \<Rightarrow> u32"

section \<open>Access\<close>

definition printf :: "string \<Rightarrow> arg list \<Rightarrow> kernel \<Rightarrow> kernel" where
  "printf fmt args s = s\<lparr>console := console s @ [(fmt, args)]\<rparr>"

definition load_thread :: "tptr \<Rightarrow> kernel \<Rightarrow> error + thread" where
  "load_thread t s = (if t = 0 then Inl Fault else deref (threads s t))"

definition update_thread :: "tptr \<Rightarrow> (thread \<Rightarrow> thread) \<Rightarrow> kernel \<Rightarrow> error + kernel" where
  "update_thread t f s =
     bindE (load_thread t s) (\<lambda>th. Inr (s\<lparr>threads := (threads s)(t \<mapsto> f th)\<rparr>))"

definition on_links :: "(laddr heap \<Rightarrow> error + laddr heap) \<Rightarrow> kernel \<Rightarrow> error + kernel" where
  "on_links f s = bindE (f (links s)) (\<lambda>h. Inr (s\<lparr>links := h\<rparr>))"

text \<open>A zeroed \<open>struct thread\<close>, as \<open>memset (t, 0, sizeof *t)\<close> and \<open>calloc\<close> leave it.\<close>

definition null_elem :: "laddr list_elem" where
  "null_elem = \<lparr>prev = NULL, next = NULL\<rparr>"

definition zero_regs :: thread_register_save where
  "zero_regs = \<lparr>reg_r0 = 0, reg_r1 = 0, reg_r2 = 0, reg_r3 = 0, reg_r4 = 0, reg_r5 = 0, reg_r6 = 0,
     reg_r7 = 0, reg_r8 = 0, reg_r9 = 0, reg_r10 = 0, reg_r11 = 0, reg_r12 = 0, reg_sp = 0,
     reg_lr = 0, reg_pc = 0\<rparr>"

definition zero_thread :: thread where
  "zero_thread = \<lparr>tid = 0, status = THREAD_RUNNING, name = [], stack = 0, priority = 0,
     true_priority = 0, sleep_time = 0, donations_received_list = (null_elem, null_elem),
     register_save = zero_regs, duration_ticks = 0, magic = 0\<rparr>"

definition zero_thread_at :: "tptr \<Rightarrow> kernel \<Rightarrow> kernel" where
  "zero_thread_at t s =
     s\<lparr>threads := (threads s)(t \<mapsto> zero_thread),
       links := (links s)(AllElem t \<mapsto> null_elem, Elem t \<mapsto> null_elem)\<rparr>"

text \<open>\<open>free (t)\<close>: the thread record and the list elements inside it are gone.\<close>

definition free_thread :: "tptr \<Rightarrow> kernel \<Rightarrow> kernel" where
  "free_thread t s =
     s\<lparr>threads := (threads s)(t := None),
       links := (links s)(AllElem t := None, Elem t := None)\<rparr>"

text \<open>
  Memory when \<open>main\<close> starts: static variables are zero or have their initialisers, the three list
  headers of thread.c are the only list cells; the stack pointer and the registers are given.
\<close>

definition static_links :: "laddr heap" where
  "static_links a = (case a of
       Head Ready_list \<Rightarrow> Some null_elem | Tail Ready_list \<Rightarrow> Some null_elem
     | Head All_list \<Rightarrow> Some null_elem | Tail All_list \<Rightarrow> Some null_elem
     | Head Lista_espera \<Rightarrow> Some null_elem | Tail Lista_espera \<Rightarrow> Some null_elem
     | _ \<Rightarrow> None)"

definition boot_state :: "cpu_regs \<Rightarrow> u32 \<Rightarrow> kernel" where
  "boot_state regs primask =
     \<lparr>links = static_links, threads = (\<lambda>_. None), frames = (\<lambda>_. None),
      thread_running_var = 0, idle_thread = 0, initial_thread = 0,
      idle_ticks = 0, kernel_ticks = 0, user_ticks = 0, thread_ticks = 0, next_tid = 1,
      ticks = 0, round_robin_mode = 0, round_robin_ticks = 5, thread_exit_on_return = 0,
      yield_on_return = False, cpu = regs, irq = primask, console = []\<rparr>"

end
