(* ===== verification/Thread.thy ===== *)
theory Thread
  imports Kernel_State
begin

text \<open>
  The thread system: src/threads/thread.c, the context switch of src/lib/switch.c and the clock of
  src/misc/timer.c, one definition per C function in the order the calls need.

  There is no second stack behind a context switch: \<open>switch_threads_c\<close> saves and loads a few
  registers, makes \<open>thread_running_var\<close> point to the next thread and returns to its caller.  A call
  of \<open>thread_block\<close>, \<open>thread_yield\<close> or \<open>thread_exit\<close> therefore returns at once, with another
  current thread, and the definitions below are ordinary state transformers.
\<close>

unbundle bit_operations_syntax

section \<open>Clock (src/misc/timer.c)\<close>

definition TIMER_FREQ :: s32 where
  "TIMER_FREQ = 100"

definition timer_ticks :: "kernel \<Rightarrow> s32" where
  "timer_ticks s = ticks s"

definition timer_elapsed :: "s32 \<Rightarrow> kernel \<Rightarrow> s32" where
  "timer_elapsed thn s = timer_ticks s - thn"

definition timer_print_stats :: "kernel \<Rightarrow> kernel" where
  "timer_print_stats s = printf ''Timer: %lld ticks\<newline>'' [AInt (timer_ticks s)] s"

definition timer_intr_yield_on_return :: "kernel \<Rightarrow> kernel" where
  "timer_intr_yield_on_return s = s\<lparr>yield_on_return := True\<rparr>"

section \<open>Identifying threads\<close>

definition pg_round_down :: "u32 \<Rightarrow> u32" where
  "pg_round_down va = va AND NOT PGMASK"

definition is_thread :: "tptr \<Rightarrow> kernel \<Rightarrow> error + bool" where
  "is_thread t s =
     andE (Inr (t \<noteq> 0)) (bindE (load_thread t s) (\<lambda>th. Inr (magic th = THREAD_MAGIC)))"

definition running_thread_init :: "kernel \<Rightarrow> tptr" where
  "running_thread_init s = pg_round_down (cpu_sp (cpu s))"

definition running_thread :: "kernel \<Rightarrow> tptr" where
  "running_thread s = thread_running_var s"

definition thread_current :: "kernel \<Rightarrow> error + tptr" where
  "thread_current s =
     (let t = running_thread s in
      bindE (is_thread t s) (\<lambda>c.
      bindE (ASSERT c ''is_thread (t)'') (\<lambda>_.
      bindE (load_thread t s) (\<lambda>th.
      bindE (ASSERT (status th = THREAD_RUNNING) ''t->status == THREAD_RUNNING'') (\<lambda>_.
      Inr t)))))"

definition allocate_tid :: "kernel \<Rightarrow> s32 \<times> kernel" where
  "allocate_tid s = (next_tid s, s\<lparr>next_tid := next_tid s + 1\<rparr>)"

section \<open>Creation\<close>

definition init_thread :: "tptr \<Rightarrow> cstr \<Rightarrow> kernel \<Rightarrow> error + kernel" where
  "init_thread t nm s =
     bindE (ASSERT (t \<noteq> 0) ''t != NULL'') (\<lambda>_.
     bindE (ASSERT (nm \<noteq> NullStr) ''name != NULL'') (\<lambda>_.
     bindE (Inr (zero_thread_at t s)) (\<lambda>s.
     bindE (update_thread t (\<lambda>th. th\<lparr>status := THREAD_BLOCKED\<rparr>) s) (\<lambda>s.
     bindE (update_thread t (\<lambda>th. th\<lparr>name := strlcpy (chars nm) 16\<rparr>) s) (\<lambda>s.
     bindE (update_thread t (\<lambda>th. th\<lparr>stack := t + PGSIZE\<rparr>) s) (\<lambda>s.
     bindE (update_thread t (\<lambda>th. th\<lparr>magic := THREAD_MAGIC\<rparr>) s) (\<lambda>s.
     bindE (update_thread t (\<lambda>th. th\<lparr>duration_ticks := 9999999\<rparr>) s) (\<lambda>s.
     on_links (list_push_back all_list (Some (AllElem t))) s))))))))"

definition alloc_frame :: "tptr \<Rightarrow> u32 \<Rightarrow> kernel \<Rightarrow> error + (u32 \<times> kernel)" where
  "alloc_frame t sz s =
     bindE (is_thread t s) (\<lambda>c.
     bindE (ASSERT c ''is_thread (t)'') (\<lambda>_.
     bindE (ASSERT (sz mod 4 = 0) ''size % sizeof (uint32_t) == 0'') (\<lambda>_.
     bindE (update_thread t (\<lambda>th. th\<lparr>stack := stack th - sz\<rparr>) s) (\<lambda>s.
     bindE (load_thread t s) (\<lambda>th.
     Inr (stack th, s))))))"

definition thread_unblock :: "tptr \<Rightarrow> kernel \<Rightarrow> error + kernel" where
  "thread_unblock t s =
     bindE (is_thread t s) (\<lambda>c.
     bindE (ASSERT c ''is_thread (t)'') (\<lambda>_.
     bindE (load_thread t s) (\<lambda>th.
     bindE (ASSERT (status th = THREAD_BLOCKED) ''t->status == THREAD_BLOCKED'') (\<lambda>_.
     bindE (on_links (list_push_back ready_list (Some (Elem t))) s) (\<lambda>s.
     update_thread t (\<lambda>th. th\<lparr>status := THREAD_READY\<rparr>) s)))))"

section \<open>Switching (src/lib/switch.c) and scheduling\<close>

definition set_thread_running :: "tptr \<Rightarrow> kernel \<Rightarrow> error + kernel" where
  "set_thread_running t s =
     bindE (update_thread t (\<lambda>th. th\<lparr>status := THREAD_RUNNING\<rparr>) s) (\<lambda>s.
     Inr (s\<lparr>thread_running_var := t\<rparr>))"

text \<open>\<open>cur->register_save\<close> receives r3, r5, r6, r7 and sp; only r3, r5, r6 and r7 are loaded from \<open>nxt\<close>.\<close>

definition save_registers :: "cpu_regs \<Rightarrow> thread_register_save \<Rightarrow> thread_register_save" where
  "save_registers c r =
     r\<lparr>reg_r3 := cpu_r3 c, reg_r5 := cpu_r5 c, reg_r6 := cpu_r6 c, reg_r7 := cpu_r7 c,
       reg_sp := cpu_sp c\<rparr>"

definition load_registers :: "thread_register_save \<Rightarrow> cpu_regs \<Rightarrow> cpu_regs" where
  "load_registers r c =
     c\<lparr>cpu_r3 := reg_r3 r, cpu_r5 := reg_r5 r, cpu_r6 := reg_r6 r, cpu_r7 := reg_r7 r\<rparr>"

definition switch_threads_c :: "tptr \<Rightarrow> tptr \<Rightarrow> kernel \<Rightarrow> error + (tptr \<times> kernel)" where
  "switch_threads_c cur nxt s =
     bindE (update_thread cur (\<lambda>th. th\<lparr>register_save := save_registers (cpu s) (register_save th)\<rparr>) s) (\<lambda>s.
     bindE (load_thread nxt s) (\<lambda>th.
     bindE (Inr (s\<lparr>cpu := load_registers (register_save th) (cpu s)\<rparr>)) (\<lambda>s.
     bindE (set_thread_running nxt s) (\<lambda>s.
     Inr (cur, s)))))"

definition next_thread_to_run :: "kernel \<Rightarrow> error + (tptr \<times> kernel)" where
  "next_thread_to_run s =
     bindE (list_empty ready_list (links s)) (\<lambda>e.
     if e then Inr (idle_thread s, s)
     else
       bindE (list_pop_front ready_list (links s)) (\<lambda>(front, h).
       bindE (list_entry_elem front) (\<lambda>t.
       Inr (t, s\<lparr>links := h\<rparr>))))"

definition thread_schedule_tail :: "tptr \<Rightarrow> kernel \<Rightarrow> error + kernel" where
  "thread_schedule_tail prv s =
     (let cur = running_thread s in
      bindE (update_thread cur (\<lambda>th. th\<lparr>status := THREAD_RUNNING\<rparr>) s) (\<lambda>s.
      bindE (Inr (s\<lparr>thread_ticks := 0\<rparr>)) (\<lambda>s.
      bindE (andE (Inr (prv \<noteq> 0))
            (andE (bindE (load_thread prv s) (\<lambda>th. Inr (status th = THREAD_DYING)))
                  (Inr (prv \<noteq> initial_thread s)))) (\<lambda>c.
      if c then
        bindE (ASSERT (prv \<noteq> cur) ''prev != cur'') (\<lambda>_.
        Inr (free_thread prv s))
      else Inr s))))"

definition schedule :: "kernel \<Rightarrow> error + kernel" where
  "schedule s =
     (let cur = running_thread s in
      bindE (next_thread_to_run s) (\<lambda>(nxt, s).
      bindE (load_thread cur s) (\<lambda>th.
      bindE (ASSERT (status th \<noteq> THREAD_RUNNING) ''cur->status != THREAD_RUNNING'') (\<lambda>_.
      bindE (is_thread nxt s) (\<lambda>c.
      bindE (ASSERT c ''is_thread (next)'') (\<lambda>_.
      bindE (if cur \<noteq> nxt then switch_threads_c cur nxt s else Inr (0, s)) (\<lambda>(prv, s).
      thread_schedule_tail prv s)))))))"

definition intr_save :: "sdk \<Rightarrow> kernel \<Rightarrow> u32 \<times> kernel" where
  "intr_save sd s =
     (case save_and_disable_interrupts sd (irq s) of (old_level, m) \<Rightarrow> (old_level, s\<lparr>irq := m\<rparr>))"

definition intr_restore :: "sdk \<Rightarrow> u32 \<Rightarrow> kernel \<Rightarrow> kernel" where
  "intr_restore sd old_level s = s\<lparr>irq := restore_interrupts sd old_level (irq s)\<rparr>"

definition thread_block :: "sdk \<Rightarrow> kernel \<Rightarrow> error + kernel" where
  "thread_block sd s =
     (case intr_save sd s of (old_level, s) \<Rightarrow>
      bindE (thread_current s) (\<lambda>t.
      bindE (update_thread t (\<lambda>th. th\<lparr>status := THREAD_BLOCKED\<rparr>) s) (\<lambda>s.
      bindE (schedule s) (\<lambda>s.
      Inr (intr_restore sd old_level s)))))"

definition thread_yield :: "sdk \<Rightarrow> kernel \<Rightarrow> error + kernel" where
  "thread_yield sd s =
     bindE (thread_current s) (\<lambda>cur.
     case intr_save sd s of (old_level, s) \<Rightarrow>
     bindE (list_empty ready_list (links s)) (\<lambda>e.
     bindE
       (if \<not> e then
          bindE
            (if cur \<noteq> idle_thread s \<and> cur \<noteq> initial_thread s then
               bindE (thread_current s) (\<lambda>t.
               bindE (load_thread t s) (\<lambda>th.
               bindE (Inr (printf ''--YIELD! thread_ticks: %d ; duration left %d\<newline>\<newline>''
                              [AInt (thread_ticks s), AInt (duration_ticks th)] s)) (\<lambda>s.
               on_links (list_push_back ready_list (Some (Elem cur))) s)))
             else Inr s) (\<lambda>s.
          bindE (update_thread cur (\<lambda>th. th\<lparr>status := THREAD_READY\<rparr>) s) (\<lambda>s.
          schedule s))
        else Inr s) (\<lambda>s.
     Inr (intr_restore sd old_level s))))"

text \<open>
  \<open>thread_exit\<close> takes the thread off \<open>all_list\<close> and marks it as dying (\<open>thread_exit_mark\<close>, the first
  three statements of the branch) before it schedules.
\<close>

definition thread_exit_mark :: "kernel \<Rightarrow> error + kernel" where
  "thread_exit_mark s =
     bindE (thread_current s) (\<lambda>t.
     bindE (list_remove (Some (AllElem t)) (links s)) (\<lambda>(_, h).
     bindE (Inr (s\<lparr>links := h\<rparr>)) (\<lambda>s.
     bindE (thread_current s) (\<lambda>t.
     bindE (load_thread t s) (\<lambda>th.
     bindE (Inr (printf ''\<newline>===EXIT thread %s\<newline>\<newline>'' [AStr (name th)] s)) (\<lambda>s.
     bindE (thread_current s) (\<lambda>t.
     update_thread t (\<lambda>th. th\<lparr>status := THREAD_DYING\<rparr>) s)))))))"

definition thread_exit :: "sdk \<Rightarrow> kernel \<Rightarrow> error + kernel" where
  "thread_exit sd s =
     bindE (andE (bindE (thread_current s) (\<lambda>t. Inr (t \<noteq> initial_thread s)))
                 (bindE (thread_current s) (\<lambda>t. Inr (t \<noteq> idle_thread s)))) (\<lambda>c.
     if c then bindE (thread_exit_mark s) schedule
     else thread_yield sd s)"

definition block_if_idle_thread :: "sdk \<Rightarrow> kernel \<Rightarrow> error + kernel" where
  "block_if_idle_thread sd s =
     bindE (thread_current s) (\<lambda>t.
     if t = idle_thread s then thread_block sd s else Inr s)"

definition is_ready_list_empty :: "kernel \<Rightarrow> error + bool" where
  "is_ready_list_empty s = list_empty ready_list (links s)"

section \<open>The idle thread and thread functions\<close>

text \<open>
  The function of the idle thread never returns: \<open>None\<close>.  \<open>thread_create\<close> stores \<open>idle\<close> and the
  functions of other threads in their frames; nothing in the kernel calls them.
\<close>

partial_function (option) idle_loop :: "sdk \<Rightarrow> kernel \<Rightarrow> (error + unit) option" where
  "idle_loop sd s = bindR (Some (thread_block sd s)) (\<lambda>s. idle_loop sd s)"

definition idle :: "sdk \<Rightarrow> kernel \<Rightarrow> (error + unit) option" where
  "idle sd s =
     bindR (Some (Inr (printf (''Ejecutando funci'' @ [CHR 0xC3, CHR 0xB3] @ ''n IDLE!\<newline>'') [] s))) (\<lambda>s.
     bindR (Some (thread_current s)) (\<lambda>t.
     bindR (Some (Inr (s\<lparr>idle_thread := t\<rparr>))) (\<lambda>s.
     idle_loop sd s)))"

text \<open>\<open>run\<close> is the effect of calling the thread function at an address.\<close>

definition kernel_thread ::
  "(u32 \<Rightarrow> u32 \<Rightarrow> kernel \<Rightarrow> (error + kernel) option) \<Rightarrow> u32 \<Rightarrow> u32 \<Rightarrow> kernel \<Rightarrow> (error + kernel) option" where
  "kernel_thread run func ax s =
     bindR (Some (ASSERT (func \<noteq> 0) ''function != NULL'')) (\<lambda>_. run func ax s)"

section \<open>Ticks\<close>

definition thread_tick :: "kernel \<Rightarrow> error + kernel" where
  "thread_tick s =
     bindE (thread_current s) (\<lambda>t.
     bindE (Inr (if t = idle_thread s then s\<lparr>idle_ticks := idle_ticks s + 1\<rparr>
                 else s\<lparr>kernel_ticks := kernel_ticks s + 1\<rparr>)) (\<lambda>s.
     bindE (Inr (s\<lparr>thread_ticks := thread_ticks s + 1\<rparr>)) (\<lambda>s.
     update_thread t (\<lambda>th. th\<lparr>duration_ticks := duration_ticks th - 1\<rparr>) s)))"

section \<open>Creating threads\<close>

text \<open>\<open>t\<close> is the address that \<open>calloc (1, sizeof (struct thread))\<close> returns, 0 when it fails.\<close>

definition calloc_thread :: "tptr \<Rightarrow> kernel \<Rightarrow> kernel" where
  "calloc_thread t s = (if t = 0 then s else zero_thread_at t s)"

definition store_frame :: "u32 \<Rightarrow> (kernel_thread_frame \<Rightarrow> kernel_thread_frame) \<Rightarrow> kernel \<Rightarrow> kernel" where
  "store_frame a f s =
     s\<lparr>frames := (frames s)(a \<mapsto> f (case frames s a of Some k \<Rightarrow> k
                                   | None \<Rightarrow> \<lparr>eip = 0, function = 0, aux = 0\<rparr>))\<rparr>"

definition thread_create :: "sdk \<Rightarrow> tptr \<Rightarrow> cstr \<Rightarrow> u32 \<Rightarrow> u32 \<Rightarrow> s32 \<Rightarrow> kernel \<Rightarrow> error + (s32 \<times> kernel)" where
  "thread_create sd t nm func ax duration s =
     (let s = calloc_thread t s in
      if t = 0 then Inr (TID_ERROR, s)
      else
        bindE (init_thread t nm s) (\<lambda>s.
        case allocate_tid s of (new_tid, s) \<Rightarrow>
        bindE (update_thread t (\<lambda>th. th\<lparr>tid := new_tid\<rparr>) s) (\<lambda>s.
        bindE (update_thread t (\<lambda>th. th\<lparr>duration_ticks := duration\<rparr>) s) (\<lambda>s.
        bindE (Inr (printf (''Se cre'' @ [CHR 0xC3, CHR 0xB3] @ '' el thread \"%s\" con duraci'' @
                      [CHR 0xC3, CHR 0xB3] @ ''n %d\<newline>'') [AStr (chars nm), AInt duration] s)) (\<lambda>s.
        bindE (alloc_frame t sizeof_kernel_thread_frame s) (\<lambda>(kf, s).
        bindE (Inr (store_frame kf (\<lambda>k. k\<lparr>eip := 0\<rparr>) s)) (\<lambda>s.
        bindE (Inr (store_frame kf (\<lambda>k. k\<lparr>function := func\<rparr>) s)) (\<lambda>s.
        bindE (Inr (store_frame kf (\<lambda>k. k\<lparr>aux := ax\<rparr>) s)) (\<lambda>s.
        bindE (thread_unblock t s) (\<lambda>s.
        bindE (Inr (if nm = StrLit ''idle'' \<and> new_tid = 2 then s\<lparr>idle_thread := t\<rparr> else s)) (\<lambda>s.
        bindE (block_if_idle_thread sd s) (\<lambda>s.
        Inr (new_tid, s)))))))))))))"

definition thread_init :: "kernel \<Rightarrow> error + kernel" where
  "thread_init s =
     bindE (on_links (list_init ready_list) s) (\<lambda>s.
     bindE (on_links (list_init all_list) s) (\<lambda>s.
     bindE (on_links (list_init lista_espera) s) (\<lambda>s.
     bindE (Inr (s\<lparr>initial_thread := running_thread_init s\<rparr>)) (\<lambda>s.
     bindE (init_thread (initial_thread s) (StrLit ''main'') s) (\<lambda>s.
     bindE (update_thread (initial_thread s) (\<lambda>th. th\<lparr>status := THREAD_RUNNING\<rparr>) s) (\<lambda>s.
     case allocate_tid s of (new_tid, s) \<Rightarrow>
     bindE (update_thread (initial_thread s) (\<lambda>th. th\<lparr>tid := new_tid\<rparr>) s) (\<lambda>s.
     bindE (Inr (s\<lparr>thread_running_var := initial_thread s\<rparr>)) (\<lambda>s.
     bindE (load_thread (initial_thread s) s) (\<lambda>th.
     Inr (printf ''Se termino de configurar el thread inicial. info: name %s , status %d, tid %d\<newline>''
            [AStr (name th), AInt (status_code (status th)), AInt (tid th)] s))))))))))"

text \<open>\<open>idle_fn\<close> is the address of the function \<open>idle\<close>; it is stored in the frame and never called.\<close>

definition thread_start :: "sdk \<Rightarrow> tptr \<Rightarrow> u32 \<Rightarrow> kernel \<Rightarrow> error + kernel" where
  "thread_start sd t idle_fn s =
     bindE (thread_create sd t (StrLit ''idle'') idle_fn 0 999 s) (\<lambda>(_, s). Inr s)"

section \<open>Sleeping\<close>

definition insertar_en_lista_espera :: "sdk \<Rightarrow> s32 \<Rightarrow> kernel \<Rightarrow> error + kernel" where
  "insertar_en_lista_espera sd n s =
     bindE (thread_current s) (\<lambda>t.
     bindE (update_thread t (\<lambda>th. th\<lparr>sleep_time := int_to_u64 (timer_ticks s + n)\<rparr>) s) (\<lambda>s.
     bindE (on_links (list_push_back lista_espera (Some (Elem t))) s) (\<lambda>s.
     thread_block sd s)))"

definition thread_sleep :: "sdk \<Rightarrow> s32 \<Rightarrow> kernel \<Rightarrow> error + kernel" where
  "thread_sleep sd n s =
     (if 0 < sint n then
        bindE (thread_current s) (\<lambda>t.
        bindE (load_thread t s) (\<lambda>th.
        bindE (Inr (printf ''SLEEP thread %s - %d ticks.\<newline>'' [AStr (name th), AInt n] s)) (\<lambda>s.
        insertar_en_lista_espera sd n s)))
      else Inr (printf ''Sleep negativo! No se va a dormir.\<newline>'' [] s))"

definition timer_sleep :: "sdk \<Rightarrow> s32 \<Rightarrow> kernel \<Rightarrow> error + kernel" where
  "timer_sleep sd n s = (if 0 < sint n then insertar_en_lista_espera sd n s else Inr s)"

text \<open>The loop of \<open>remover_thread_durmiente\<close>, from the iterator \<open>iter\<close> on.\<close>

partial_function (option) remover_loop :: "s32 \<Rightarrow> laddr ptr \<Rightarrow> kernel \<Rightarrow> (error + kernel) option" where
  "remover_loop n iter s =
     bindR (Some (list_end lista_espera)) (\<lambda>e.
     if iter = e then Some (Inr s)
     else
       bindR (Some (list_entry_elem iter)) (\<lambda>t.
       bindR (Some (load_thread t s)) (\<lambda>th.
       if sleep_time th \<le> int_to_u64 n then
         bindR (Some (Inr (printf ''--Wake Up! Thread %s\<newline>'' [AStr (name th)] s))) (\<lambda>s.
         bindR (Some (list_remove iter (links s))) (\<lambda>(iter', h).
         bindR (Some (Inr (s\<lparr>links := h\<rparr>))) (\<lambda>s.
         bindR (Some (thread_unblock t s)) (\<lambda>s.
         remover_loop n iter' s))))
       else
         bindR (Some (list_next iter (links s))) (\<lambda>iter'.
         remover_loop n iter' s))))"

definition remover_thread_durmiente :: "s32 \<Rightarrow> kernel \<Rightarrow> (error + kernel) option" where
  "remover_thread_durmiente n s =
     bindR (Some (list_begin lista_espera (links s))) (\<lambda>iter. remover_loop n iter s)"

section \<open>Printing\<close>

partial_function (option) print_thread_loop :: "laddr clist ptr \<Rightarrow> laddr ptr \<Rightarrow> kernel \<Rightarrow> (error + kernel) option" where
  "print_thread_loop list e s =
     bindR (Some (list_end list)) (\<lambda>l.
     if e = l then Some (Inr s)
     else
       bindR (Some (list_entry_elem e)) (\<lambda>t.
       bindR (Some (load_thread t s)) (\<lambda>th.
       bindR (Some (Inr (printf ''[%s] -> '' [AStr (name th)] s))) (\<lambda>s.
       bindR (Some (list_next e (links s))) (\<lambda>e'.
       print_thread_loop list e' s)))))"

definition print_thread_list :: "laddr clist ptr \<Rightarrow> kernel \<Rightarrow> (error + kernel) option" where
  "print_thread_list list s =
     bindR (Some (ASSERT (list \<noteq> NULL) ''list != NULL'')) (\<lambda>_.
     bindR (Some (Inr (printf ''LISTA: '' [] s))) (\<lambda>s.
     bindR (Some (list_begin list (links s))) (\<lambda>e.
     bindR (print_thread_loop list e s) (\<lambda>s.
     Some (Inr (printf ''\<newline>'' [] s))))))"

partial_function (option) print_all_loop :: "laddr ptr \<Rightarrow> kernel \<Rightarrow> (error + kernel) option" where
  "print_all_loop e s =
     bindR (Some (list_end all_list)) (\<lambda>l.
     if e = l then Some (Inr s)
     else
       bindR (Some (list_entry_allelem e)) (\<lambda>t.
       bindR (Some (load_thread t s)) (\<lambda>th.
       bindR (Some (Inr (printf ''[%s] -> '' [AStr (name th)] s))) (\<lambda>s.
       bindR (Some (list_next e (links s))) (\<lambda>e'.
       print_all_loop e' s)))))"

definition print_all_list :: "kernel \<Rightarrow> (error + kernel) option" where
  "print_all_list s =
     bindR (Some (ASSERT (all_list \<noteq> NULL) ''&all_list != NULL'')) (\<lambda>_.
     bindR (Some (list_begin all_list (links s))) (\<lambda>e.
     bindR (print_all_loop e s) (\<lambda>s.
     Some (Inr (printf ''\<newline>'' [] s)))))"

definition print_ready_list :: "kernel \<Rightarrow> (error + kernel) option" where
  "print_ready_list s = print_thread_list ready_list s"

definition print_blocked_list :: "kernel \<Rightarrow> (error + kernel) option" where
  "print_blocked_list s = print_thread_list lista_espera s"

definition print_lists :: "kernel \<Rightarrow> (error + kernel) option" where
  "print_lists s =
     bindR (print_ready_list (printf ''READY: '' [] (printf ''\<newline>'' [] s))) (\<lambda>s.
     bindR (print_blocked_list (printf ''BLOCKED: '' [] s)) (\<lambda>s.
     Some (Inr (printf ''\<newline>'' [] s))))"

end
