(* ===== verification/Kernel_Inv.thy ===== *)
theory Kernel_Inv
  imports CList_Spec Thread
begin

text \<open>
  The kernel's three lists in one memory.

  \<open>lists_ok s rts sts ats D\<close> relates a kernel state to the threads on its lists: \<open>rts\<close> are the
  threads on \<open>ready_list\<close>, \<open>sts\<close> those on \<open>lista_espera\<close>, \<open>ats\<close> those on \<open>all_list\<close> (all in list
  order), and \<open>D\<close> the allocated threads.  The lemmas say what each use of a list operation by
  thread.c does to the three lists at once; they are the interface between list.c and the
  scheduler, and no proof about the scheduler looks at list cells.
\<close>

definition lists_ok :: "kernel \<Rightarrow> tptr list \<Rightarrow> tptr list \<Rightarrow> tptr list \<Rightarrow> tptr set \<Rightarrow> bool" where
  "lists_ok s rts sts ats D \<longleftrightarrow>
     is_list (links s) (hdr Ready_list) (map Elem rts) \<and>
     is_list (links s) (hdr Lista_espera) (map Elem sts) \<and>
     is_list (links s) (hdr All_list) (map AllElem ats) \<and>
     dom (threads s) = D \<and> 0 \<notin> D \<and>
     set rts \<subseteq> D \<and> set sts \<subseteq> D \<and> set ats \<subseteq> D \<and> set rts \<inter> set sts = {} \<and>
     (\<forall>t\<in>D. Elem t \<in> dom (links s) \<and> AllElem t \<in> dom (links s))"

section \<open>Simplification\<close>

lemma hdr_simps [simp]: "head (hdr i) = Head i" "tail (hdr i) = Tail i"
  by (simp_all add: hdr_def)

lemma nodes_hdr [simp]: "nodes (hdr i) xs = {Head i, Tail i} \<union> set xs"
  by (auto simp: nodes_def)

lemma printf_simps [simp]:
  "links (printf f as s) = links s" "threads (printf f as s) = threads s"
  "thread_running_var (printf f as s) = thread_running_var s"
  "idle_thread (printf f as s) = idle_thread s" "initial_thread (printf f as s) = initial_thread s"
  "thread_ticks (printf f as s) = thread_ticks s" "next_tid (printf f as s) = next_tid s"
  "ticks (printf f as s) = ticks s" "round_robin_mode (printf f as s) = round_robin_mode s"
  "round_robin_ticks (printf f as s) = round_robin_ticks s"
  "thread_exit_on_return (printf f as s) = thread_exit_on_return s"
  "irq (printf f as s) = irq s" "cpu (printf f as s) = cpu s" "frames (printf f as s) = frames s"
  "idle_ticks (printf f as s) = idle_ticks s" "kernel_ticks (printf f as s) = kernel_ticks s"
  "user_ticks (printf f as s) = user_ticks s" "yield_on_return (printf f as s) = yield_on_return s"
  "console (printf f as s) = console s @ [(f, as)]"
  by (simp_all add: printf_def)

lemma lists_ok_cong:
  "links s' = links s \<Longrightarrow> dom (threads s') = dom (threads s) \<Longrightarrow>
   lists_ok s' rts sts ats D = lists_ok s rts sts ats D"
  by (simp add: lists_ok_def)

lemma load_thread_Some [simp]: "threads s t = Some th \<Longrightarrow> t \<noteq> 0 \<Longrightarrow> load_thread t s = Inr th"
  by (simp add: load_thread_def)

lemma update_thread_Some [simp]:
  "threads s t = Some th \<Longrightarrow> t \<noteq> 0 \<Longrightarrow>
   update_thread t f s = Inr (s\<lparr>threads := (threads s)(t \<mapsto> f th)\<rparr>)"
  by (simp add: update_thread_def)

lemma list_entry_elem_Elem [simp]: "list_entry_elem (Some (Elem t)) = Inr t"
  by (simp add: list_entry_elem_def)

lemma list_entry_allelem_AllElem [simp]: "list_entry_allelem (Some (AllElem t)) = Inr t"
  by (simp add: list_entry_allelem_def)

section \<open>Consequences\<close>

lemma lists_okD:
  assumes "lists_ok s rts sts ats D"
  shows "is_list (links s) (hdr Ready_list) (map Elem rts)"
    "is_list (links s) (hdr Lista_espera) (map Elem sts)"
    "is_list (links s) (hdr All_list) (map AllElem ats)"
    "dom (threads s) = D" "0 \<notin> D" "set rts \<subseteq> D" "set sts \<subseteq> D" "set ats \<subseteq> D"
    "set rts \<inter> set sts = {}"
    "\<And>t. t \<in> D \<Longrightarrow> Elem t \<in> dom (links s)" "\<And>t. t \<in> D \<Longrightarrow> AllElem t \<in> dom (links s)"
  using assms by (auto simp: lists_ok_def)

lemma is_list_distinct_map: "is_list h l (map f xs) \<Longrightarrow> distinct xs"
  by (auto simp: is_list_def distinct_map)

lemma lists_ok_distinct:
  assumes "lists_ok s rts sts ats D"
  shows "distinct rts" "distinct sts" "distinct ats"
  using lists_okD(1-3) [OF assms] by (auto dest: is_list_distinct_map)

lemma lists_ok_thread:
  assumes "lists_ok s rts sts ats D" "t \<in> D"
  obtains th where "threads s t = Some th" "t \<noteq> 0"
  using lists_okD(4,5) [OF assms(1)] assms(2) by blast

lemma lists_ok_list_empty:
  "lists_ok s rts sts ats D \<Longrightarrow> list_empty ready_list (links s) = Inr (rts = [])"
  using list_empty_spec [OF lists_okD(1)] by simp

text \<open>Transfer of the other two lists when one list and one element change.\<close>

lemma lists_ok_links:
  assumes "lists_ok s rts sts ats D" "only_changes (links s) h S"
    and "is_list h (hdr Ready_list) (map Elem rts')"
    and "is_list h (hdr Lista_espera) (map Elem sts')"
    and "is_list h (hdr All_list) (map AllElem ats')"
    and "set rts' \<subseteq> D" "set sts' \<subseteq> D" "set ats' \<subseteq> D" "set rts' \<inter> set sts' = {}"
  shows "lists_ok (s\<lparr>links := h\<rparr>) rts' sts' ats' D"
  using assms by (simp add: lists_ok_def only_changes_def)

section \<open>The uses of list operations in thread.c\<close>

lemma push_ready:
  assumes ok: "lists_ok s rts sts ats D" and t: "t \<in> D" "t \<notin> set rts" "t \<notin> set sts"
  obtains h where "on_links (list_push_back ready_list (Some (Elem t))) s = Inr (s\<lparr>links := h\<rparr>)"
    and "lists_ok (s\<lparr>links := h\<rparr>) (rts @ [t]) sts ats D"
proof -
  note L = lists_okD [OF ok]
  obtain c where c: "links s (Elem t) = Some c" using L(10) t(1) by blast
  have new: "Elem t \<notin> nodes (hdr Ready_list) (map Elem rts)" using t(2) by auto
  obtain h where h: "list_push_back ready_list (Some (Elem t)) (links s) = Inr h"
    "is_list h (hdr Ready_list) (map Elem rts @ [Elem t])"
    "only_changes (links s) h (insert (Elem t) (nodes (hdr Ready_list) (map Elem rts)))"
    by (rule list_push_back_spec [OF L(1) new c])
  have "is_list h (hdr Lista_espera) (map Elem sts)"
    by (rule is_list_other [OF L(2) h(3)]) (use t L(9) in auto)
  moreover have "is_list h (hdr All_list) (map AllElem ats)"
    by (rule is_list_other [OF L(3) h(3)]) auto
  ultimately have "lists_ok (s\<lparr>links := h\<rparr>) (rts @ [t]) sts ats D"
    using lists_ok_links [OF ok h(3)] h(2) L t by auto
  with h(1) that show thesis by (simp add: on_links_def)
qed

lemma push_espera:
  assumes ok: "lists_ok s rts sts ats D" and t: "t \<in> D" "t \<notin> set rts" "t \<notin> set sts"
  obtains h where "on_links (list_push_back lista_espera (Some (Elem t))) s = Inr (s\<lparr>links := h\<rparr>)"
    and "lists_ok (s\<lparr>links := h\<rparr>) rts (sts @ [t]) ats D"
proof -
  note L = lists_okD [OF ok]
  obtain c where c: "links s (Elem t) = Some c" using L(10) t(1) by blast
  have new: "Elem t \<notin> nodes (hdr Lista_espera) (map Elem sts)" using t(3) by auto
  obtain h where h: "list_push_back lista_espera (Some (Elem t)) (links s) = Inr h"
    "is_list h (hdr Lista_espera) (map Elem sts @ [Elem t])"
    "only_changes (links s) h (insert (Elem t) (nodes (hdr Lista_espera) (map Elem sts)))"
    by (rule list_push_back_spec [OF L(2) new c])
  have "is_list h (hdr Ready_list) (map Elem rts)"
    by (rule is_list_other [OF L(1) h(3)]) (use t L(9) in auto)
  moreover have "is_list h (hdr All_list) (map AllElem ats)"
    by (rule is_list_other [OF L(3) h(3)]) auto
  ultimately have "lists_ok (s\<lparr>links := h\<rparr>) rts (sts @ [t]) ats D"
    using lists_ok_links [OF ok h(3)] h(2) L t by auto
  with h(1) that show thesis by (simp add: on_links_def)
qed

lemma push_all:
  assumes ok: "lists_ok s rts sts ats D" and t: "t \<in> D" "t \<notin> set ats"
  obtains h where "on_links (list_push_back all_list (Some (AllElem t))) s = Inr (s\<lparr>links := h\<rparr>)"
    and "lists_ok (s\<lparr>links := h\<rparr>) rts sts (ats @ [t]) D"
proof -
  note L = lists_okD [OF ok]
  obtain c where c: "links s (AllElem t) = Some c" using L(11) t(1) by blast
  have new: "AllElem t \<notin> nodes (hdr All_list) (map AllElem ats)" using t(2) by auto
  obtain h where h: "list_push_back all_list (Some (AllElem t)) (links s) = Inr h"
    "is_list h (hdr All_list) (map AllElem ats @ [AllElem t])"
    "only_changes (links s) h (insert (AllElem t) (nodes (hdr All_list) (map AllElem ats)))"
    by (rule list_push_back_spec [OF L(3) new c])
  have "is_list h (hdr Ready_list) (map Elem rts)"
    by (rule is_list_other [OF L(1) h(3)]) auto
  moreover have "is_list h (hdr Lista_espera) (map Elem sts)"
    by (rule is_list_other [OF L(2) h(3)]) auto
  ultimately have "lists_ok (s\<lparr>links := h\<rparr>) rts sts (ats @ [t]) D"
    using lists_ok_links [OF ok h(3)] h(2) L t by auto
  with h(1) that show thesis by (simp add: on_links_def)
qed

lemma pop_ready:
  assumes ok: "lists_ok s (t # rts) sts ats D"
  obtains h where "next_thread_to_run s = Inr (t, s\<lparr>links := h\<rparr>)"
    and "lists_ok (s\<lparr>links := h\<rparr>) rts sts ats D"
proof -
  note L = lists_okD [OF ok]
  have l: "is_list (links s) (hdr Ready_list) (Elem t # map Elem rts)" using L(1) by simp
  obtain h where h: "list_pop_front ready_list (links s) = Inr (Some (Elem t), h)"
    "is_list h (hdr Ready_list) (map Elem rts)"
    "only_changes (links s) h (nodes (hdr Ready_list) (map Elem rts))"
    by (rule list_pop_front_spec [OF l])
  have "is_list h (hdr Lista_espera) (map Elem sts)"
    by (rule is_list_other [OF L(2) h(3)]) (use L(9) in auto)
  moreover have "is_list h (hdr All_list) (map AllElem ats)"
    by (rule is_list_other [OF L(3) h(3)]) auto
  ultimately have "lists_ok (s\<lparr>links := h\<rparr>) rts sts ats D"
    using lists_ok_links [OF ok h(3)] h(2) L by auto
  moreover have "next_thread_to_run s = Inr (t, s\<lparr>links := h\<rparr>)"
    using lists_ok_list_empty [OF ok] h(1) by (simp add: next_thread_to_run_def)
  ultimately show thesis using that by blast
qed

lemma remove_espera:
  assumes ok: "lists_ok s rts (us @ t # vs) ats D"
  obtains h where
    "list_remove (Some (Elem t)) (links s) = Inr (Some (hd (map Elem vs @ [Tail Lista_espera])), h)"
    and "lists_ok (s\<lparr>links := h\<rparr>) rts (us @ vs) ats D"
proof -
  note L = lists_okD [OF ok]
  have l: "is_list (links s) (hdr Lista_espera) (map Elem us @ Elem t # map Elem vs)"
    using L(2) by simp
  obtain h where h:
    "list_remove (Some (Elem t)) (links s) = Inr (Some (hd (map Elem vs @ [tail (hdr Lista_espera)])), h)"
    "is_list h (hdr Lista_espera) (map Elem us @ map Elem vs)"
    "only_changes (links s) h (nodes (hdr Lista_espera) (map Elem us @ map Elem vs))"
    by (rule list_remove_spec [OF l])
  have "is_list h (hdr Ready_list) (map Elem rts)"
    by (rule is_list_other [OF L(1) h(3)]) (use L(9) in auto)
  moreover have "is_list h (hdr All_list) (map AllElem ats)"
    by (rule is_list_other [OF L(3) h(3)]) auto
  ultimately have "lists_ok (s\<lparr>links := h\<rparr>) rts (us @ vs) ats D"
    using lists_ok_links [OF ok h(3)] h(2) L by auto
  with h(1) that show thesis by simp
qed

lemma remove_all:
  assumes ok: "lists_ok s rts sts (us @ t # vs) D"
  obtains n h where "list_remove (Some (AllElem t)) (links s) = Inr (n, h)"
    and "lists_ok (s\<lparr>links := h\<rparr>) rts sts (us @ vs) D"
proof -
  note L = lists_okD [OF ok]
  have l: "is_list (links s) (hdr All_list) (map AllElem us @ AllElem t # map AllElem vs)"
    using L(3) by simp
  obtain h where h:
    "list_remove (Some (AllElem t)) (links s) = Inr (Some (hd (map AllElem vs @ [tail (hdr All_list)])), h)"
    "is_list h (hdr All_list) (map AllElem us @ map AllElem vs)"
    "only_changes (links s) h (nodes (hdr All_list) (map AllElem us @ map AllElem vs))"
    by (rule list_remove_spec [OF l])
  have "is_list h (hdr Ready_list) (map Elem rts)"
    by (rule is_list_other [OF L(1) h(3)]) auto
  moreover have "is_list h (hdr Lista_espera) (map Elem sts)"
    by (rule is_list_other [OF L(2) h(3)]) auto
  ultimately have "lists_ok (s\<lparr>links := h\<rparr>) rts sts (us @ vs) D"
    using lists_ok_links [OF ok h(3)] h(2) L by auto
  with h(1) that show thesis by simp
qed

lemma free_lists_ok:
  assumes ok: "lists_ok s rts sts ats D" and t: "t \<notin> set rts" "t \<notin> set sts" "t \<notin> set ats"
  shows "lists_ok (free_thread t s) rts sts ats (D - {t})"
proof -
  note L = lists_okD [OF ok]
  have "is_list (links (free_thread t s)) (hdr Ready_list) (map Elem rts)"
    by (rule is_list_frame [OF L(1)]) (use t in \<open>auto simp: free_thread_def\<close>)
  moreover have "is_list (links (free_thread t s)) (hdr Lista_espera) (map Elem sts)"
    by (rule is_list_frame [OF L(2)]) (use t in \<open>auto simp: free_thread_def\<close>)
  moreover have "is_list (links (free_thread t s)) (hdr All_list) (map AllElem ats)"
    by (rule is_list_frame [OF L(3)]) (use t in \<open>auto simp: free_thread_def\<close>)
  ultimately show ?thesis
    using L t by (auto simp: lists_ok_def free_thread_def)
qed

lemma zero_lists_off:
  assumes ok: "lists_ok s rts sts ats D" and t: "t \<noteq> 0"
    and t': "t \<notin> set rts" "t \<notin> set sts" "t \<notin> set ats"
  shows "lists_ok (zero_thread_at t s) rts sts ats (insert t D)"
proof -
  note L = lists_okD [OF ok]
  have "is_list (links (zero_thread_at t s)) (hdr Ready_list) (map Elem rts)"
    by (rule is_list_frame [OF L(1)]) (use t' in \<open>auto simp: zero_thread_at_def\<close>)
  moreover have "is_list (links (zero_thread_at t s)) (hdr Lista_espera) (map Elem sts)"
    by (rule is_list_frame [OF L(2)]) (use t' in \<open>auto simp: zero_thread_at_def\<close>)
  moreover have "is_list (links (zero_thread_at t s)) (hdr All_list) (map AllElem ats)"
    by (rule is_list_frame [OF L(3)]) (use t' in \<open>auto simp: zero_thread_at_def\<close>)
  ultimately show ?thesis
    using L t by (auto simp: lists_ok_def zero_thread_at_def)
qed

lemma zero_lists_ok:
  assumes "lists_ok s rts sts ats D" "t \<notin> D" "t \<noteq> 0"
  shows "lists_ok (zero_thread_at t s) rts sts ats (insert t D)"
  by (rule zero_lists_off [OF assms(1,3)]) (use lists_okD(6-8) [OF assms(1)] assms(2) in auto)

end
