(* ===== verification/Sched.thy ===== *)
theory Sched
  imports Kernel_Inv
begin

text \<open>
  An abstract scheduler and the refinement of its operations by thread.c.

  The abstract state \<open>sched\<close> holds the current thread, the ready queue, the sleeping threads and the
  registered threads as plain lists, with the remaining duration and the wake-up time of each
  thread.  Its operations are a few lines each and say what the kernel promises; \<open>refines s a\<close> is
  the simulation relation to the pointer structures of the kernel.
\<close>

section \<open>The abstract scheduler\<close>

record sched =
  a_cur :: tptr
  a_ready :: "tptr list"
  a_sleeping :: "tptr list"
  a_all :: "tptr list"
  a_idle :: tptr
  a_initial :: tptr
  a_dur :: "tptr \<Rightarrow> s32"
  a_wake :: "tptr \<Rightarrow> u64"
  a_used :: u32
  a_now :: s32
  a_mode :: s32
  a_quantum :: u32
  a_exit_req :: s32

text \<open>The next thread is the front of the ready queue, or the idle thread; its time slice starts.\<close>

definition a_dispatch :: "sched \<Rightarrow> sched" where
  "a_dispatch a =
     (case a_ready a of
        [] \<Rightarrow> a\<lparr>a_cur := a_idle a, a_used := 0\<rparr>
      | t # ts \<Rightarrow> a\<lparr>a_cur := t, a_ready := ts, a_used := 0\<rparr>)"

definition a_yield :: "sched \<Rightarrow> sched" where
  "a_yield a =
     (if a_ready a = [] then a
      else if a_cur a \<noteq> a_idle a \<and> a_cur a \<noteq> a_initial a
      then a_dispatch (a\<lparr>a_ready := a_ready a @ [a_cur a]\<rparr>)
      else a_dispatch a)"

definition a_exit :: "sched \<Rightarrow> sched" where
  "a_exit a =
     (if a_cur a \<noteq> a_initial a \<and> a_cur a \<noteq> a_idle a
      then a_dispatch (a\<lparr>a_all := remove1 (a_cur a) (a_all a)\<rparr>)
      else a_yield a)"

definition a_block_if_idle :: "sched \<Rightarrow> sched" where
  "a_block_if_idle a = (if a_cur a = a_idle a then a_dispatch a else a)"

definition a_sleep :: "s32 \<Rightarrow> sched \<Rightarrow> sched" where
  "a_sleep n a =
     a_dispatch (a\<lparr>a_sleeping := a_sleeping a @ [a_cur a],
                   a_wake := (a_wake a)(a_cur a := int_to_u64 (a_now a + n))\<rparr>)"

definition a_create :: "tptr \<Rightarrow> s32 \<Rightarrow> sched \<Rightarrow> sched" where
  "a_create t d a =
     a_block_if_idle (a\<lparr>a_all := a_all a @ [t], a_ready := a_ready a @ [t],
                        a_dur := (a_dur a)(t := d), a_wake := (a_wake a)(t := 0)\<rparr>)"

text \<open>The threads whose wake-up time has come leave the sleeping list in order.\<close>

definition a_expired :: "s32 \<Rightarrow> sched \<Rightarrow> tptr \<Rightarrow> bool" where
  "a_expired n a t \<longleftrightarrow> a_wake a t \<le> int_to_u64 n"

definition a_wake_up :: "s32 \<Rightarrow> sched \<Rightarrow> sched" where
  "a_wake_up n a =
     a\<lparr>a_ready := a_ready a @ filter (a_expired n a) (a_sleeping a),
       a_sleeping := filter (\<lambda>t. \<not> a_expired n a t) (a_sleeping a)\<rparr>"

definition a_tick :: "sched \<Rightarrow> sched" where
  "a_tick a =
     a\<lparr>a_used := a_used a + 1, a_dur := (a_dur a)(a_cur a := a_dur a (a_cur a) - 1)\<rparr>"

text \<open>
  Well-formed: one place for each thread.  Threads other than the current one, the idle thread and
  the initial thread are queued as ready or sleeping, so none is lost.
\<close>

definition sched_wf :: "sched \<Rightarrow> bool" where
  "sched_wf a \<longleftrightarrow>
     distinct (a_ready a) \<and> distinct (a_sleeping a) \<and> distinct (a_all a) \<and>
     set (a_ready a) \<inter> set (a_sleeping a) = {} \<and>
     set (a_ready a) \<subseteq> set (a_all a) \<and> set (a_sleeping a) \<subseteq> set (a_all a) \<and>
     a_cur a \<in> set (a_all a) \<and> a_cur a \<notin> set (a_ready a) \<and> a_cur a \<notin> set (a_sleeping a) \<and>
     a_idle a \<in> set (a_all a) \<and> a_initial a \<in> set (a_all a) \<and> a_idle a \<noteq> a_initial a \<and>
     a_idle a \<notin> set (a_sleeping a) \<and>
     (\<forall>t\<in>set (a_all a). t = a_cur a \<or> t = a_idle a \<or> t = a_initial a \<or>
        t \<in> set (a_ready a) \<or> t \<in> set (a_sleeping a))"

section \<open>The simulation relation\<close>

definition status_ok :: "sched \<Rightarrow> tptr \<Rightarrow> thread_status \<Rightarrow> bool" where
  "status_ok a t st \<longleftrightarrow>
     st \<noteq> THREAD_RUNNING \<and> st \<noteq> THREAD_DYING \<and>
     (t \<in> set (a_ready a) \<longrightarrow> st = THREAD_READY) \<and>
     (t \<in> set (a_sleeping a) \<longrightarrow> st = THREAD_BLOCKED)"

definition thread_ok :: "sched \<Rightarrow> tptr \<Rightarrow> thread \<Rightarrow> bool" where
  "thread_ok a t th \<longleftrightarrow>
     magic th = THREAD_MAGIC \<and> duration_ticks th = a_dur a t \<and> sleep_time th = a_wake a t \<and>
     (t \<noteq> a_cur a \<longrightarrow> status_ok a t (status th))"

text \<open>\<open>D\<close> is the set of allocated threads; it differs from the registered ones while a thread dies.\<close>

definition sim :: "kernel \<Rightarrow> sched \<Rightarrow> tptr set \<Rightarrow> bool" where
  "sim s a D \<longleftrightarrow>
     lists_ok s (a_ready a) (a_sleeping a) (a_all a) D \<and>
     thread_running_var s = a_cur a \<and> idle_thread s = a_idle a \<and> initial_thread s = a_initial a \<and>
     thread_ticks s = a_used a \<and> ticks s = a_now a \<and> round_robin_mode s = a_mode a \<and>
     round_robin_ticks s = a_quantum a \<and> thread_exit_on_return s = a_exit_req a \<and>
     (\<forall>t\<in>D. \<exists>th. threads s t = Some th \<and> thread_ok a t th)"

definition cur_status :: "kernel \<Rightarrow> thread_status option" where
  "cur_status s = map_option status (threads s (thread_running_var s))"

definition refines :: "kernel \<Rightarrow> sched \<Rightarrow> bool" where
  "refines s a \<longleftrightarrow> sim s a (set (a_all a)) \<and> sched_wf a \<and> cur_status s = Some THREAD_RUNNING"

section \<open>Well-formedness of abstract steps\<close>

text \<open>Before a dispatch every thread but the special two has its place in a queue.\<close>

definition placed :: "sched \<Rightarrow> bool" where
  "placed a \<longleftrightarrow>
     distinct (a_ready a) \<and> distinct (a_sleeping a) \<and> distinct (a_all a) \<and>
     set (a_ready a) \<inter> set (a_sleeping a) = {} \<and>
     set (a_ready a) \<subseteq> set (a_all a) \<and> set (a_sleeping a) \<subseteq> set (a_all a) \<and>
     a_idle a \<in> set (a_all a) \<and> a_initial a \<in> set (a_all a) \<and> a_idle a \<noteq> a_initial a \<and>
     a_idle a \<notin> set (a_sleeping a) \<and>
     (\<forall>t\<in>set (a_all a). t = a_idle a \<or> t = a_initial a \<or>
        t \<in> set (a_ready a) \<or> t \<in> set (a_sleeping a))"

lemma dispatch_wf: "placed a \<Longrightarrow> sched_wf (a_dispatch a)"
  by (cases "a_ready a") (auto simp: sched_wf_def placed_def a_dispatch_def)

lemma placed_yield: "sched_wf a \<Longrightarrow> placed (a\<lparr>a_ready := a_ready a @ [a_cur a]\<rparr>)"
  by (auto simp: sched_wf_def placed_def)

lemma placed_exit:
  "sched_wf a \<Longrightarrow> a_cur a \<noteq> a_idle a \<Longrightarrow> a_cur a \<noteq> a_initial a \<Longrightarrow> placed (a\<lparr>a_all := remove1 (a_cur a) (a_all a)\<rparr>)"
  by (auto simp: sched_wf_def placed_def)

lemma placed_sleep: "sched_wf a \<Longrightarrow> a_cur a \<noteq> a_idle a \<Longrightarrow> placed (a\<lparr>a_sleeping := a_sleeping a @ [a_cur a], a_wake := w\<rparr>)"
  by (auto simp: sched_wf_def placed_def)

lemma placed_cur: "sched_wf a \<Longrightarrow> a_cur a = a_idle a \<or> a_cur a = a_initial a \<Longrightarrow> placed a"
  by (auto simp: sched_wf_def placed_def)

lemma yield_wf: "sched_wf a \<Longrightarrow> sched_wf (a_yield a)"
  by (simp add: a_yield_def dispatch_wf placed_yield placed_cur)

end
