(* ===== verification/Sched_Refine.thy ===== *)
theory Sched_Refine
  imports Sched
begin

text \<open>
  Every scheduling operation of thread.c refines the abstract operation of the same purpose: it
  returns (no assertion fails and no dangling pointer is used) and ends in a state related to the
  abstract result.
\<close>

section \<open>schedule\<close>

lemma is_thread_ok [simp]:
  "threads s t = Some th \<Longrightarrow> t \<noteq> 0 \<Longrightarrow> is_thread t s = Inr (magic th = THREAD_MAGIC)"
  by (simp add: is_thread_def)

lemma schedule_stay:
  assumes "next_thread_to_run s = Inr (cur, s\<lparr>links := h\<rparr>)" "thread_running_var s = cur"
    and "threads s cur = Some th" "cur \<noteq> 0" "magic th = THREAD_MAGIC" "status th \<noteq> THREAD_RUNNING"
  shows "schedule s =
    Inr (s\<lparr>links := h, threads := (threads s)(cur \<mapsto> th\<lparr>status := THREAD_RUNNING\<rparr>), thread_ticks := 0\<rparr>)"
  using assms by (simp add: schedule_def running_thread_def thread_schedule_tail_def)

text \<open>The state after a switch from \<open>cur\<close> to \<open>n\<close>.\<close>

definition switched :: "tptr \<Rightarrow> thread \<Rightarrow> tptr \<Rightarrow> thread \<Rightarrow> kernel \<Rightarrow> kernel" where
  "switched cur thc n thn s =
     s\<lparr>cpu := load_registers (register_save thn) (cpu s),
       thread_running_var := n,
       threads := (threads s)(cur \<mapsto> thc\<lparr>register_save := save_registers (cpu s) (register_save thc)\<rparr>,
                              n \<mapsto> thn\<lparr>status := THREAD_RUNNING\<rparr>),
       thread_ticks := 0\<rparr>"

lemma schedule_switch:
  assumes "next_thread_to_run s = Inr (n, s\<lparr>links := h\<rparr>)" "thread_running_var s = cur"
    and "threads s cur = Some thc" "cur \<noteq> 0" "status thc \<noteq> THREAD_RUNNING"
    and "threads s n = Some thn" "n \<noteq> 0" "magic thn = THREAD_MAGIC" "n \<noteq> cur"
  shows "schedule s =
    Inr (if status thc = THREAD_DYING \<and> cur \<noteq> initial_thread s
         then free_thread cur (switched cur thc n thn (s\<lparr>links := h\<rparr>))
         else switched cur thc n thn (s\<lparr>links := h\<rparr>))"
  using assms
  by (simp add: schedule_def running_thread_def thread_schedule_tail_def switch_threads_c_def
      set_thread_running_def switched_def fun_upd_twist)

section \<open>Simulation lemmas\<close>

text \<open>What scheduling never touches: tick counts and the identity of threads.\<close>

definition frame :: "kernel \<Rightarrow> kernel \<Rightarrow> bool" where
  "frame s s' \<longleftrightarrow>
     next_tid s' = next_tid s \<and> frames s' = frames s \<and>
     idle_ticks s' = idle_ticks s \<and> kernel_ticks s' = kernel_ticks s \<and> user_ticks s' = user_ticks s \<and>
     (\<forall>t th'. threads s' t = Some th' \<longrightarrow>
        (\<exists>th. threads s t = Some th \<and> tid th' = tid th \<and> name th' = name th \<and> stack th' = stack th \<and>
           priority th' = priority th \<and> true_priority th' = true_priority th))"

lemma frame_refl [simp]: "frame s s"
  by (simp add: frame_def)

lemma frame_trans: "frame s s1 \<Longrightarrow> frame s1 s2 \<Longrightarrow> frame s s2"
  unfolding frame_def by metis

text \<open>The part of the frame that a timer tick keeps as well: no thread changes its identity.\<close>

definition same_ids :: "kernel \<Rightarrow> kernel \<Rightarrow> bool" where
  "same_ids s s' \<longleftrightarrow> next_tid s' = next_tid s \<and>
     (\<forall>t th'. threads s' t = Some th' \<longrightarrow>
        (\<exists>th. threads s t = Some th \<and> tid th' = tid th \<and> name th' = name th \<and> stack th' = stack th \<and>
           priority th' = priority th \<and> true_priority th' = true_priority th))"

lemma frame_same_ids: "frame s s' \<Longrightarrow> same_ids s s'"
  by (simp add: frame_def same_ids_def)

lemma same_ids_thread:
  "same_ids s s' \<Longrightarrow> threads s' t = Some th' \<Longrightarrow> threads s t = Some th \<Longrightarrow> tid th' = tid th \<and> name th' = name th"
  unfolding same_ids_def by fastforce

lemma same_ids_refl [simp]: "same_ids s s"
  by (simp add: same_ids_def)

lemma same_ids_trans: "same_ids s s1 \<Longrightarrow> same_ids s1 s2 \<Longrightarrow> same_ids s s2"
  unfolding same_ids_def by metis

lemma frame_upd:
  "threads s t = Some th \<Longrightarrow> tid th' = tid th \<Longrightarrow> name th' = name th \<Longrightarrow> stack th' = stack th \<Longrightarrow>
   priority th' = priority th \<Longrightarrow> true_priority th' = true_priority th \<Longrightarrow> frame s (s\<lparr>threads := (threads s)(t \<mapsto> th')\<rparr>)"
  by (simp add: frame_def)

lemma a_dispatch_alt:
  "a_dispatch a = a\<lparr>a_cur := hd (a_ready a @ [a_idle a]), a_ready := tl (a_ready a), a_used := 0\<rparr>"
  by (cases "a_ready a") (simp_all add: a_dispatch_def)

lemma simD:
  assumes "sim s a D"
  shows "lists_ok s (a_ready a) (a_sleeping a) (a_all a) D"
    "thread_running_var s = a_cur a" "idle_thread s = a_idle a" "initial_thread s = a_initial a"
    "thread_ticks s = a_used a" "ticks s = a_now a" "round_robin_mode s = a_mode a"
    "round_robin_ticks s = a_quantum a" "thread_exit_on_return s = a_exit_req a"
  using assms by (simp_all add: sim_def)

lemma sim_thread:
  assumes "sim s a D" "t \<in> D"
  obtains th where "threads s t = Some th" "t \<noteq> 0" "magic th = THREAD_MAGIC"
    "duration_ticks th = a_dur a t" "sleep_time th = a_wake a t"
    "t \<noteq> a_cur a \<Longrightarrow> status_ok a t (status th)"
  using assms lists_okD(5) [OF simD(1) [OF assms(1)]] by (auto simp: sim_def thread_ok_def)

lemma sim_next:
  assumes "sim s a D"
  obtains h where "next_thread_to_run s = Inr (hd (a_ready a @ [a_idle a]), s\<lparr>links := h\<rparr>)"
    and "lists_ok (s\<lparr>links := h\<rparr>) (tl (a_ready a)) (a_sleeping a) (a_all a) D"
proof (cases "a_ready a")
  case Nil
  then have "next_thread_to_run s = Inr (hd (a_ready a @ [a_idle a]), s\<lparr>links := links s\<rparr>)"
    using lists_ok_list_empty [OF simD(1) [OF assms]] simD(3) [OF assms]
    by (simp add: next_thread_to_run_def)
  with Nil simD(1) [OF assms] that [of "links s"] show thesis by simp
next
  case (Cons t ts)
  with simD(1) [OF assms] have "lists_ok s (t # ts) (a_sleeping a) (a_all a) D" by simp
  then obtain h where "next_thread_to_run s = Inr (t, s\<lparr>links := h\<rparr>)"
    "lists_ok (s\<lparr>links := h\<rparr>) ts (a_sleeping a) (a_all a) D"
    by (rule pop_ready)
  with Cons that show thesis by simp
qed

lemma status_ok_dispatch: "status_ok a t st \<Longrightarrow> status_ok (a_dispatch a) t st"
  unfolding status_ok_def a_dispatch_alt by (cases "a_ready a") auto

text \<open>
  What is left to show of a state after a dispatch: its lists, the current thread, and that the threads, but for
  their status, are what they were.
\<close>

lemma sim_dispatchI:
  assumes "sim s a D" "D' \<subseteq> D" "lists_ok s' (tl (a_ready a)) (a_sleeping a) (a_all a) D'"
    and "thread_running_var s' = hd (a_ready a @ [a_idle a])" "thread_ticks s' = 0" "idle_thread s' = idle_thread s"
      "initial_thread s' = initial_thread s" "ticks s' = ticks s" "round_robin_mode s' = round_robin_mode s"
      "round_robin_ticks s' = round_robin_ticks s" "thread_exit_on_return s' = thread_exit_on_return s"
    and thr: "\<And>t th. t \<in> D' \<Longrightarrow> threads s t = Some th \<Longrightarrow> (t \<noteq> a_cur a \<Longrightarrow> status_ok a t (status th)) \<Longrightarrow>
      \<exists>th'. threads s' t = Some th' \<and> magic th' = magic th \<and> duration_ticks th' = duration_ticks th \<and>
        sleep_time th' = sleep_time th \<and> (t \<noteq> hd (a_ready a @ [a_idle a]) \<longrightarrow> status_ok a t (status th'))"
  shows "sim s' (a_dispatch a) D'"
proof -
  have "\<exists>th. threads s' t = Some th \<and> thread_ok (a_dispatch a) t th" if t: "t \<in> D'" for t
  proof -
    obtain th where th: "threads s t = Some th" "magic th = THREAD_MAGIC" "duration_ticks th = a_dur a t"
      "sleep_time th = a_wake a t" "t \<noteq> a_cur a \<Longrightarrow> status_ok a t (status th)"
      using sim_thread [OF assms(1), of t] t assms(2) by blast
    from thr [OF t th(1,5)] th(2-4) status_ok_dispatch show ?thesis by (auto simp: thread_ok_def a_dispatch_alt)
  qed
  with assms(3-11) simD [OF assms(1)] show ?thesis by (simp add: sim_def a_dispatch_alt)
qed

text \<open>A current thread that stays allocated, queued or not, hands over to the next thread.\<close>

lemma schedule_sim:
  assumes sim: "sim s a D" and cur: "a_cur a \<in> D" "threads s (a_cur a) = Some thc"
    and st: "status_ok a (a_cur a) (status thc)" and nx: "hd (a_ready a @ [a_idle a]) \<in> D"
  obtains s' where "schedule s = Inr s'" "sim s' (a_dispatch a) D"
    "cur_status s' = Some THREAD_RUNNING" "frame s s'" "irq s' = irq s"
proof -
  define n where "n = hd (a_ready a @ [a_idle a])"
  obtain h where h: "next_thread_to_run s = Inr (n, s\<lparr>links := h\<rparr>)"
    "lists_ok (s\<lparr>links := h\<rparr>) (tl (a_ready a)) (a_sleeping a) (a_all a) D"
    using sim_next [OF sim] unfolding n_def by blast
  obtain thn where thn: "threads s n = Some thn" "n \<noteq> 0" "magic thn = THREAD_MAGIC"
    using sim_thread [OF sim nx] unfolding n_def by metis
  have c0: "a_cur a \<noteq> 0" using sim_thread [OF sim cur(1)] by blast
  have nr: "status thc \<noteq> THREAD_RUNNING" "status thc \<noteq> THREAD_DYING"
    using st by (auto simp: status_ok_def)
  define s' where "s' = (if n = a_cur a
    then s\<lparr>links := h, threads := (threads s)(n \<mapsto> thn\<lparr>status := THREAD_RUNNING\<rparr>), thread_ticks := 0\<rparr>
    else switched (a_cur a) thc n thn (s\<lparr>links := h\<rparr>))"
  have "schedule s = Inr s'"
    using schedule_stay [OF h(1)] schedule_switch [OF h(1)] simD(2) [OF sim] cur thn c0 nr
    by (auto simp: s'_def)
  moreover have "lists_ok s' (tl (a_ready a)) (a_sleeping a) (a_all a) D"
    using h(2) cur(2) thn(1)
    by (subst lists_ok_cong [of _ "s\<lparr>links := h\<rparr>"]) (auto simp: s'_def switched_def)
  ultimately have "sim s' (a_dispatch a) D"
    by (intro sim_dispatchI [OF sim order.refl])
      (use simD(2) [OF sim] thn cur(2) st in \<open>auto simp: s'_def switched_def n_def [symmetric]\<close>)
  moreover have "cur_status s' = Some THREAD_RUNNING"
    using simD(2) [OF sim] by (simp add: s'_def switched_def cur_status_def)
  moreover have "frame s s'"
    using cur(2) thn(1) by (auto simp: s'_def switched_def frame_def)
  moreover have "irq s' = irq s" by (simp add: s'_def switched_def)
  ultimately show thesis
    using that \<open>schedule s = Inr s'\<close> by blast
qed

text \<open>A dying thread, no longer on any list, is freed by the thread it switches to.\<close>

lemma schedule_sim_dying:
  assumes sim: "sim s a (insert (a_cur a) (set (a_all a)))"
    and cur: "threads s (a_cur a) = Some thc" "status thc = THREAD_DYING"
    and out: "a_cur a \<notin> set (a_all a)" "a_cur a \<notin> set (a_ready a)" "a_cur a \<notin> set (a_sleeping a)"
      "a_cur a \<noteq> a_initial a"
    and nx: "hd (a_ready a @ [a_idle a]) \<in> set (a_all a)"
  obtains s' where "schedule s = Inr s'" "sim s' (a_dispatch a) (set (a_all a))"
    "cur_status s' = Some THREAD_RUNNING" "frame s s'" "threads s' (a_cur a) = None" "irq s' = irq s"
proof -
  define D where "D = insert (a_cur a) (set (a_all a))"
  define n where "n = hd (a_ready a @ [a_idle a])"
  obtain h where h: "next_thread_to_run s = Inr (n, s\<lparr>links := h\<rparr>)"
    "lists_ok (s\<lparr>links := h\<rparr>) (tl (a_ready a)) (a_sleeping a) (a_all a) D"
    using sim_next [OF sim] unfolding n_def D_def by blast
  have nD: "n \<in> D" "a_cur a \<in> D" "n \<noteq> a_cur a" using nx out by (auto simp: n_def D_def)
  note sim' = sim [folded D_def]
  obtain thn where thn: "threads s n = Some thn" "n \<noteq> 0" "magic thn = THREAD_MAGIC"
    using sim_thread [OF sim' nD(1)] by metis
  have c0: "a_cur a \<noteq> 0" using sim_thread [OF sim' nD(2)] by blast
  define s1 where "s1 = switched (a_cur a) thc n thn (s\<lparr>links := h\<rparr>)"
  have sched: "schedule s = Inr (free_thread (a_cur a) s1)"
    using schedule_switch [OF h(1)] simD(2,4) [OF sim] cur thn c0 nD out by (simp add: s1_def)
  have "lists_ok s1 (tl (a_ready a)) (a_sleeping a) (a_all a) D"
    using h(2) cur(1) thn(1)
    by (subst lists_ok_cong [of _ "s\<lparr>links := h\<rparr>"]) (auto simp: s1_def switched_def)
  then have ok: "lists_ok (free_thread (a_cur a) s1) (tl (a_ready a)) (a_sleeping a) (a_all a) (set (a_all a))"
    using free_lists_ok [of s1 "tl (a_ready a)" "a_sleeping a" "a_all a" D "a_cur a"] out
    by (cases "a_ready a") (auto simp: D_def)
  define s' where "s' = free_thread (a_cur a) s1"
  have "sim s' (a_dispatch a) (set (a_all a))"
    by (rule sim_dispatchI [OF sim' _ ok [folded s'_def]])
      (use thn out in \<open>auto simp: D_def s'_def free_thread_def s1_def switched_def n_def [symmetric]\<close>)
  moreover have "cur_status s' = Some THREAD_RUNNING"
    using nD(3) by (simp add: s'_def free_thread_def s1_def switched_def cur_status_def)
  moreover have "frame s s'" "threads s' (a_cur a) = None" "irq s' = irq s"
    using thn(1) by (simp_all add: s'_def free_thread_def s1_def switched_def frame_def)
  ultimately show thesis
    using that sched by (simp add: s'_def)
qed

section \<open>Framing\<close>

lemma sim_cong:
  assumes "links s' = links s" "threads s' = threads s"
    "thread_running_var s' = thread_running_var s" "idle_thread s' = idle_thread s"
    "initial_thread s' = initial_thread s" "thread_ticks s' = thread_ticks s" "ticks s' = ticks s"
    "round_robin_mode s' = round_robin_mode s" "round_robin_ticks s' = round_robin_ticks s"
    "thread_exit_on_return s' = thread_exit_on_return s"
  shows "sim s' a D = sim s a D"
  using assms lists_ok_cong [of s' s] by (simp add: sim_def)

lemma sim_irq [simp]: "sim (s\<lparr>irq := m\<rparr>) a D = sim s a D"
  and sim_printf [simp]: "sim (printf f args s) a D = sim s a D"
  and sim_idle_ticks [simp]: "sim (s\<lparr>idle_ticks := i\<rparr>) a D = sim s a D"
  and sim_kernel_ticks [simp]: "sim (s\<lparr>kernel_ticks := k\<rparr>) a D = sim s a D"
  and sim_frames [simp]: "sim (s\<lparr>frames := fr\<rparr>) a D = sim s a D"
  and sim_next_tid [simp]: "sim (s\<lparr>next_tid := x\<rparr>) a D = sim s a D"
  by (rule sim_cong; simp)+

lemma cur_status_simps [simp]:
  "cur_status (s\<lparr>irq := m\<rparr>) = cur_status s" "cur_status (printf f args s) = cur_status s"
  "cur_status (s\<lparr>idle_ticks := i\<rparr>) = cur_status s" "cur_status (s\<lparr>kernel_ticks := k\<rparr>) = cur_status s"
  "cur_status (s\<lparr>thread_ticks := u\<rparr>) = cur_status s" "cur_status (s\<lparr>links := h\<rparr>) = cur_status s"
  by (simp_all add: cur_status_def)

text \<open>Writing the status of the current thread is invisible to the relation.\<close>

lemma sim_cur_status:
  assumes "sim s a D" "threads s (a_cur a) = Some th" "a_cur a \<in> D"
  shows "sim (s\<lparr>threads := (threads s)(a_cur a \<mapsto> th\<lparr>status := st\<rparr>)\<rparr>) a D"
proof -
  have "lists_ok (s\<lparr>threads := (threads s)(a_cur a \<mapsto> th\<lparr>status := st\<rparr>)\<rparr>) (a_ready a) (a_sleeping a) (a_all a) D"
    using simD(1) [OF assms(1)] assms(2) by (subst lists_ok_cong [of _ s]) auto
  with assms show ?thesis
    by (auto simp: sim_def thread_ok_def)
qed

section \<open>Operations\<close>

lemma refinesD:
  assumes "refines s a"
  shows "sim s a (set (a_all a))" "sched_wf a" "cur_status s = Some THREAD_RUNNING"
  using assms by (simp_all add: refines_def)

lemma refines_cur:
  assumes "refines s a"
  obtains th where "threads s (a_cur a) = Some th" "a_cur a \<noteq> 0" "magic th = THREAD_MAGIC"
    "duration_ticks th = a_dur a (a_cur a)" "sleep_time th = a_wake a (a_cur a)"
    "status th = THREAD_RUNNING"
proof -
  note R = refinesD [OF assms]
  have "a_cur a \<in> set (a_all a)" using R(2) by (simp add: sched_wf_def)
  then obtain th where "threads s (a_cur a) = Some th" "a_cur a \<noteq> 0" "magic th = THREAD_MAGIC"
    "duration_ticks th = a_dur a (a_cur a)" "sleep_time th = a_wake a (a_cur a)"
    by (rule sim_thread [OF R(1)]) blast
  moreover from this(1) have "status th = THREAD_RUNNING"
    using R(3) simD(2) [OF R(1)] by (simp add: cur_status_def)
  ultimately show thesis using that by blast
qed

lemma thread_current_ok:
  assumes "refines s a"
  shows "thread_current s = Inr (a_cur a)"
proof -
  obtain th where "threads s (a_cur a) = Some th" "a_cur a \<noteq> 0" "magic th = THREAD_MAGIC"
    "status th = THREAD_RUNNING"
    by (rule refines_cur [OF assms])
  then show ?thesis
    using simD(2) [OF refinesD(1) [OF assms]]
    by (simp add: thread_current_def running_thread_def)
qed

lemma refines_irq [simp]: "refines (s\<lparr>irq := m\<rparr>) a = refines s a"
  and refines_printf [simp]: "refines (printf f args s) a = refines s a"
  by (simp_all add: refines_def)

lemma frame_simps [simp]:
  "frame s (printf f args s') = frame s s'" "frame s (s'\<lparr>links := h\<rparr>) = frame s s'"
  by (simp_all add: frame_def)

text \<open>The interrupt mask: what \<open>restore_interrupts\<close> undoes.\<close>

definition irq_restoring :: "sdk \<Rightarrow> bool" where
  "irq_restoring sd \<longleftrightarrow>
     (\<forall>m. restore_interrupts sd (fst (save_and_disable_interrupts sd m))
            (snd (save_and_disable_interrupts sd m)) = m)"

text \<open>
  \<open>thread_block\<close> by the idle thread, or by a thread that has just been put on the sleeping list:
  the thread keeps its place in the abstract state.
\<close>

lemma thread_block_sim:
  assumes sim: "sim s a D" and cur: "threads s (a_cur a) = Some th" "a_cur a \<in> D"
      "magic th = THREAD_MAGIC" "status th = THREAD_RUNNING"
    and q: "a_cur a \<notin> set (a_ready a)" and nx: "hd (a_ready a @ [a_idle a]) \<in> D"
  obtains s' where "thread_block sd s = Inr s'" "sim s' (a_dispatch a) D"
    "cur_status s' = Some THREAD_RUNNING" "frame s s'"
    "irq_restoring sd \<Longrightarrow> irq s' = irq s"
proof -
  obtain old m where sv: "save_and_disable_interrupts sd (irq s) = (old, m)" by force
  define s1 where "s1 = s\<lparr>irq := m\<rparr>"
  define s2 where "s2 = s1\<lparr>threads := (threads s1)(a_cur a \<mapsto> th\<lparr>status := THREAD_BLOCKED\<rparr>)\<rparr>"
  have c0: "a_cur a \<noteq> 0" using sim_thread [OF sim cur(2)] by blast
  have s1: "sim s1 a D" "threads s1 (a_cur a) = Some th" "thread_running_var s1 = a_cur a"
    using sim cur(1) simD(2) [OF sim] by (simp_all add: s1_def)
  have cu: "thread_current s1 = Inr (a_cur a)"
    using s1 c0 cur by (simp add: thread_current_def running_thread_def)
  have "sim s2 a D" unfolding s2_def by (rule sim_cur_status [OF s1(1,2) cur(2)])
  moreover have "threads s2 (a_cur a) = Some (th\<lparr>status := THREAD_BLOCKED\<rparr>)"
    by (simp add: s2_def)
  moreover have "status_ok a (a_cur a) (status (th\<lparr>status := THREAD_BLOCKED\<rparr>))"
    using q by (simp add: status_ok_def)
  ultimately obtain s3 where s3: "schedule s2 = Inr s3" "sim s3 (a_dispatch a) D"
    "cur_status s3 = Some THREAD_RUNNING" "frame s2 s3" "irq s3 = irq s2"
    using schedule_sim [of s2 a D] cur(2) nx by blast
  have "thread_block sd s = Inr (intr_restore sd old s3)"
    using cu s1(2) c0 s3(1) sv
    by (simp add: thread_block_def intr_save_def s1_def s2_def)
  moreover have "frame s (intr_restore sd old s3)"
    using frame_trans [OF frame_upd s3(4) [unfolded s2_def s1_def]] cur(1)
    by (simp add: frame_def intr_restore_def)
  moreover have "irq_restoring sd \<Longrightarrow> irq (intr_restore sd old s3) = irq s"
    using s3(5) sv by (auto simp: intr_restore_def irq_restoring_def s2_def s1_def dest: spec [of _ "irq s"])
  ultimately show thesis
    using that s3(2,3) by (simp add: intr_restore_def)
qed

lemma block_if_idle_refines:
  assumes "refines s a"
  obtains s' where "block_if_idle_thread sd s = Inr s'" "refines s' (a_block_if_idle a)"
    "frame s s'" "irq_restoring sd \<Longrightarrow> irq s' = irq s"
proof (cases "a_cur a = a_idle a")
  case False
  then show thesis
    using that assms thread_current_ok [OF assms] simD(3) [OF refinesD(1) [OF assms]]
    by (simp add: block_if_idle_thread_def a_block_if_idle_def)
next
  case True
  note R = refinesD [OF assms]
  obtain th where th: "threads s (a_cur a) = Some th" "magic th = THREAD_MAGIC" "status th = THREAD_RUNNING"
    by (rule refines_cur [OF assms])
  have wf: "a_cur a \<in> set (a_all a)" "a_cur a \<notin> set (a_ready a)" "hd (a_ready a @ [a_idle a]) \<in> set (a_all a)"
    using R(2) by (cases "a_ready a"; auto simp: sched_wf_def)+
  obtain s' where s': "thread_block sd s = Inr s'" "sim s' (a_dispatch a) (set (a_all a))"
    "cur_status s' = Some THREAD_RUNNING" "frame s s'" "irq_restoring sd \<Longrightarrow> irq s' = irq s"
    using thread_block_sim [OF R(1) th(1) wf(1) th(2,3) wf(2,3), where sd = sd] by blast
  have "refines s' (a_dispatch a)"
    using s'(2,3) dispatch_wf [OF placed_cur [OF R(2)]] True by (simp add: refines_def a_dispatch_alt)
  then show thesis
    using that s'(1,4,5) True thread_current_ok [OF assms] simD(3) [OF R(1)]
    by (simp add: block_if_idle_thread_def a_block_if_idle_def)
qed

end
