(* ===== verification/Sched_Ops.thy ===== *)
theory Sched_Ops
  imports Sched_Refine
begin

text \<open>
  Refinement of the operations that switch threads: yielding, exiting, blocking and sleeping.
\<close>

section \<open>thread\_yield\<close>

lemma sim_ready:
  assumes "sim s a D" "lists_ok (s\<lparr>links := h\<rparr>) rts (a_sleeping a) (a_all a) D"
    and "set rts \<subseteq> insert (a_cur a) (set (a_ready a))"
  shows "sim (s\<lparr>links := h\<rparr>) (a\<lparr>a_ready := rts\<rparr>) D"
proof -
  have "thread_ok a t th \<Longrightarrow> thread_ok (a\<lparr>a_ready := rts\<rparr>) t th" for t th
    using assms(3) by (auto simp: thread_ok_def status_ok_def)
  with assms(1,2) show ?thesis by (simp add: sim_def) meson
qed

lemma a_all_yield [simp]: "a_all (a_yield a) = a_all a"
  by (simp add: a_yield_def a_dispatch_alt)

lemma a_all_dispatch [simp]: "a_all (a_dispatch a) = a_all a"
  by (simp add: a_dispatch_alt)

lemma thread_yield_eval:
  assumes "thread_current s = Inr cur" "intr_save sd s = (old, s1)" "thread_current s1 = Inr cur"
    and "list_empty ready_list (links s1) = Inr False" "threads s1 cur = Some th" "cur \<noteq> 0"
    and mid: "(if cur \<noteq> idle_thread s1 \<and> cur \<noteq> initial_thread s1
        then on_links (list_push_back ready_list (Some (Elem cur)))
          (printf ''--YIELD! thread_ticks: %d ; duration left %d\<newline>\<newline>''
             [AInt (thread_ticks s1), AInt (duration_ticks th)] s1)
        else Inr s1) = Inr s2"
    and "update_thread cur (\<lambda>th. th\<lparr>status := THREAD_READY\<rparr>) s2 = Inr s3" "schedule s3 = Inr s4"
  shows "thread_yield sd s = Inr (intr_restore sd old s4)"
proof (cases "cur \<noteq> idle_thread s1 \<and> cur \<noteq> initial_thread s1")
  case True
  with assms show ?thesis by (simp add: thread_yield_def)
next
  case False
  with mid have "s2 = s1" by (simp split: if_splits)
  with assms False show ?thesis by (simp only: thread_yield_def bindE_Inr prod.case if_True if_False simp_thms)
qed

text \<open>The running thread goes to the end of \<open>ready_list\<close> unless it is main or idle (\<open>q\<close>).\<close>

lemma requeue:
  assumes "sim s a (set (a_all a))" "sched_wf a"
  obtains s' where "sim s' (if q then a\<lparr>a_ready := a_ready a @ [a_cur a]\<rparr> else a) (set (a_all a))"
    "threads s' = threads s" "frame s s'" "irq s' = irq s"
    "(if q then on_links (list_push_back ready_list (Some (Elem (a_cur a)))) (printf fmt args s) else Inr s) = Inr s'"
proof (cases q)
  case True
  have wf: "a_cur a \<in> set (a_all a)" "a_cur a \<notin> set (a_ready a)" "a_cur a \<notin> set (a_sleeping a)"
    using assms(2) by (auto simp: sched_wf_def)
  define sp where "sp = printf fmt args s"
  have sp: "sim sp a (set (a_all a))" using assms(1) by (simp add: sp_def)
  obtain h where h: "on_links (list_push_back ready_list (Some (Elem (a_cur a)))) sp = Inr (sp\<lparr>links := h\<rparr>)"
    "lists_ok (sp\<lparr>links := h\<rparr>) (a_ready a @ [a_cur a]) (a_sleeping a) (a_all a) (set (a_all a))"
    by (rule push_ready [OF simD(1) [OF sp] wf])
  have "sim (sp\<lparr>links := h\<rparr>) (a\<lparr>a_ready := a_ready a @ [a_cur a]\<rparr>) (set (a_all a))"
    by (rule sim_ready [OF sp h(2)]) auto
  moreover have "frame s (sp\<lparr>links := h\<rparr>)" by (simp add: sp_def)
  ultimately show thesis using that [of "sp\<lparr>links := h\<rparr>"] True h(1) by (simp add: sp_def)
qed (use that assms(1) in simp)

text \<open>The part of \<open>thread_yield\<close> that runs when a thread is ready, with interrupts disabled.\<close>

lemma yield_switch:
  assumes "refines s a" "a_ready a \<noteq> []" "threads s (a_cur a) = Some th"
    and "q = (a_cur a \<noteq> a_idle a \<and> a_cur a \<noteq> a_initial a)"
  obtains s2 s4 where
    "(if q then on_links (list_push_back ready_list (Some (Elem (a_cur a))))
         (printf ''--YIELD! thread_ticks: %d ; duration left %d\<newline>\<newline>''
            [AInt (thread_ticks s), AInt (duration_ticks th)] s)
      else Inr s) = Inr s2" "threads s2 = threads s"
    "schedule (s2\<lparr>threads := (threads s2)(a_cur a \<mapsto> th\<lparr>status := THREAD_READY\<rparr>)\<rparr>) = Inr s4"
    "refines s4 (a_yield a)" "frame s s4" "irq s4 = irq s"
proof -
  note R = refinesD [OF assms(1)]
  have wf: "a_cur a \<in> set (a_all a)" "a_cur a \<notin> set (a_ready a)" "a_cur a \<notin> set (a_sleeping a)"
    "hd (a_ready a @ [a_idle a]) \<in> set (a_all a)"
    using R(2) by (cases "a_ready a"; auto simp: sched_wf_def)+
  define a1 where "a1 = (if q then a\<lparr>a_ready := a_ready a @ [a_cur a]\<rparr> else a)"
  obtain s2 where s2: "sim s2 a1 (set (a_all a))" "threads s2 = threads s" "frame s s2" "irq s2 = irq s"
    "(if q then on_links (list_push_back ready_list (Some (Elem (a_cur a))))
         (printf ''--YIELD! thread_ticks: %d ; duration left %d\<newline>\<newline>''
            [AInt (thread_ticks s), AInt (duration_ticks th)] s)
      else Inr s) = Inr s2"
    unfolding a1_def by (rule requeue [OF R(1,2)])
  have a1: "a_cur a1 = a_cur a" "a_all a1 = a_all a" "a_idle a1 = a_idle a"
    "hd (a_ready a1 @ [a_idle a1]) \<in> set (a_all a)" "status_ok a1 (a_cur a1) THREAD_READY"
    "a_dispatch a1 = a_yield a"
    using assms(2,4) wf by (auto simp: a1_def status_ok_def a_yield_def)
  define s3 where "s3 = s2\<lparr>threads := (threads s2)(a_cur a \<mapsto> th\<lparr>status := THREAD_READY\<rparr>)\<rparr>"
  have s3: "sim s3 a1 (set (a_all a))"
    unfolding s3_def a1(1) [symmetric]
    by (rule sim_cur_status [OF s2(1)]) (use assms(3) s2(2) wf(1) a1 in auto)
  obtain s4 where s4: "schedule s3 = Inr s4" "sim s4 (a_dispatch a1) (set (a_all a))"
    "cur_status s4 = Some THREAD_RUNNING" "frame s3 s4" "irq s4 = irq s3"
    by (rule schedule_sim [OF s3, of "th\<lparr>status := THREAD_READY\<rparr>"])
      (use wf(1) a1 in \<open>auto simp: s3_def\<close>)
  have "refines s4 (a_yield a)" using s4(2,3) yield_wf [OF R(2)] a1 by (simp add: refines_def)
  moreover have "frame s s4"
    using frame_trans [OF frame_trans [OF s2(3) frame_upd] s4(4) [unfolded s3_def]] s2(2) assms(3) by simp
  ultimately show thesis using that s2 s4(1,5) by (simp add: s3_def)
qed

lemma thread_yield_refines:
  assumes "refines s a"
  obtains s' where "thread_yield sd s = Inr s'" "refines s' (a_yield a)"
    "frame s s'" "irq_restoring sd \<Longrightarrow> irq s' = irq s"
proof -
  note R = refinesD [OF assms]
  obtain old m where sv: "save_and_disable_interrupts sd (irq s) = (old, m)" by force
  define s1 where "s1 = s\<lparr>irq := m\<rparr>"
  have rs1: "refines s1 a" using assms by (simp add: s1_def)
  note R1 = refinesD [OF rs1]
  obtain th where th: "threads s1 (a_cur a) = Some th" "a_cur a \<noteq> 0" "status th = THREAD_RUNNING"
    by (rule refines_cur [OF rs1])
  have emp: "list_empty ready_list (links s1) = Inr (a_ready a = [])"
    by (rule lists_ok_list_empty [OF simD(1) [OF R1(1)]])
  have irqf: "irq_restoring sd \<Longrightarrow> irq s3 = irq s1 \<Longrightarrow> irq (intr_restore sd old s3) = irq s"
    and fr: "frame s1 s3 \<Longrightarrow> frame s (intr_restore sd old s3)" for s3
    using sv by (auto simp: irq_restoring_def intr_restore_def frame_def s1_def dest: spec [of _ "irq s"])
  show thesis
  proof (cases "a_ready a = []")
    case True
    have "thread_yield sd s = Inr (intr_restore sd old s1)"
      using thread_current_ok [OF assms] sv emp True
      by (simp add: thread_yield_def intr_save_def s1_def)
    moreover have "refines (intr_restore sd old s1) (a_yield a)"
      using True rs1 by (simp add: a_yield_def intr_restore_def)
    ultimately show thesis using that irqf [OF _ refl] fr [OF frame_refl] by blast
  next
    case False
    define q where "q = (a_cur a \<noteq> a_idle a \<and> a_cur a \<noteq> a_initial a)"
    obtain s2 s4 where s2: "(if q then on_links (list_push_back ready_list (Some (Elem (a_cur a))))
           (printf ''--YIELD! thread_ticks: %d ; duration left %d\<newline>\<newline>''
              [AInt (thread_ticks s1), AInt (duration_ticks th)] s1)
        else Inr s1) = Inr s2" "threads s2 = threads s1"
      and s4: "schedule (s2\<lparr>threads := (threads s2)(a_cur a \<mapsto> th\<lparr>status := THREAD_READY\<rparr>)\<rparr>) = Inr s4"
        "refines s4 (a_yield a)" "frame s1 s4" "irq s4 = irq s1"
      by (rule yield_switch [OF rs1 False th(1) q_def])
    have "thread_yield sd s = Inr (intr_restore sd old s4)"
      by (rule thread_yield_eval [OF thread_current_ok [OF assms], of sd old s1 th s2])
        (use thread_current_ok [OF rs1] sv emp False s2 th s4(1) simD(3,4) [OF R1(1)]
          in \<open>simp_all add: intr_save_def s1_def [symmetric] q_def\<close>)
    moreover have "refines (intr_restore sd old s4) (a_yield a)" using s4(2) by (simp add: intr_restore_def)
    ultimately show thesis using that irqf [OF _ s4(4)] fr [OF s4(3)] by blast
  qed
qed

section \<open>thread\_exit\<close>

lemma sim_dying:
  assumes "sim s a (set (a_all a))" "threads s (a_cur a) = Some th" "a_cur a \<in> set (a_all a)"
    and "lists_ok (s\<lparr>links := h\<rparr>) (a_ready a) (a_sleeping a) (remove1 (a_cur a) (a_all a)) (set (a_all a))"
  shows "sim (s\<lparr>links := h, threads := (threads s)(a_cur a \<mapsto> th\<lparr>status := st\<rparr>)\<rparr>)
     (a\<lparr>a_all := remove1 (a_cur a) (a_all a)\<rparr>) (set (a_all a))"
proof -
  let ?s = "s\<lparr>links := h, threads := (threads s)(a_cur a \<mapsto> th\<lparr>status := st\<rparr>)\<rparr>"
  let ?a = "a\<lparr>a_all := remove1 (a_cur a) (a_all a)\<rparr>"
  have "thread_ok a t u = thread_ok ?a t u" for t u
    by (simp add: thread_ok_def status_ok_def)
  moreover have "thread_ok a (a_cur a) (th\<lparr>status := st\<rparr>)"
    using sim_thread [OF assms(1,3)] assms(2) by (auto simp: thread_ok_def)
  moreover have "lists_ok ?s (a_ready a) (a_sleeping a) (remove1 (a_cur a) (a_all a)) (set (a_all a))"
    using assms(2,4) by (subst lists_ok_cong [of _ "s\<lparr>links := h\<rparr>"]) auto
  ultimately show ?thesis
    using assms(1) by (simp add: sim_def)
qed

text \<open>The marked thread: off \<open>all_list\<close>, dying, and still the current one.\<close>

lemma thread_exit_mark_sim:
  assumes "refines s a"
  obtains s2 th where "thread_exit_mark s = Inr s2"
    "sim s2 (a\<lparr>a_all := remove1 (a_cur a) (a_all a)\<rparr>) (set (a_all a))"
    "threads s2 (a_cur a) = Some th" "status th = THREAD_DYING" "magic th = THREAD_MAGIC" "frame s s2" "irq s2 = irq s"
proof -
  note R = refinesD [OF assms]
  define c where "c = a_cur a"
  obtain th where th: "threads s c = Some th" "c \<noteq> 0" "magic th = THREAD_MAGIC" "status th = THREAD_RUNNING"
    unfolding c_def by (rule refines_cur [OF assms])
  have wf: "c \<in> set (a_all a)" "distinct (a_all a)"
    using R(2) by (auto simp: sched_wf_def c_def)
  obtain us vs where split: "a_all a = us @ c # vs" using split_list [OF wf(1)] by blast
  then have rem: "us @ vs = remove1 c (a_all a)" using wf(2) by (simp add: remove1_append)
  obtain n h where h: "list_remove (Some (AllElem c)) (links s) = Inr (n, h)"
    "lists_ok (s\<lparr>links := h\<rparr>) (a_ready a) (a_sleeping a) (us @ vs) (set (a_all a))"
    by (rule remove_all) (use simD(1) [OF R(1)] split in auto)
  define s1 where "s1 = printf ''\<newline>===EXIT thread %s\<newline>\<newline>'' [AStr (name th)] (s\<lparr>links := h\<rparr>)"
  define s2 where "s2 = s1\<lparr>threads := (threads s)(c \<mapsto> th\<lparr>status := THREAD_DYING\<rparr>)\<rparr>"
  have cu: "thread_current s1 = Inr c" "thread_current (s\<lparr>links := h\<rparr>) = Inr c"
    using th simD(2) [OF R(1)]
    by (simp_all add: thread_current_def running_thread_def s1_def c_def)
  have "thread_exit_mark s = Inr s2"
    using thread_current_ok [OF assms] h(1) cu th
    by (simp add: thread_exit_mark_def c_def s1_def s2_def)
  moreover have "sim (s\<lparr>links := h, threads := (threads s)(c \<mapsto> th\<lparr>status := THREAD_DYING\<rparr>)\<rparr>)
      (a\<lparr>a_all := remove1 c (a_all a)\<rparr>) (set (a_all a))"
    unfolding c_def by (rule sim_dying) (use R(1) th(1) wf(1) h(2) rem in \<open>simp_all add: c_def\<close>)
  moreover have "s2 = printf ''\<newline>===EXIT thread %s\<newline>\<newline>'' [AStr (name th)]
      (s\<lparr>links := h, threads := (threads s)(c \<mapsto> th\<lparr>status := THREAD_DYING\<rparr>)\<rparr>)"
    by (simp add: s2_def s1_def printf_def)
  ultimately have "thread_exit_mark s = Inr s2" "sim s2 (a\<lparr>a_all := remove1 c (a_all a)\<rparr>) (set (a_all a))"
    by simp_all
  then show thesis
    using that [of s2 "th\<lparr>status := THREAD_DYING\<rparr>"] th unfolding c_def
    by (simp add: s2_def s1_def frame_def c_def)
qed

text \<open>The thread that exits is gone from memory; the others keep their places.\<close>

lemma thread_exit_refines:
  assumes "refines s a"
  obtains s' where "thread_exit sd s = Inr s'" "refines s' (a_exit a)"
    "frame s s'" "irq_restoring sd \<Longrightarrow> irq s' = irq s"
    "a_cur a \<noteq> a_initial a \<Longrightarrow> a_cur a \<noteq> a_idle a \<Longrightarrow> threads s' (a_cur a) = None"
proof (cases "a_cur a \<noteq> a_initial a \<and> a_cur a \<noteq> a_idle a")
  case False
  obtain s' where s': "thread_yield sd s = Inr s'" "refines s' (a_yield a)" "frame s s'"
    "irq_restoring sd \<Longrightarrow> irq s' = irq s"
    using thread_yield_refines [OF assms, where sd = sd] by blast
  have "thread_exit sd s = Inr s'"
    using s'(1) False thread_current_ok [OF assms] simD(3,4) [OF refinesD(1) [OF assms]]
    by (auto simp: thread_exit_def)
  moreover have "refines s' (a_exit a)" using s'(2) False by (auto simp: a_exit_def)
  ultimately show thesis using that s'(3,4) False by blast
next
  case True
  note R = refinesD [OF assms]
  let ?a = "a\<lparr>a_all := remove1 (a_cur a) (a_all a)\<rparr>"
  have wf: "a_cur a \<in> set (a_all a)" "distinct (a_all a)" "a_cur a \<notin> set (a_ready a)" "a_cur a \<notin> set (a_sleeping a)"
    using R(2) by (auto simp: sched_wf_def)
  obtain s2 th where s2: "thread_exit_mark s = Inr s2" "sim s2 ?a (set (a_all a))" "threads s2 (a_cur a) = Some th"
    "status th = THREAD_DYING" "frame s s2" "irq s2 = irq s"
    by (rule thread_exit_mark_sim [OF assms])
  have dying: "sim s2 ?a (insert (a_cur ?a) (set (a_all ?a)))"
    using s2(2) wf(1,2) by (simp add: insert_absorb)
  have nx: "hd (a_ready a @ [a_idle a]) \<in> set (a_all ?a)"
    using R(2) True wf by (cases "a_ready a") (auto simp: sched_wf_def)
  obtain s3 where s3: "schedule s2 = Inr s3" "sim s3 (a_dispatch ?a) (set (a_all ?a))"
    "cur_status s3 = Some THREAD_RUNNING" "frame s2 s3" "threads s3 (a_cur ?a) = None"
    "irq s3 = irq s2"
    by (rule schedule_sim_dying [OF dying, of th]) (use wf True nx s2 in auto)
  have "thread_exit sd s = Inr s3"
    using thread_current_ok [OF assms] simD(3,4) [OF R(1)] True s2(1) s3(1)
    by (simp add: thread_exit_def)
  moreover have "refines s3 (a_exit a)"
    using s3(2,3) True dispatch_wf [OF placed_exit [OF R(2)]] by (simp add: refines_def a_exit_def)
  ultimately show thesis
    using that frame_trans [OF s2(5) s3(4)] s3(5,6) s2(6) by simp
qed

section \<open>Sleeping\<close>

lemma sim_sleeping:
  assumes "sim s a D" "threads s (a_cur a) = Some th" "a_cur a \<in> D"
    and "lists_ok (s\<lparr>threads := (threads s)(a_cur a \<mapsto> th\<lparr>sleep_time := w\<rparr>), links := h\<rparr>)
      (a_ready a) (a_sleeping a @ [a_cur a]) (a_all a) D"
  shows "sim (s\<lparr>threads := (threads s)(a_cur a \<mapsto> th\<lparr>sleep_time := w\<rparr>), links := h\<rparr>)
     (a\<lparr>a_sleeping := a_sleeping a @ [a_cur a], a_wake := (a_wake a)(a_cur a := w)\<rparr>) D"
proof -
  let ?a = "a\<lparr>a_sleeping := a_sleeping a @ [a_cur a], a_wake := (a_wake a)(a_cur a := w)\<rparr>"
  have "thread_ok a t u \<Longrightarrow> t \<noteq> a_cur a \<Longrightarrow> thread_ok ?a t u" for t u
    by (simp add: thread_ok_def status_ok_def)
  moreover have "thread_ok ?a (a_cur a) (th\<lparr>sleep_time := w\<rparr>)"
    using sim_thread [OF assms(1,3)] assms(2) by (auto simp: thread_ok_def)
  ultimately show ?thesis
    using assms(1,4) by (auto simp: sim_def)
qed

lemma insertar_refines:
  assumes "refines s a" "a_cur a \<noteq> a_idle a"
  obtains s' where "insertar_en_lista_espera sd n s = Inr s'" "refines s' (a_sleep n a)"
    "frame s s'" "irq_restoring sd \<Longrightarrow> irq s' = irq s"
proof -
  note R = refinesD [OF assms(1)]
  define c where "c = a_cur a"
  define w where "w = int_to_u64 (a_now a + n)"
  obtain th where th: "threads s c = Some th" "c \<noteq> 0" "magic th = THREAD_MAGIC" "status th = THREAD_RUNNING"
    unfolding c_def by (rule refines_cur [OF assms(1)])
  have wf: "c \<in> set (a_all a)" "c \<notin> set (a_ready a)" "c \<notin> set (a_sleeping a)"
    using R(2) by (auto simp: sched_wf_def c_def)
  define s1 where "s1 = s\<lparr>threads := (threads s)(c \<mapsto> th\<lparr>sleep_time := w\<rparr>)\<rparr>"
  have "lists_ok s1 (a_ready a) (a_sleeping a) (a_all a) (set (a_all a))"
    using simD(1) [OF R(1)] th(1) by (subst lists_ok_cong [of _ s]) (auto simp: s1_def)
  then obtain h where h: "on_links (list_push_back lista_espera (Some (Elem c))) s1 = Inr (s1\<lparr>links := h\<rparr>)"
    "lists_ok (s1\<lparr>links := h\<rparr>) (a_ready a) (a_sleeping a @ [c]) (a_all a) (set (a_all a))"
    by (rule push_espera [OF _ wf])
  define s2 where "s2 = s1\<lparr>links := h\<rparr>"
  define a2 where "a2 = a\<lparr>a_sleeping := a_sleeping a @ [c], a_wake := (a_wake a)(c := w)\<rparr>"
  have s2: "sim s2 a2 (set (a_all a))"
    using sim_sleeping [OF R(1), where th = th and w = w and h = h] th(1) wf(1) h(2)
    by (simp add: s2_def s1_def a2_def c_def)
  have wf2: "a_cur a2 \<notin> set (a_ready a2)" "hd (a_ready a2 @ [a_idle a2]) \<in> set (a_all a)"
    "threads s2 (a_cur a2) = Some (th\<lparr>sleep_time := w\<rparr>)" "a_cur a2 \<in> set (a_all a)"
    using R(2) wf by (cases "a_ready a"; auto simp: sched_wf_def a2_def c_def s2_def s1_def)+
  obtain s' where s': "thread_block sd s2 = Inr s'" "sim s' (a_dispatch a2) (set (a_all a))"
    "cur_status s' = Some THREAD_RUNNING" "frame s2 s'" "irq_restoring sd \<Longrightarrow> irq s' = irq s2"
    using thread_block_sim [OF s2 wf2(3,4) _ _ wf2(1,2), where sd = sd] th by (simp, blast)
  have "insertar_en_lista_espera sd n s = Inr s'"
    using thread_current_ok [OF assms(1)] th(1,2) h(1) s'(1) simD(6) [OF R(1)]
    by (simp add: insertar_en_lista_espera_def timer_ticks_def c_def s1_def s2_def w_def)
  moreover have "refines s' (a_sleep n a)"
    using s'(2,3) dispatch_wf [OF placed_sleep [OF R(2) assms(2)]]
    by (simp add: refines_def a_sleep_def a2_def c_def w_def)
  moreover have "frame s s2"
    using th(1) by (simp add: s2_def s1_def frame_upd)
  moreover have "irq s2 = irq s" by (simp add: s2_def s1_def)
  ultimately show thesis
    using that s'(4,5) frame_trans by metis
qed

end
