(* ===== verification/Sched_Create.thy ===== *)
theory Sched_Create
  imports Sched_Ops
begin

text \<open>
  Creation of threads and the start of the kernel: \<open>init_thread\<close>, \<open>thread_create\<close>, \<open>thread_init\<close>
  and \<open>thread_start\<close>.  The address that \<open>calloc\<close> returns is a parameter; what the code relies on
  is that a non-null result is not the address of an allocated thread.
\<close>

section \<open>init\_thread\<close>

definition initial_record :: "tptr \<Rightarrow> cstr \<Rightarrow> thread" where
  "initial_record t nm = zero_thread\<lparr>status := THREAD_BLOCKED, name := strlcpy (chars nm) 16,
     stack := t + PGSIZE, magic := THREAD_MAGIC, duration_ticks := 9999999\<rparr>"

lemma init_thread_lists:
  assumes ok: "lists_ok s rts sts ats D" and t: "t \<notin> D" "t \<noteq> 0" and nm: "nm \<noteq> NullStr"
  obtains h where
    "init_thread t nm s = Inr (s\<lparr>threads := (threads s)(t \<mapsto> initial_record t nm), links := h\<rparr>)"
    "lists_ok (s\<lparr>threads := (threads s)(t \<mapsto> initial_record t nm), links := h\<rparr>) rts sts (ats @ [t]) (insert t D)"
proof -
  define s1 where "s1 = (zero_thread_at t s)\<lparr>threads := (threads s)(t \<mapsto> initial_record t nm)\<rparr>"
  have ok1: "lists_ok s1 rts sts ats (insert t D)"
    using zero_lists_ok [OF ok t]
    by (subst lists_ok_cong [of _ "zero_thread_at t s"]) (auto simp: s1_def zero_thread_at_def)
  have new: "t \<notin> set ats" using lists_okD(8) [OF ok] t by auto
  obtain h where h:
    "on_links (list_push_back all_list (Some (AllElem t))) s1 = Inr (s1\<lparr>links := h\<rparr>)"
    "lists_ok (s1\<lparr>links := h\<rparr>) rts sts (ats @ [t]) (insert t D)"
    by (rule push_all [OF ok1 insertI1 new])
  have eq: "s1\<lparr>links := h\<rparr> = s\<lparr>threads := (threads s)(t \<mapsto> initial_record t nm), links := h\<rparr>"
    by (simp add: s1_def zero_thread_at_def)
  have "init_thread t nm s = on_links (list_push_back all_list (Some (AllElem t))) s1"
    using t nm by (simp add: init_thread_def zero_thread_at_def s1_def initial_record_def update_thread_def load_thread_def)
  then show thesis using that h eq by simp
qed

section \<open>thread\_create\<close>

definition created_record :: "tptr \<Rightarrow> cstr \<Rightarrow> s32 \<Rightarrow> s32 \<Rightarrow> thread" where
  "created_record t nm i d = (initial_record t nm)\<lparr>tid := i, duration_ticks := d,
     stack := t + PGSIZE - sizeof_kernel_thread_frame, status := THREAD_READY\<rparr>"

lemma zero_thread_at_twice: "zero_thread_at t (zero_thread_at t s) = zero_thread_at t s"
  by (simp add: zero_thread_at_def fun_upd_twist)

lemma init_thread_zero: "init_thread t nm (zero_thread_at t s) = init_thread t nm s"
  by (simp add: init_thread_def zero_thread_at_twice)

lemma frame_all_fields: "k\<lparr>eip := x, function := y, aux := z\<rparr> = \<lparr>eip = x, function = y, aux = z\<rparr>"
  for k :: kernel_thread_frame
  by (cases k) simp

text \<open>Everything \<open>thread_create\<close> does before the final \<open>block_if_idle_thread\<close>.\<close>

lemma thread_create_eval:
  assumes ok: "lists_ok s rts sts ats D" and t: "t \<notin> D" "t \<noteq> 0" and nm: "nm \<noteq> NullStr"
  obtains h con s' where
    "s' = s\<lparr>next_tid := next_tid s + 1, console := con,
       threads := (threads s)(t \<mapsto> created_record t nm (next_tid s) d), links := h,
       frames := (frames s)(t + PGSIZE - sizeof_kernel_thread_frame \<mapsto> \<lparr>eip = 0, function = f, aux = ax\<rparr>),
       idle_thread := (if nm = StrLit ''idle'' \<and> next_tid s = 2 then t else idle_thread s)\<rparr>"
    "lists_ok s' (rts @ [t]) sts (ats @ [t]) (insert t D)"
    "thread_create sd t nm f ax d s = bindE (block_if_idle_thread sd s') (\<lambda>s1. Inr (next_tid s, s1))"
proof -
  obtain h where h:
    "init_thread t nm s = Inr (s\<lparr>threads := (threads s)(t \<mapsto> initial_record t nm), links := h\<rparr>)"
    "lists_ok (s\<lparr>threads := (threads s)(t \<mapsto> initial_record t nm), links := h\<rparr>) rts sts (ats @ [t]) (insert t D)"
    by (rule init_thread_lists [OF ok t nm])
  define msg where "msg = ''Se cre'' @ [CHR 0xC3, CHR 0xB3] @ '' el thread \"%s\" con duraci'' @
                      [CHR 0xC3, CHR 0xB3] @ ''n %d\<newline>''"
  define kf where "kf = t + PGSIZE - sizeof_kernel_thread_frame"
  define s1 where "s1 = s\<lparr>links := h, next_tid := next_tid s + 1,
    console := console s @ [(msg, [AStr (chars nm), AInt d])],
    threads := (threads s)(t \<mapsto> (created_record t nm (next_tid s) d)\<lparr>status := THREAD_BLOCKED\<rparr>),
    frames := (frames s)(kf \<mapsto> \<lparr>eip = 0, function = f, aux = ax\<rparr>)\<rparr>"
  have ok1: "lists_ok s1 rts sts (ats @ [t]) (insert t D)"
    using h(2) by (subst lists_ok_cong [of _ "s\<lparr>threads := (threads s)(t \<mapsto> initial_record t nm), links := h\<rparr>"])
      (auto simp: s1_def)
  have new: "t \<notin> set rts" "t \<notin> set sts" using lists_okD(6,7) [OF ok] t by auto
  obtain h' where h': "on_links (list_push_back ready_list (Some (Elem t))) s1 = Inr (s1\<lparr>links := h'\<rparr>)"
    "lists_ok (s1\<lparr>links := h'\<rparr>) (rts @ [t]) sts (ats @ [t]) (insert t D)"
    by (rule push_ready [OF ok1 insertI1 new])
  define s2 where "s2 = s1\<lparr>links := h', threads := (threads s1)(t \<mapsto> created_record t nm (next_tid s) d)\<rparr>"
  define s3 where "s3 = s2\<lparr>idle_thread := (if nm = StrLit ''idle'' \<and> next_tid s = 2 then t else idle_thread s)\<rparr>"
  have un: "thread_unblock t s1 = Inr s2"
    using t h'(1)
    by (simp add: thread_unblock_def s1_def s2_def created_record_def initial_record_def is_thread_def
        load_thread_def update_thread_def)
  have "thread_create sd t nm f ax d s =
      bindE (thread_unblock t s1) (\<lambda>s'.
      bindE (Inr (if nm = StrLit ''idle'' \<and> next_tid s = 2 then s'\<lparr>idle_thread := t\<rparr> else s')) (\<lambda>s'.
      bindE (block_if_idle_thread sd s') (\<lambda>s1. Inr (next_tid s, s1))))"
    using t h(1)
    by (simp add: thread_create_def calloc_thread_def init_thread_zero allocate_tid_def alloc_frame_def
        update_thread_def load_thread_def is_thread_def printf_def store_frame_def s1_def msg_def kf_def
        created_record_def initial_record_def sizeof_kernel_thread_frame_def zero_thread_def frame_all_fields)
  also have "\<dots> = bindE (block_if_idle_thread sd s3) (\<lambda>s1. Inr (next_tid s, s1))"
    using un by (simp add: s3_def s2_def s1_def)
  finally have "thread_create sd t nm f ax d s = bindE (block_if_idle_thread sd s3) (\<lambda>s1. Inr (next_tid s, s1))" .
  moreover have "lists_ok s3 (rts @ [t]) sts (ats @ [t]) (insert t D)"
    using h'(2) by (subst lists_ok_cong [of _ "s1\<lparr>links := h'\<rparr>"]) (auto simp: s3_def s2_def s1_def)
  ultimately show thesis
    by (intro that [where s' = s3 and con = "console s @ [(msg, [AStr (chars nm), AInt d])]" and h = h'])
      (simp_all add: s3_def s2_def s1_def kf_def)
qed

definition a_add :: "tptr \<Rightarrow> s32 \<Rightarrow> sched \<Rightarrow> sched" where
  "a_add t d a = a\<lparr>a_all := a_all a @ [t], a_ready := a_ready a @ [t],
     a_dur := (a_dur a)(t := d), a_wake := (a_wake a)(t := 0)\<rparr>"

lemma a_create_alt: "a_create t d a = a_block_if_idle (a_add t d a)"
  by (simp add: a_create_def a_add_def)

lemma add_wf: "sched_wf a \<Longrightarrow> t \<notin> set (a_all a) \<Longrightarrow> sched_wf (a_add t d a)"
  by (auto simp: sched_wf_def a_add_def)

lemma add_sim:
  assumes "refines s a" "t \<notin> set (a_all a)"
    and "lists_ok s' (a_ready a @ [t]) (a_sleeping a) (a_all a @ [t]) (insert t (set (a_all a)))"
    and "threads s' = (threads s)(t \<mapsto> created_record t nm i d)"
    and "thread_running_var s' = thread_running_var s" "idle_thread s' = idle_thread s"
      "initial_thread s' = initial_thread s" "thread_ticks s' = thread_ticks s" "ticks s' = ticks s"
      "round_robin_mode s' = round_robin_mode s" "round_robin_ticks s' = round_robin_ticks s"
      "thread_exit_on_return s' = thread_exit_on_return s"
  shows "refines s' (a_add t d a)"
proof -
  note R = refinesD [OF assms(1)]
  have "thread_ok a u x \<Longrightarrow> u \<noteq> t \<Longrightarrow> thread_ok (a_add t d a) u x" for u x
    by (simp add: thread_ok_def status_ok_def a_add_def)
  moreover have "t \<notin> set (a_sleeping a)" using R(2) assms(2) by (auto simp: sched_wf_def)
  then have "thread_ok (a_add t d a) t (created_record t nm i d)"
    by (simp add: thread_ok_def status_ok_def a_add_def created_record_def initial_record_def zero_thread_def)
  moreover have "\<forall>u\<in>set (a_all a). \<exists>x. threads s u = Some x \<and> thread_ok a u x"
    using R(1) by (simp add: sim_def)
  ultimately have "sim s' (a_add t d a) (set (a_all (a_add t d a)))"
    using assms(3-) simD [OF R(1)] by (simp add: sim_def a_add_def) (metis assms(2))
  moreover have "a_cur a \<noteq> t" using R(2) assms(2) by (auto simp: sched_wf_def)
  then have "cur_status s' = Some THREAD_RUNNING"
    using R(3) assms(4,5) simD(2) [OF R(1)] by (simp add: cur_status_def)
  ultimately show ?thesis
    using add_wf [OF R(2) assms(2)] by (simp add: refines_def)
qed

lemma thread_create_refines:
  assumes "refines s a" and t: "t \<noteq> 0" "t \<notin> set (a_all a)" and nm: "nm \<noteq> NullStr"
    and idle: "\<not> (nm = StrLit ''idle'' \<and> next_tid s = 2)"
  obtains s' where "thread_create sd t nm f ax d s = Inr (next_tid s, s')"
    "refines s' (a_create t d a)"
    "same_ids (s\<lparr>next_tid := next_tid s + 1, threads := (threads s)(t \<mapsto> created_record t nm (next_tid s) d)\<rparr>) s'"
    "irq_restoring sd \<Longrightarrow> irq s' = irq s"
    "idle_ticks s' = idle_ticks s" "kernel_ticks s' = kernel_ticks s"
    "frames s' = (frames s)(t + PGSIZE - sizeof_kernel_thread_frame \<mapsto> \<lparr>eip = 0, function = f, aux = ax\<rparr>)"
proof -
  note R = refinesD [OF assms(1)]
  obtain h con s1 where s1:
    "s1 = s\<lparr>next_tid := next_tid s + 1, console := con,
       threads := (threads s)(t \<mapsto> created_record t nm (next_tid s) d), links := h,
       frames := (frames s)(t + PGSIZE - sizeof_kernel_thread_frame \<mapsto> \<lparr>eip = 0, function = f, aux = ax\<rparr>),
       idle_thread := (if nm = StrLit ''idle'' \<and> next_tid s = 2 then t else idle_thread s)\<rparr>"
    "lists_ok s1 (a_ready a @ [t]) (a_sleeping a) (a_all a @ [t]) (insert t (set (a_all a)))"
    "thread_create sd t nm f ax d s = bindE (block_if_idle_thread sd s1) (\<lambda>s1. Inr (next_tid s, s1))"
    by (rule thread_create_eval [OF simD(1) [OF R(1)] t(2,1) nm])
  have "refines s1 (a_add t d a)"
    by (rule add_sim [OF assms(1) t(2) s1(2)]) (use idle in \<open>auto simp: s1(1)\<close>)
  then obtain s' where "block_if_idle_thread sd s1 = Inr s'" "refines s' (a_block_if_idle (a_add t d a))"
    "frame s1 s'" "irq_restoring sd \<Longrightarrow> irq s' = irq s1"
    using block_if_idle_refines [where sd = sd] by blast
  then show thesis
    using that s1(3) by (simp add: a_create_alt frame_def same_ids_def s1(1))
qed

section \<open>The start of the kernel\<close>

definition a_boot :: "tptr \<Rightarrow> tptr \<Rightarrow> kernel \<Rightarrow> sched" where
  "a_boot m i s =
     \<lparr>a_cur = m, a_ready = [i], a_sleeping = [], a_all = [m, i], a_idle = i, a_initial = m,
      a_dur = (\<lambda>t. if t = i then 999 else 9999999), a_wake = (\<lambda>_. 0), a_used = thread_ticks s,
      a_now = ticks s, a_mode = round_robin_mode s, a_quantum = round_robin_ticks s,
      a_exit_req = thread_exit_on_return s\<rparr>"

text \<open>\<open>thread_init\<close> needs memory for the three static headers and no thread yet.\<close>

definition booting :: "kernel \<Rightarrow> bool" where
  "booting s \<longleftrightarrow> links s = static_links \<and> (\<forall>t. threads s t = None) \<and> next_tid s = 1 \<and>
     running_thread_init s \<noteq> 0 \<and> ticks s = 0 \<and> thread_ticks s = 0 \<and> idle_ticks s = 0 \<and>
     kernel_ticks s = 0 \<and> thread_exit_on_return s = 0"

lemma list_init_lists:
  assumes "\<And>i. i \<in> {Ready_list, All_list, Lista_espera} \<Longrightarrow> Head i \<in> dom h \<and> Tail i \<in> dom h"
  obtains h1 h2 h3 where "list_init ready_list h = Inr h1" "list_init all_list h1 = Inr h2"
    "list_init lista_espera h2 = Inr h3" "is_list h3 (hdr Ready_list) []" "is_list h3 (hdr All_list) []"
    "is_list h3 (hdr Lista_espera) []"
proof -
  have step: "\<exists>h'. list_init (Some (hdr i)) g = Inr h' \<and> is_list h' (hdr i) [] \<and> only_changes g h' {Head i, Tail i}"
    if "Head i \<in> dom g" "Tail i \<in> dom g" for i g
    using that list_init_spec [of g "hdr i"] by (metis domD hdr_simps laddr.distinct(1))
  obtain h1 where h1: "list_init ready_list h = Inr h1" "is_list h1 (hdr Ready_list) []"
    "only_changes h h1 {Head Ready_list, Tail Ready_list}"
    using step [of Ready_list h] assms by auto
  obtain h2 where h2: "list_init all_list h1 = Inr h2" "is_list h2 (hdr All_list) []"
    "only_changes h1 h2 {Head All_list, Tail All_list}"
    using step [of All_list h1] assms only_changes_dom [OF h1(3)] by blast
  obtain h3 where h3: "list_init lista_espera h2 = Inr h3" "is_list h3 (hdr Lista_espera) []"
    "only_changes h2 h3 {Head Lista_espera, Tail Lista_espera}"
    using step [of Lista_espera h2] assms only_changes_dom [OF h1(3)] only_changes_dom [OF h2(3)] by blast
  have "is_list h3 (hdr Ready_list) []"
    by (rule is_list_other [OF is_list_other [OF h1(2) h2(3)] h3(3)]) auto
  moreover have "is_list h3 (hdr All_list) []"
    by (rule is_list_other [OF h2(2) h3(3)]) auto
  ultimately show thesis using that h1(1) h2(1) h3(1,2) by blast
qed

text \<open>After \<open>thread_init\<close> the running thread is registered as \<open>main\<close>, with thread id 1.\<close>

lemma thread_init_eval:
  assumes b: "booting s" and m_def: "m = running_thread_init s"
  obtains h con s' where
    "s' = s\<lparr>links := h, initial_thread := m, next_tid := 2, thread_running_var := m, console := con,
       threads := (threads s)(m \<mapsto> (initial_record m (StrLit ''main''))\<lparr>status := THREAD_RUNNING, tid := 1\<rparr>)\<rparr>"
    "thread_init s = Inr s'" "lists_ok s' [] [] [m] {m}"
proof -
  have b': "links s = static_links" "threads s = Map.empty" "next_tid s = 1" "m \<noteq> 0"
    using b by (auto simp: booting_def m_def)
  obtain h1 h2 h3 where h: "list_init ready_list static_links = Inr h1" "list_init all_list h1 = Inr h2"
    "list_init lista_espera h2 = Inr h3" "is_list h3 (hdr Ready_list) []" "is_list h3 (hdr All_list) []"
    "is_list h3 (hdr Lista_espera) []"
    by (rule list_init_lists [of static_links]) (auto simp: static_links_def)
  define s1 where "s1 = s\<lparr>links := h3, initial_thread := m\<rparr>"
  have "lists_ok s1 [] [] [] {}"
    using h(4-6) b'(2) by (simp add: lists_ok_def s1_def)
  then obtain h where i: "init_thread m (StrLit ''main'') s1 =
      Inr (s1\<lparr>threads := (threads s1)(m \<mapsto> initial_record m (StrLit ''main'')), links := h\<rparr>)"
    "lists_ok (s1\<lparr>threads := (threads s1)(m \<mapsto> initial_record m (StrLit ''main'')), links := h\<rparr>) [] [] [m] {m}"
    using init_thread_lists [OF \<open>lists_ok s1 [] [] [] {}\<close>, where t = m and nm = "StrLit ''main''"] b'(4)
    by (metis append_Nil cstr.distinct(1) empty_iff)
  define th where "th = (initial_record m (StrLit ''main''))\<lparr>status := THREAD_RUNNING, tid := 1\<rparr>"
  define s' where "s' = printf ''Se termino de configurar el thread inicial. info: name %s , status %d, tid %d\<newline>''
      [AStr (name th), AInt (status_code (status th)), AInt (tid th)]
      (s\<lparr>links := h, initial_thread := m, next_tid := 2, thread_running_var := m,
         threads := (threads s)(m \<mapsto> th)\<rparr>)"
  have "thread_init s = Inr s'"
    using h(1-3) i(1) b'
    by (simp add: thread_init_def on_links_def s1_def s'_def th_def update_thread_def load_thread_def
        allocate_tid_def printf_def running_thread_init_def m_def)
  moreover have "lists_ok s' [] [] [m] {m}"
    using i(2) by (subst lists_ok_cong [of _ "s1\<lparr>threads := (threads s1)(m \<mapsto> initial_record m (StrLit ''main'')), links := h\<rparr>"])
      (auto simp: s'_def s1_def printf_def)
  ultimately show thesis
    by (intro that [where s' = s' and h = h and con = "console s'"])
      (simp_all add: s'_def th_def printf_def m_def)
qed

text \<open>
  \<open>thread_init\<close> followed by \<open>thread_start\<close> is the initial state of the abstract scheduler: \<open>main\<close>
  runs and \<open>idle\<close> waits in the ready queue.
\<close>

lemma boot_refines:
  assumes b: "booting s" and t: "t \<noteq> 0" "t \<noteq> running_thread_init s"
  obtains s0 s' where "thread_init s = Inr s0" "thread_start sd t f s0 = Inr s'"
    "refines s' (a_boot (running_thread_init s) t s)" "next_tid s' = 3" "irq s' = irq s"
    "idle_ticks s' = 0" "kernel_ticks s' = 0"
    "map_option tid (threads s' (running_thread_init s)) = Some 1" "map_option tid (threads s' t) = Some 2"
    "threads s' (running_thread_init s) =
      Some ((initial_record (running_thread_init s) (StrLit ''main''))\<lparr>status := THREAD_RUNNING, tid := 1\<rparr>)"
    "threads s' t = Some (created_record t (StrLit ''idle'') 2 999)"
proof -
  define m where "m = running_thread_init s"
  have b': "threads s = Map.empty" "m \<noteq> 0" using b by (auto simp: booting_def m_def)
  obtain h con s0 where s0: "s0 = s\<lparr>links := h, initial_thread := m, next_tid := 2, thread_running_var := m, console := con,
       threads := (threads s)(m \<mapsto> (initial_record m (StrLit ''main''))\<lparr>status := THREAD_RUNNING, tid := 1\<rparr>)\<rparr>"
    "thread_init s = Inr s0" "lists_ok s0 [] [] [m] {m}"
    by (rule thread_init_eval [OF b m_def])
  have tm: "t \<noteq> m" using t by (simp add: m_def)
  obtain h' con' s1 where s1: "s1 = s0\<lparr>next_tid := next_tid s0 + 1, console := con',
       threads := (threads s0)(t \<mapsto> created_record t (StrLit ''idle'') (next_tid s0) 999), links := h',
       frames := (frames s0)(t + PGSIZE - sizeof_kernel_thread_frame \<mapsto> \<lparr>eip = 0, function = f, aux = 0\<rparr>),
       idle_thread := (if StrLit ''idle'' = StrLit ''idle'' \<and> next_tid s0 = 2 then t else idle_thread s0)\<rparr>"
    "lists_ok s1 ([] @ [t]) [] ([m] @ [t]) (insert t {m})"
    "thread_create sd t (StrLit ''idle'') f 0 999 s0 = bindE (block_if_idle_thread sd s1) (\<lambda>s1. Inr (next_tid s0, s1))"
    by (rule thread_create_eval [OF s0(3), where t = t and nm = "StrLit ''idle''" and sd = sd and f = f and ax = 0 and d = 999])
      (use tm t in auto)
  have th: "threads s1 m = Some ((initial_record m (StrLit ''main''))\<lparr>status := THREAD_RUNNING, tid := 1\<rparr>)"
    "threads s1 t = Some (created_record t (StrLit ''idle'') 2 999)"
    using tm by (simp_all add: s1(1) s0(1))
  have fields: "thread_running_var s1 = m" "idle_thread s1 = t" "initial_thread s1 = m"
    by (simp_all add: s1(1) s0(1))
  have "block_if_idle_thread sd s1 = Inr s1"
    using th(1) fields tm b'(2)
    by (simp add: block_if_idle_thread_def thread_current_def running_thread_def initial_record_def)
  then have "thread_start sd t f s0 = Inr s1"
    by (simp add: thread_start_def s1(3))
  moreover have "lists_ok s1 [t] [] [m, t] {m, t}"
    using s1(2) by (simp add: insert_commute)
  then have "sim s1 (a_boot m t s) {m, t}"
    using th fields tm
    by (simp add: sim_def a_boot_def thread_ok_def status_ok_def initial_record_def created_record_def
        zero_thread_def s1(1) s0(1))
  then have "refines s1 (a_boot m t s)"
    using th fields tm by (simp add: refines_def cur_status_def sched_wf_def a_boot_def)
  ultimately show thesis
    using that [of s0 s1] s0(2) th b by (simp add: booting_def m_def s1(1) s0(1) created_record_def)
qed

end
