(* ===== verification/Sched_Tick.thy ===== *)
theory Sched_Tick
  imports Sched_Ops
begin

text \<open>
  What a timer interrupt does to the threads: charging the running thread and waking the sleepers.  An
  interrupt may arrive while an operation is under way, when the running thread is already off
  \<open>all_list\<close> or already on \<open>lista_espera\<close>, or when a new thread is on no list yet; so the lemmas
  suppose less than that the state refines a well-formed scheduler, only \<open>ticking\<close>.
\<close>

definition ticking :: "kernel \<Rightarrow> sched \<Rightarrow> tptr set \<Rightarrow> bool" where
  "ticking s a D \<longleftrightarrow> sim s a D \<and> a_cur a \<in> D \<and> cur_status s = Some THREAD_RUNNING"

lemma refines_ticking: "refines s a \<longleftrightarrow> ticking s a (set (a_all a)) \<and> sched_wf a"
  by (auto simp: refines_def ticking_def sched_wf_def)

lemma ticking_printf [simp]: "ticking (printf f as s) a D = ticking s a D"
  by (simp add: ticking_def)

lemma ticking_cur:
  assumes "ticking s a D"
  obtains th where "threads s (a_cur a) = Some th" "a_cur a \<noteq> 0" "magic th = THREAD_MAGIC"
    "duration_ticks th = a_dur a (a_cur a)" "sleep_time th = a_wake a (a_cur a)" "status th = THREAD_RUNNING"
    "thread_current s = Inr (a_cur a)"
proof -
  have S: "sim s a D" "a_cur a \<in> D" "cur_status s = Some THREAD_RUNNING" using assms by (simp_all add: ticking_def)
  obtain th where th: "threads s (a_cur a) = Some th" "a_cur a \<noteq> 0" "magic th = THREAD_MAGIC"
    "duration_ticks th = a_dur a (a_cur a)" "sleep_time th = a_wake a (a_cur a)"
    by (rule sim_thread [OF S(1,2)])
  moreover have "status th = THREAD_RUNNING" using S(3) th(1) simD(2) [OF S(1)] by (simp add: cur_status_def)
  ultimately show thesis
    using that simD(2) [OF S(1)] by (simp add: thread_current_def running_thread_def)
qed

text \<open>A change of one thread that the simulation allows.\<close>

lemma sim_update:
  assumes "sim s a D" "t \<in> D" "thread_ok a' t th"
    and "\<And>u x. thread_ok a u x \<Longrightarrow> u \<noteq> t \<Longrightarrow> thread_ok a' u x"
    and "lists_ok (s\<lparr>links := h\<rparr>) (a_ready a') (a_sleeping a') (a_all a') D" "threads s t \<noteq> None"
    and "a_cur a' = a_cur a" "a_idle a' = a_idle a" "a_initial a' = a_initial a" "a_used a' = a_used a"
    "a_now a' = a_now a" "a_mode a' = a_mode a" "a_quantum a' = a_quantum a" "a_exit_req a' = a_exit_req a"
  shows "sim (s\<lparr>links := h, threads := (threads s)(t \<mapsto> th)\<rparr>) a' D"
proof -
  have "lists_ok (s\<lparr>links := h, threads := (threads s)(t \<mapsto> th)\<rparr>) (a_ready a') (a_sleeping a') (a_all a') D"
    using assms(5,6) by (subst lists_ok_cong [of _ "s\<lparr>links := h\<rparr>"]) auto
  moreover have "\<forall>u\<in>D. \<exists>x. threads s u = Some x \<and> thread_ok a u x" using assms(1) by (simp add: sim_def)
  ultimately show ?thesis using simD [OF assms(1)] assms(2-4,7-) by (simp add: sim_def) meson
qed

section \<open>Ticking\<close>

lemma thread_tick_sim:
  assumes "ticking s a D"
  obtains s' where "thread_tick s = Inr s'" "ticking s' (a_tick a) D" "irq s' = irq s" "ticks s' = ticks s"
    "same_ids s s'"
    "idle_ticks s' = (if a_cur a = a_idle a then idle_ticks s + 1 else idle_ticks s)"
    "kernel_ticks s' = (if a_cur a = a_idle a then kernel_ticks s else kernel_ticks s + 1)"
proof -
  have S: "sim s a D" "a_cur a \<in> D" using assms by (simp_all add: ticking_def)
  define c where "c = a_cur a"
  obtain th where th: "threads s c = Some th" "c \<noteq> 0" "magic th = THREAD_MAGIC"
    "duration_ticks th = a_dur a c" "sleep_time th = a_wake a c" "status th = THREAD_RUNNING" "thread_current s = Inr c"
    unfolding c_def by (rule ticking_cur [OF assms])
  define s1 where "s1 = (if c = idle_thread s then s\<lparr>idle_ticks := idle_ticks s + 1\<rparr>
    else s\<lparr>kernel_ticks := kernel_ticks s + 1\<rparr>)"
  define s' where "s' = s1\<lparr>thread_ticks := thread_ticks s + 1,
    threads := (threads s)(c \<mapsto> th\<lparr>duration_ticks := a_dur a c - 1\<rparr>)\<rparr>"
  have tick: "thread_tick s = Inr s'"
    using th by (auto simp: thread_tick_def s1_def s'_def)
  have flds: "thread_running_var s' = a_cur a" "idle_thread s' = a_idle a" "initial_thread s' = a_initial a"
    "thread_ticks s' = a_used a + 1" "ticks s' = a_now a" "round_robin_mode s' = a_mode a"
    "round_robin_ticks s' = a_quantum a" "thread_exit_on_return s' = a_exit_req a"
    "threads s' = (threads s)(c \<mapsto> th\<lparr>duration_ticks := a_dur a c - 1\<rparr>)"
    using simD [OF S(1)] by (simp_all add: s'_def s1_def)
  have "lists_ok s' (a_ready a) (a_sleeping a) (a_all a) D"
    using simD(1) [OF S(1)] th(1) by (subst lists_ok_cong [of _ s]) (auto simp: s'_def s1_def)
  moreover have "thread_ok a t u \<Longrightarrow> t \<noteq> c \<Longrightarrow> thread_ok (a_tick a) t u" for t u
    by (simp add: thread_ok_def status_ok_def a_tick_def c_def)
  moreover have "thread_ok (a_tick a) c (th\<lparr>duration_ticks := a_dur a c - 1\<rparr>)"
    using th by (simp add: thread_ok_def a_tick_def c_def)
  moreover have "\<forall>t\<in>D. \<exists>u. threads s t = Some u \<and> thread_ok a t u"
    using S(1) by (simp add: sim_def)
  ultimately have "sim s' (a_tick a) D"
    using flds by (simp add: sim_def a_tick_def) meson
  moreover have "cur_status s' = Some THREAD_RUNNING"
    using th simD(2) [OF S(1)] by (simp add: cur_status_def s'_def s1_def c_def)
  ultimately have "ticking s' (a_tick a) D" using S(2) by (simp add: ticking_def a_tick_def)
  moreover have "same_ids s s'"
    using th(1) by (auto simp: same_ids_def s'_def s1_def)
  ultimately show thesis using tick that simD(3) [OF S(1)] by (simp add: s'_def s1_def c_def)
qed

section \<open>Waking up\<close>

text \<open>One thread leaves \<open>lista_espera\<close> and enters \<open>ready_list\<close>.\<close>

lemma wake_one:
  assumes "ticking s a D" "a_sleeping a = us @ t # vs" "t \<noteq> a_cur a"
  obtains h s' where
    "list_remove (Some (Elem t)) (links s) = Inr (Some (hd (map Elem vs @ [Tail Lista_espera])), h)"
    "thread_unblock t (s\<lparr>links := h\<rparr>) = Inr s'"
    "ticking s' (a\<lparr>a_ready := a_ready a @ [t], a_sleeping := us @ vs\<rparr>) D" "frame s s'" "irq s' = irq s"
proof -
  have S: "sim s a D" "a_cur a \<in> D" "cur_status s = Some THREAD_RUNNING" using assms(1) by (simp_all add: ticking_def)
  note L = simD(1) [OF S(1)]
  have wf: "t \<in> D" "t \<notin> set (a_ready a)" "t \<notin> set us" "t \<notin> set vs"
    using lists_okD [OF L] lists_ok_distinct [OF L] assms(2) by auto
  obtain th where th: "threads s t = Some th" "t \<noteq> 0" "magic th = THREAD_MAGIC"
    "duration_ticks th = a_dur a t" "sleep_time th = a_wake a t" "status th = THREAD_BLOCKED"
    using sim_thread [OF S(1) wf(1)] assms(2,3) unfolding status_ok_def
    by (metis in_set_conv_decomp)
  obtain h where h:
    "list_remove (Some (Elem t)) (links s) = Inr (Some (hd (map Elem vs @ [Tail Lista_espera])), h)"
    "lists_ok (s\<lparr>links := h\<rparr>) (a_ready a) (us @ vs) (a_all a) D"
    by (rule remove_espera) (use L assms(2) in auto)
  obtain h' where h': "on_links (list_push_back ready_list (Some (Elem t))) (s\<lparr>links := h\<rparr>) =
      Inr (s\<lparr>links := h'\<rparr>)"
    "lists_ok (s\<lparr>links := h'\<rparr>) (a_ready a @ [t]) (us @ vs) (a_all a) D"
    using push_ready [OF h(2) wf(1,2)] wf(3,4) by auto
  define s' where "s' = s\<lparr>links := h', threads := (threads s)(t \<mapsto> th\<lparr>status := THREAD_READY\<rparr>)\<rparr>"
  have un: "thread_unblock t (s\<lparr>links := h\<rparr>) = Inr s'"
    using th h'(1) by (simp add: thread_unblock_def s'_def)
  have "sim s' (a\<lparr>a_ready := a_ready a @ [t], a_sleeping := us @ vs\<rparr>) D"
    unfolding s'_def
    by (rule sim_update [OF S(1) wf(1)]) (use th wf h'(2) assms(2) in \<open>auto simp: thread_ok_def status_ok_def\<close>)
  moreover have "cur_status s' = Some THREAD_RUNNING"
    using S(3) assms(3) simD(2) [OF S(1)] by (simp add: cur_status_def s'_def)
  ultimately have "ticking s' (a\<lparr>a_ready := a_ready a @ [t], a_sleeping := us @ vs\<rparr>) D" using S(2) by (simp add: ticking_def)
  moreover have "frame s s'" "irq s' = irq s" using th(1) by (simp_all add: s'_def frame_def)
  ultimately show thesis using that h(1) un by blast
qed

text \<open>The loop has passed the sleepers \<open>vs\<close> and is at the first of \<open>ws\<close>.\<close>

lemma remover_loop_sim:
  assumes "ticking s a D" "a_sleeping a = us @ vs @ ws" "a_cur a \<notin> set vs"
  shows "\<exists>s'. remover_loop n (Some (hd (map Elem (vs @ ws) @ [Tail Lista_espera]))) s =
      remover_loop n (Some (hd (map Elem ws @ [Tail Lista_espera]))) s' \<and>
    frame s s' \<and> irq s' = irq s \<and>
    ticking s' (a\<lparr>a_ready := a_ready a @ filter (a_expired n a) vs,
                  a_sleeping := us @ filter (\<lambda>t. \<not> a_expired n a t) vs @ ws\<rparr>) D"
  using assms
proof (induction vs arbitrary: s a us)
  case Nil
  then show ?case by (cases a) auto
next
  case (Cons t vs)
  have S: "sim s a D" using Cons.prems(1) by (simp add: ticking_def)
  have "t \<in> D" using lists_okD(7) [OF simD(1) [OF S]] Cons.prems(2) by auto
  then obtain th where th: "threads s t = Some th" "t \<noteq> 0" "sleep_time th = a_wake a t"
    by (rule sim_thread [OF S]) blast
  show ?case
  proof (cases "a_expired n a t")
    case True
    define s1 where "s1 = printf ''--Wake Up! Thread %s\<newline>'' [AStr (name th)] s"
    have s1: "ticking s1 a D" "links s1 = links s" using Cons.prems(1) by (simp_all add: s1_def)
    have sl: "a_sleeping a = us @ t # vs @ ws" "t \<noteq> a_cur a" using Cons.prems(2,3) by auto
    obtain h s2 where s2:
      "list_remove (Some (Elem t)) (links s) = Inr (Some (hd (map Elem (vs @ ws) @ [Tail Lista_espera])), h)"
      "thread_unblock t (s1\<lparr>links := h\<rparr>) = Inr s2"
      "ticking s2 (a\<lparr>a_ready := a_ready a @ [t], a_sleeping := us @ vs @ ws\<rparr>) D" "frame s1 s2" "irq s2 = irq s1"
      using wake_one [OF s1(1) sl] s1(2) by metis
    have step: "remover_loop n (Some (Elem t)) s = remover_loop n (Some (hd (map Elem (vs @ ws) @ [Tail Lista_espera]))) s2"
      using th True s2(1,2) by (subst remover_loop.simps) (simp add: a_expired_def s1_def)
    have "frame s s2" "irq s2 = irq s" using s2(4,5) by (simp_all add: s1_def frame_def)
    with Cons.IH [OF s2(3)] Cons.prems(3) frame_trans [of s s2] step True show ?thesis
      by (auto simp: a_expired_def)
  next
    case False
    have "is_list (links s) (hdr Lista_espera) (map Elem us @ Elem t # map Elem (vs @ ws))"
      using lists_okD(2) [OF simD(1) [OF S]] Cons.prems(2) by simp
    then have nx: "list_next (Some (Elem t)) (links s) = Inr (Some (hd (map Elem (vs @ ws) @ [Tail Lista_espera])))"
      using list_next_spec by fastforce
    have step: "remover_loop n (Some (Elem t)) s = remover_loop n (Some (hd (map Elem (vs @ ws) @ [Tail Lista_espera]))) s"
      using th False nx by (subst remover_loop.simps) (simp add: a_expired_def)
    with Cons.IH [of s a "us @ [t]"] Cons.prems False show ?thesis by simp
  qed
qed

lemma remover_start:
  assumes "sim s a D"
  shows "remover_thread_durmiente n s = remover_loop n (Some (hd (map Elem (a_sleeping a) @ [Tail Lista_espera]))) s"
  using list_begin_spec [OF lists_okD(2) [OF simD(1) [OF assms]]] by (simp add: remover_thread_durmiente_def)

lemma remover_sim:
  assumes "ticking s a D" "a_cur a \<notin> set (a_sleeping a)"
  obtains s' where "remover_thread_durmiente n s = Some (Inr s')" "ticking s' (a_wake_up n a) D" "frame s s'"
    "irq s' = irq s"
proof -
  obtain s' where s': "remover_loop n (Some (hd (map Elem (a_sleeping a) @ [Tail Lista_espera]))) s =
      remover_loop n (Some (Tail Lista_espera)) s'" "frame s s'" "irq s' = irq s" "ticking s' (a_wake_up n a) D"
    using remover_loop_sim [OF assms(1), of "[]" "a_sleeping a" "[]" n] assms(2) by (auto simp: a_wake_up_def)
  moreover have "remover_loop n (Some (Tail Lista_espera)) s' = Some (Inr s')"
    by (subst remover_loop.simps) simp
  ultimately show thesis
    using that remover_start [of s a D n] assms(1) by (simp add: ticking_def)
qed

end
