(* ===== verification/Main_Loop.thy ===== *)
theory Main_Loop
  imports Sched_Create Sched_Tick
begin

text \<open>
  The scheduling policy of src/main.c: the timer interrupt handler, the body of the main loop
  (\<open>after_interrupt\<close>) and the configuration of the policy, with their abstract counterparts.
\<close>

section \<open>The code\<close>

definition schedule_set_quantum :: "s32 \<Rightarrow> s32 \<Rightarrow> kernel \<Rightarrow> kernel" where
  "schedule_set_quantum mode rrticks s =
     (if mode = 0 then s\<lparr>round_robin_mode := 0\<rparr>
      else if mode = 1 \<and> 0 < sint rrticks then
        s\<lparr>round_robin_mode := 1, round_robin_ticks := rrticks\<rparr>
      else s)"

definition set_thread_exit_on_return :: "kernel \<Rightarrow> kernel" where
  "set_thread_exit_on_return s = s\<lparr>thread_exit_on_return := 1\<rparr>"

definition after_interrupt :: "sdk \<Rightarrow> kernel \<Rightarrow> error + kernel" where
  "after_interrupt sd s =
     bindE (block_if_idle_thread sd s) (\<lambda>s.
     bindE (thread_current s) (\<lambda>t.
     bindE (load_thread t s) (\<lambda>th.
     bindE
       (if sint (duration_ticks th) \<le> 0 then
          bindE (thread_current s) (\<lambda>t.
          bindE (load_thread t s) (\<lambda>th.
          thread_exit sd
            (printf ''thread_ticks: %d ; duration left %d\<newline>''
               [AInt (thread_ticks s), AInt (duration_ticks th)] s)))
        else
          bindE (andE (Inr (round_robin_mode s \<noteq> 0))
                      (bindE (is_ready_list_empty s) (\<lambda>e. Inr (\<not> e)))) (\<lambda>c.
          if c then
            if round_robin_ticks s \<le> thread_ticks s then thread_yield sd s else Inr s
          else Inr s)) (\<lambda>s.
     bindE (andE (Inr (thread_exit_on_return s \<noteq> 0))
                 (bindE (thread_current s) (\<lambda>t.
                  bindE (load_thread t s) (\<lambda>th. Inr (duration_ticks th \<noteq> 0))))) (\<lambda>c.
     if c then
       bindE (thread_current s) (\<lambda>t.
       bindE (load_thread t s) (\<lambda>th.
       bindE (thread_exit sd
                (printf ''FORCED EXIT thread %s, duration left: %d''
                   [AStr (name th), AInt (duration_ticks th)] s)) (\<lambda>s.
       Inr (s\<lparr>thread_exit_on_return := 0\<rparr>))))
     else Inr s)))))"

definition timer_interrupt :: "kernel \<Rightarrow> (error + (bool \<times> kernel)) option" where
  "timer_interrupt s =
     bindR (Some (Inr (s\<lparr>ticks := ticks s + 1\<rparr>))) (\<lambda>s.
     bindR (Some (thread_tick s)) (\<lambda>s.
     bindR (Some (thread_current s)) (\<lambda>t.
     bindR (Some (load_thread t s)) (\<lambda>th.
     bindR (Some (Inr (printf (''Se est'' @ [CHR 0xC3, CHR 0xA1] @ '' ejecutando thread %s, ticks %d\<newline>'')
                         [AStr (name th), AInt (ticks s)] s))) (\<lambda>s.
     bindR (remover_thread_durmiente (ticks s) s) (\<lambda>s.
     Some (Inr (True, s))))))))"

section \<open>The abstract policy\<close>

definition a_set_quantum :: "s32 \<Rightarrow> s32 \<Rightarrow> sched \<Rightarrow> sched" where
  "a_set_quantum mode q a =
     (if mode = 0 then a\<lparr>a_mode := 0\<rparr>
      else if mode = 1 \<and> 0 < sint q then a\<lparr>a_mode := 1, a_quantum := q\<rparr>
      else a)"

definition a_policy :: "sched \<Rightarrow> sched" where
  "a_policy a =
     (if sint (a_dur a (a_cur a)) \<le> 0 then a_exit a
      else if a_mode a \<noteq> 0 \<and> a_ready a \<noteq> [] \<and> a_quantum a \<le> a_used a then a_yield a
      else a)"

definition a_forced_exit :: "sched \<Rightarrow> sched" where
  "a_forced_exit a =
     (if a_exit_req a \<noteq> 0 \<and> a_dur a (a_cur a) \<noteq> 0 then (a_exit a)\<lparr>a_exit_req := 0\<rparr> else a)"

definition a_after_interrupt :: "sched \<Rightarrow> sched" where
  "a_after_interrupt a = a_forced_exit (a_policy (a_block_if_idle a))"

definition a_timer :: "sched \<Rightarrow> sched" where
  "a_timer a = (let b = a_tick (a\<lparr>a_now := a_now a + 1\<rparr>) in a_wake_up (a_now b) b)"

section \<open>Refinement\<close>

lemma cur_status_policy [simp]:
  "cur_status (s\<lparr>thread_exit_on_return := v\<rparr>) = cur_status s"
  "cur_status (s\<lparr>ticks := n\<rparr>) = cur_status s"
  "cur_status (s\<lparr>round_robin_mode := m\<rparr>) = cur_status s"
  "cur_status (s\<lparr>round_robin_ticks := q\<rparr>) = cur_status s"
  by (simp_all add: cur_status_def)

lemma refines_exit_req: "refines s a \<Longrightarrow> refines (s\<lparr>thread_exit_on_return := v\<rparr>) (a\<lparr>a_exit_req := v\<rparr>)"
  by (simp add: refines_def sim_def lists_ok_def sched_wf_def thread_ok_def status_ok_def)

lemma refines_now: "refines s a \<Longrightarrow> refines (s\<lparr>ticks := v\<rparr>) (a\<lparr>a_now := v\<rparr>)"
  by (simp add: refines_def sim_def lists_ok_def sched_wf_def thread_ok_def status_ok_def)

lemma refines_mode: "refines s a \<Longrightarrow> refines (s\<lparr>round_robin_mode := v\<rparr>) (a\<lparr>a_mode := v\<rparr>)"
  by (simp add: refines_def sim_def lists_ok_def sched_wf_def thread_ok_def status_ok_def)

lemma refines_quantum: "refines s a \<Longrightarrow> refines (s\<lparr>round_robin_ticks := v\<rparr>) (a\<lparr>a_quantum := v\<rparr>)"
  by (simp add: refines_def sim_def lists_ok_def sched_wf_def thread_ok_def status_ok_def)

lemma set_quantum_refines:
  "refines s a \<Longrightarrow> refines (schedule_set_quantum m q s) (a_set_quantum m q a)"
  using refines_quantum [OF refines_mode, of s a q 1]
  by (simp add: schedule_set_quantum_def a_set_quantum_def refines_mode)

text \<open>What an operation of the kernel promises besides refinement.\<close>

definition keeps :: "sdk \<Rightarrow> kernel \<Rightarrow> kernel \<Rightarrow> bool" where
  "keeps sd s s' \<longleftrightarrow> frame s s' \<and> (irq_restoring sd \<longrightarrow> irq s' = irq s)"

lemma keeps_refl [simp]: "keeps sd s s"
  by (simp add: keeps_def)

lemma keeps_trans: "keeps sd s s1 \<Longrightarrow> keeps sd s1 s2 \<Longrightarrow> keeps sd s s2"
  by (auto simp: keeps_def intro: frame_trans)

lemma keeps_printf [simp]: "keeps sd (printf f x s) s' = keeps sd s s'"
  by (simp add: keeps_def frame_def)

lemma keeps_exit_req [simp]: "keeps sd s (s'\<lparr>thread_exit_on_return := v\<rparr>) = keeps sd s s'"
  by (simp add: keeps_def frame_def)

text \<open>The refinement lemmas in existential form, for the main loop.\<close>

lemma exit_step:
  assumes "refines s a"
  shows "\<exists>s'. thread_exit sd s = Inr s' \<and> refines s' (a_exit a) \<and> keeps sd s s'"
  using thread_exit_refines [OF assms, where sd = sd] unfolding keeps_def by metis

lemma yield_step:
  assumes "refines s a"
  shows "\<exists>s'. thread_yield sd s = Inr s' \<and> refines s' (a_yield a) \<and> keeps sd s s'"
  using thread_yield_refines [OF assms, where sd = sd] unfolding keeps_def by metis

lemma block_if_idle_step:
  assumes "refines s a"
  shows "\<exists>s'. block_if_idle_thread sd s = Inr s' \<and> refines s' (a_block_if_idle a) \<and> keeps sd s s'"
  using block_if_idle_refines [OF assms, where sd = sd] unfolding keeps_def by metis

lemma cur_duration:
  assumes "refines s a"
  obtains th where "thread_current s = Inr (a_cur a)" "load_thread (a_cur a) s = Inr th"
    "duration_ticks th = a_dur a (a_cur a)"
  using thread_current_ok [OF assms] refines_cur [OF assms] by (metis load_thread_Some)

lemma ready_empty_ok: "refines s a \<Longrightarrow> is_ready_list_empty s = Inr (a_ready a = [])"
  using lists_ok_list_empty [OF simD(1) [OF refinesD(1)]] by (simp add: is_ready_list_empty_def)

lemma policy_step:
  assumes "refines s a" "thread_current s = Inr t" "load_thread t s = Inr th"
    "duration_ticks th = a_dur a (a_cur a)"
  shows "\<exists>s'. (if sint (duration_ticks th) \<le> 0 then
          bindE (thread_current s) (\<lambda>t.
          bindE (load_thread t s) (\<lambda>th.
          thread_exit sd
            (printf ''thread_ticks: %d ; duration left %d\<newline>''
               [AInt (thread_ticks s), AInt (duration_ticks th)] s)))
        else
          bindE (andE (Inr (round_robin_mode s \<noteq> 0))
                      (bindE (is_ready_list_empty s) (\<lambda>e. Inr (\<not> e)))) (\<lambda>c.
          if c then
            if round_robin_ticks s \<le> thread_ticks s then thread_yield sd s else Inr s
          else Inr s)) = Inr s' \<and> refines s' (a_policy a) \<and> keeps sd s s'"
proof -
  note D = simD(5,7,8) [OF refinesD(1) [OF assms(1)]]
  show ?thesis
    using exit_step [where sd = sd, of "printf ''thread_ticks: %d ; duration left %d\<newline>''
               [AInt (thread_ticks s), AInt (duration_ticks th)] s" a]
      yield_step [OF assms(1), where sd = sd] assms D
    by (auto simp: a_policy_def ready_empty_ok)
qed

lemma after_interrupt_refines:
  assumes "refines s a"
  shows "\<exists>s'. after_interrupt sd s = Inr s' \<and> refines s' (a_after_interrupt a) \<and> keeps sd s s'"
proof -
  define b where "b = a_block_if_idle a"
  obtain s1 where s1: "block_if_idle_thread sd s = Inr s1" "refines s1 b" "keeps sd s s1"
    using block_if_idle_step [OF assms, where sd = sd] by (auto simp: b_def)
  obtain th1 where th1: "thread_current s1 = Inr (a_cur b)" "load_thread (a_cur b) s1 = Inr th1"
    "duration_ticks th1 = a_dur b (a_cur b)"
    by (rule cur_duration [OF s1(2)])
  obtain s2 where s2: "(if sint (duration_ticks th1) \<le> 0 then
          bindE (thread_current s1) (\<lambda>t.
          bindE (load_thread t s1) (\<lambda>th.
          thread_exit sd
            (printf ''thread_ticks: %d ; duration left %d\<newline>''
               [AInt (thread_ticks s1), AInt (duration_ticks th)] s1)))
        else
          bindE (andE (Inr (round_robin_mode s1 \<noteq> 0))
                      (bindE (is_ready_list_empty s1) (\<lambda>e. Inr (\<not> e)))) (\<lambda>c.
          if c then
            if round_robin_ticks s1 \<le> thread_ticks s1 then thread_yield sd s1 else Inr s1
          else Inr s1)) = Inr s2" "refines s2 (a_policy b)" "keeps sd s1 s2"
    using policy_step [OF s1(2) th1, where sd = sd] by blast
  define c where "c = a_policy b"
  obtain th2 where th2: "thread_current s2 = Inr (a_cur c)" "load_thread (a_cur c) s2 = Inr th2"
    "duration_ticks th2 = a_dur c (a_cur c)"
    using cur_duration [OF s2(2)] unfolding c_def .
  define s2p where "s2p = printf ''FORCED EXIT thread %s, duration left: %d''
                   [AStr (name th2), AInt (duration_ticks th2)] s2"
  obtain s3 where s3: "thread_exit sd s2p = Inr s3" "refines s3 (a_exit c)" "keeps sd s2 s3"
    using exit_step [of s2p c sd] s2(2) by (auto simp: s2p_def c_def)
  define r where "r = (if thread_exit_on_return s2 \<noteq> 0 \<and> duration_ticks th2 \<noteq> 0
      then s3\<lparr>thread_exit_on_return := 0\<rparr> else s2)"
  have "after_interrupt sd s = Inr r"
    using s1(1) th1(1,2) s2(1) th2(1,2) s3(1)
    by (simp add: after_interrupt_def r_def s2p_def)
  moreover have "refines r (a_forced_exit c)"
    using refines_exit_req [OF s3(2), of 0] s2(2) simD(9) [OF refinesD(1) [OF s2(2)]] th2(3)
    by (simp add: r_def a_forced_exit_def c_def)
  moreover have "keeps sd s r"
    using keeps_trans [OF s1(3) keeps_trans [OF s2(3)]] s3(3) by (auto simp: r_def)
  ultimately show ?thesis
    by (auto simp: a_after_interrupt_def b_def c_def)
qed

text \<open>A timer interrupt up to its call of \<open>remover_thread_durmiente\<close>.\<close>

lemma ticking_now: "ticking s a D \<Longrightarrow> ticking (s\<lparr>ticks := v\<rparr>) (a\<lparr>a_now := v\<rparr>) D"
  by (simp add: ticking_def sim_def lists_ok_def thread_ok_def status_ok_def)

lemma timer_interrupt_charge:
  assumes "ticking s a D"
  obtains s' where
    "timer_interrupt s = bindR (remover_thread_durmiente (a_now a + 1) s') (\<lambda>s. Some (Inr (True, s)))"
    "ticking s' (a_tick (a\<lparr>a_now := a_now a + 1\<rparr>)) D" "irq s' = irq s" "same_ids s s'"
    "idle_ticks s' = (if a_cur a = a_idle a then idle_ticks s + 1 else idle_ticks s)"
    "kernel_ticks s' = (if a_cur a = a_idle a then kernel_ticks s else kernel_ticks s + 1)"
proof -
  define b where "b = a\<lparr>a_now := a_now a + 1\<rparr>"
  have now: "ticks s = a_now a" using assms simD(6) [of s a D] by (simp add: ticking_def)
  have "ticking (s\<lparr>ticks := ticks s + 1\<rparr>) b D"
    using ticking_now [OF assms, of "ticks s + 1"] now by (simp add: b_def)
  then obtain s1 where s1: "thread_tick (s\<lparr>ticks := ticks s + 1\<rparr>) = Inr s1" "ticking s1 (a_tick b) D"
    "irq s1 = irq (s\<lparr>ticks := ticks s + 1\<rparr>)" "ticks s1 = ticks (s\<lparr>ticks := ticks s + 1\<rparr>)"
    "same_ids (s\<lparr>ticks := ticks s + 1\<rparr>) s1"
    "idle_ticks s1 = (if a_cur b = a_idle b then idle_ticks (s\<lparr>ticks := ticks s + 1\<rparr>) + 1 else idle_ticks (s\<lparr>ticks := ticks s + 1\<rparr>))"
    "kernel_ticks s1 = (if a_cur b = a_idle b then kernel_ticks (s\<lparr>ticks := ticks s + 1\<rparr>) else kernel_ticks (s\<lparr>ticks := ticks s + 1\<rparr>) + 1)"
    by (rule thread_tick_sim)
  obtain th where th: "threads s1 (a_cur (a_tick b)) = Some th" "a_cur (a_tick b) \<noteq> 0"
    "thread_current s1 = Inr (a_cur (a_tick b))"
    by (rule ticking_cur [OF s1(2)])
  define s2 where "s2 = printf (''Se est'' @ [CHR 0xC3, CHR 0xA1] @ '' ejecutando thread %s, ticks %d\<newline>'')
                         [AStr (name th), AInt (ticks s1)] s1"
  have "timer_interrupt s = bindR (remover_thread_durmiente (a_now a + 1) s2) (\<lambda>s. Some (Inr (True, s)))"
    using s1(1,4) th now by (simp add: timer_interrupt_def s2_def)
  moreover have "ticking s2 (a_tick (a\<lparr>a_now := a_now a + 1\<rparr>)) D" using s1(2) by (simp add: s2_def b_def)
  moreover have "same_ids s s2" using s1(5) by (simp add: same_ids_def s2_def)
  ultimately show thesis using that s1(3,6,7) by (simp add: s2_def b_def)
qed

text \<open>The whole interrupt, also in the middle of an operation.\<close>

lemma timer_interrupt_sim:
  assumes "ticking s a D" "a_cur a \<notin> set (a_sleeping a)"
  shows "\<exists>s'. timer_interrupt s = Some (Inr (True, s')) \<and> ticking s' (a_timer a) D \<and> irq s' = irq s \<and>
    same_ids s s' \<and>
    idle_ticks s' = (if a_cur a = a_idle a then idle_ticks s + 1 else idle_ticks s) \<and>
    kernel_ticks s' = (if a_cur a = a_idle a then kernel_ticks s else kernel_ticks s + 1)"
proof -
  define b where "b = a_tick (a\<lparr>a_now := a_now a + 1\<rparr>)"
  obtain s1 where s1: "timer_interrupt s = bindR (remover_thread_durmiente (a_now a + 1) s1) (\<lambda>s. Some (Inr (True, s)))"
    "ticking s1 b D" "irq s1 = irq s" "same_ids s s1"
    "idle_ticks s1 = (if a_cur a = a_idle a then idle_ticks s + 1 else idle_ticks s)"
    "kernel_ticks s1 = (if a_cur a = a_idle a then kernel_ticks s else kernel_ticks s + 1)"
    unfolding b_def by (rule timer_interrupt_charge [OF assms(1)])
  have "a_cur b \<notin> set (a_sleeping b)" using assms(2) by (simp add: b_def a_tick_def)
  then obtain s2 where s2: "remover_thread_durmiente (a_now a + 1) s1 = Some (Inr s2)"
    "ticking s2 (a_wake_up (a_now a + 1) b) D" "frame s1 s2" "irq s2 = irq s1"
    by (rule remover_sim [OF s1(2)])
  have "a_wake_up (a_now a + 1) b = a_timer a" by (simp add: a_timer_def b_def a_tick_def Let_def)
  moreover have "same_ids s s2" using same_ids_trans [OF s1(4) frame_same_ids [OF s2(3)]] .
  moreover have "idle_ticks s2 = idle_ticks s1" "kernel_ticks s2 = kernel_ticks s1" using s2(3) by (simp_all add: frame_def)
  ultimately show ?thesis using s1 s2 by simp
qed

lemma timer_wf: "sched_wf a \<Longrightarrow> sched_wf (a_timer a)"
  by (auto simp: a_timer_def a_tick_def a_wake_up_def Let_def sched_wf_def)

lemma timer_interrupt_refines:
  assumes "refines s a"
  shows "\<exists>s'. timer_interrupt s = Some (Inr (True, s')) \<and> refines s' (a_timer a) \<and> irq s' = irq s \<and>
    same_ids s s' \<and>
    idle_ticks s' = (if a_cur a = a_idle a then idle_ticks s + 1 else idle_ticks s) \<and>
    kernel_ticks s' = (if a_cur a = a_idle a then kernel_ticks s else kernel_ticks s + 1)"
proof -
  have r: "ticking s a (set (a_all a))" "sched_wf a" using assms by (simp_all add: refines_ticking)
  then have "a_cur a \<notin> set (a_sleeping a)" by (simp add: sched_wf_def)
  with timer_interrupt_sim [OF r(1)] timer_wf [OF r(2)] show ?thesis
    by (simp add: refines_ticking a_timer_def a_tick_def a_wake_up_def Let_def)
qed

section \<open>What the abstract steps leave alone\<close>

lemma a_exit_fields [simp]:
  "a_mode (a_exit a) = a_mode a" "a_quantum (a_exit a) = a_quantum a" "a_exit_req (a_exit a) = a_exit_req a"
  "a_dur (a_exit a) = a_dur a" "a_wake (a_exit a) = a_wake a" "a_idle (a_exit a) = a_idle a"
  "a_initial (a_exit a) = a_initial a" "a_sleeping (a_exit a) = a_sleeping a" "a_now (a_exit a) = a_now a"
  by (simp_all add: a_exit_def a_yield_def a_dispatch_alt)

lemma a_yield_fields [simp]:
  "a_mode (a_yield a) = a_mode a" "a_quantum (a_yield a) = a_quantum a" "a_exit_req (a_yield a) = a_exit_req a"
  "a_dur (a_yield a) = a_dur a" "a_wake (a_yield a) = a_wake a" "a_idle (a_yield a) = a_idle a"
  "a_initial (a_yield a) = a_initial a" "a_sleeping (a_yield a) = a_sleeping a" "a_now (a_yield a) = a_now a"
  by (simp_all add: a_yield_def a_dispatch_alt)

lemma a_block_fields [simp]:
  "a_mode (a_block_if_idle a) = a_mode a" "a_quantum (a_block_if_idle a) = a_quantum a"
  "a_exit_req (a_block_if_idle a) = a_exit_req a" "a_dur (a_block_if_idle a) = a_dur a"
  "a_wake (a_block_if_idle a) = a_wake a" "a_idle (a_block_if_idle a) = a_idle a"
  "a_initial (a_block_if_idle a) = a_initial a" "a_sleeping (a_block_if_idle a) = a_sleeping a"
  "a_now (a_block_if_idle a) = a_now a" "a_all (a_block_if_idle a) = a_all a"
  by (simp_all add: a_block_if_idle_def a_dispatch_alt)

lemma a_policy_fields [simp]:
  "a_mode (a_policy a) = a_mode a" "a_quantum (a_policy a) = a_quantum a" "a_exit_req (a_policy a) = a_exit_req a"
  "a_dur (a_policy a) = a_dur a" "a_wake (a_policy a) = a_wake a" "a_idle (a_policy a) = a_idle a"
  "a_initial (a_policy a) = a_initial a" "a_sleeping (a_policy a) = a_sleeping a" "a_now (a_policy a) = a_now a"
  by (simp_all add: a_policy_def)

lemma a_after_fields [simp]:
  "a_mode (a_after_interrupt a) = a_mode a" "a_quantum (a_after_interrupt a) = a_quantum a"
  "a_dur (a_after_interrupt a) = a_dur a" "a_wake (a_after_interrupt a) = a_wake a"
  "a_idle (a_after_interrupt a) = a_idle a" "a_initial (a_after_interrupt a) = a_initial a"
  "a_sleeping (a_after_interrupt a) = a_sleeping a" "a_now (a_after_interrupt a) = a_now a"
  by (simp_all add: a_after_interrupt_def a_forced_exit_def)

lemma a_timer_fields [simp]:
  "a_mode (a_timer a) = a_mode a" "a_quantum (a_timer a) = a_quantum a" "a_exit_req (a_timer a) = a_exit_req a"
  "a_wake (a_timer a) = a_wake a" "a_idle (a_timer a) = a_idle a" "a_initial (a_timer a) = a_initial a"
  "a_now (a_timer a) = a_now a + 1" "a_cur (a_timer a) = a_cur a" "a_used (a_timer a) = a_used a + 1"
  "a_all (a_timer a) = a_all a" "a_dur (a_timer a) = (a_dur a)(a_cur a := a_dur a (a_cur a) - 1)"
  by (simp_all add: a_timer_def a_wake_up_def a_tick_def Let_def)

lemma a_timer_ready:
  "a_ready (a_timer a) = a_ready a @ filter (\<lambda>t. a_wake a t \<le> int_to_u64 (a_now a + 1)) (a_sleeping a)"
  "a_sleeping (a_timer a) = filter (\<lambda>t. \<not> a_wake a t \<le> int_to_u64 (a_now a + 1)) (a_sleeping a)"
  by (simp_all add: a_timer_def a_wake_up_def a_tick_def Let_def a_expired_def [abs_def])

lemma a_after_no_request:
  "a_exit_req a = 0 \<Longrightarrow> a_after_interrupt a = a_policy (a_block_if_idle a)"
  by (simp add: a_after_interrupt_def a_forced_exit_def)

end
