(* ===== verification/Kernel_Run.thy ===== *)
theory Kernel_Run
  imports Main_Loop
begin

text \<open>
  Runs of the kernel.  An event is one call into the kernel: an iteration of the main loop, a timer
  interrupt between two operations, or an operation that a test performs.  The interface between
  the pointer program and the abstract scheduler is the locale \<open>simulation\<close>; interpreted on the
  kernel it gives that every run returns and ends in a state related to the abstract run.
\<close>

section \<open>The interface: a forward simulation\<close>

primrec run_events :: "('e \<Rightarrow> 's \<Rightarrow> (error + 's) option) \<Rightarrow> 'e list \<Rightarrow> 's \<Rightarrow> (error + 's) option" where
  "run_events f [] c = Some (Inr c)"
| "run_events f (e # es) c = bindR (f e c) (run_events f es)"

primrec guarded :: "('e \<Rightarrow> 'a \<Rightarrow> bool) \<Rightarrow> ('e \<Rightarrow> 'a \<Rightarrow> 'a) \<Rightarrow> 'e list \<Rightarrow> 'a \<Rightarrow> bool" where
  "guarded g f [] a = True"
| "guarded g f (e # es) a = (g e a \<and> guarded g f es (f e a))"

lemma run_events_append: "run_events f (es @ fs) = (\<lambda>c. bindR (run_events f es c) (run_events f fs))"
  by (induction es) (auto simp: bindR_assoc)

lemma guarded_append: "guarded g f (es @ fs) a = (guarded g f es a \<and> guarded g f fs (fold f es a))"
  by (induction es arbitrary: a) simp_all

locale simulation =
  fixes cstep :: "'e \<Rightarrow> 'c \<Rightarrow> (error + 'c) option"
    and astep :: "'e \<Rightarrow> 'a \<Rightarrow> 'a"
    and guard :: "'e \<Rightarrow> 'a \<Rightarrow> bool"
    and R :: "'c \<Rightarrow> 'a \<Rightarrow> bool"
  assumes step: "R c a \<Longrightarrow> guard e a \<Longrightarrow> \<exists>c'. cstep e c = Some (Inr c') \<and> R c' (astep e a)"
begin

lemma run_simulates:
  "R c a \<Longrightarrow> guarded guard astep es a \<Longrightarrow>
   \<exists>c'. run_events cstep es c = Some (Inr c') \<and> R c' (fold astep es a)"
proof (induction es arbitrary: c a)
  case (Cons e es)
  obtain c' where "cstep e c = Some (Inr c')" "R c' (astep e a)"
    using step [OF Cons.prems(1)] Cons.prems(2) by auto
  with Cons show ?case by auto
qed simp

text \<open>An invariant of the abstract steps holds of whatever the concrete run ends in.\<close>

lemma run_invariant:
  assumes "\<And>e a. guard e a \<Longrightarrow> P a \<Longrightarrow> P (astep e a)"
    and "R c a" "guarded guard astep es a" "P a"
  shows "\<exists>c' a'. run_events cstep es c = Some (Inr c') \<and> R c' a' \<and> P a'"
proof -
  have "P (fold astep es a)"
    using assms(3,4) by (induction es arbitrary: a) (auto simp: assms(1))
  with run_simulates [OF assms(2,3)] show ?thesis by blast
qed

end

section \<open>Events\<close>

datatype event =
    Loop                            \<comment> \<open>one iteration of the \<open>while (1)\<close> of \<open>main\<close>\<close>
  | Tick                            \<comment> \<open>the repeating timer fires\<close>
  | Create tptr cstr u32 u32 s32    \<comment> \<open>\<open>thread_create\<close>, with the address that \<open>calloc\<close> returns\<close>
  | Sleep s32                       \<comment> \<open>\<open>thread_sleep\<close> by the current thread\<close>
  | Yield
  | Exit_request                    \<comment> \<open>\<open>set_thread_exit_on_return\<close>\<close>
  | Set_quantum s32 s32

text \<open>The kernel call of an event, the interrupt primitives of the SDK being \<open>sd\<close>.\<close>

fun kernel_event :: "sdk \<Rightarrow> event \<Rightarrow> kernel \<Rightarrow> (error + kernel) option" where
  "kernel_event sd Loop s = Some (after_interrupt sd s)"
| "kernel_event sd Tick s = bindR (timer_interrupt s) (\<lambda>(_, s). Some (Inr s))"
| "kernel_event sd (Create t nm f ax d) s = Some (bindE (thread_create sd t nm f ax d s) (\<lambda>(_, s). Inr s))"
| "kernel_event sd (Sleep n) s = Some (thread_sleep sd n s)"
| "kernel_event sd Yield s = Some (thread_yield sd s)"
| "kernel_event sd Exit_request s = Some (Inr (set_thread_exit_on_return s))"
| "kernel_event sd (Set_quantum m q) s = Some (Inr (schedule_set_quantum m q s))"

fun sched_event :: "event \<Rightarrow> sched \<Rightarrow> sched" where
  "sched_event Loop a = a_after_interrupt a"
| "sched_event Tick a = a_timer a"
| "sched_event (Create t nm f ax d) a = (if t = 0 then a else a_create t d a)"
| "sched_event (Sleep n) a = (if 0 < sint n then a_sleep n a else a)"
| "sched_event Yield a = a_yield a"
| "sched_event Exit_request a = a\<lparr>a_exit_req := 1\<rparr>"
| "sched_event (Set_quantum m q) a = a_set_quantum m q a"

text \<open>
  What the callers guarantee: \<open>calloc\<close> returns null or memory that is not in use, threads other
  than the idle thread are not created under its literal name, and the idle thread does not sleep.
\<close>

fun admissible :: "event \<Rightarrow> sched \<Rightarrow> bool" where
  "admissible (Create t nm f ax d) a \<longleftrightarrow> t \<notin> set (a_all a) \<and> nm \<noteq> NullStr \<and> nm \<noteq> StrLit ''idle''"
| "admissible (Sleep n) a \<longleftrightarrow> a_cur a \<noteq> a_idle a"
| "admissible _ a \<longleftrightarrow> True"

lemma thread_sleep_refines:
  assumes "refines s a" "a_cur a \<noteq> a_idle a"
  obtains s' where "thread_sleep sd n s = Inr s'" "refines s' (if 0 < sint n then a_sleep n a else a)"
    "keeps sd s s'"
proof (cases "0 < sint n")
  case True
  obtain th where th: "thread_current s = Inr (a_cur a)" "load_thread (a_cur a) s = Inr th"
    by (rule cur_duration [OF assms(1)])
  define s1 where "s1 = printf ''SLEEP thread %s - %d ticks.\<newline>'' [AStr (name th), AInt n] s"
  have "refines s1 a" using assms(1) by (simp add: s1_def)
  then obtain s' where "insertar_en_lista_espera sd n s1 = Inr s'" "refines s' (a_sleep n a)"
    "frame s1 s'" "irq_restoring sd \<Longrightarrow> irq s' = irq s1"
    using insertar_refines [where sd = sd and n = n] assms(2) by blast
  moreover from this(3,4) have "keeps sd s1 s'" by (simp add: keeps_def)
  ultimately show thesis using that th True by (simp add: thread_sleep_def s1_def)
next
  case False
  then show thesis
    using that assms(1) by (simp add: thread_sleep_def keeps_def)
qed

lemma create_event_refines:
  assumes "refines s a" "admissible (Create t nm f ax d) a"
  shows "\<exists>s'. kernel_event sd (Create t nm f ax d) s = Some (Inr s') \<and> refines s' (sched_event (Create t nm f ax d) a)"
proof (cases "t = 0")
  case True
  then show ?thesis using assms(1) by (simp add: thread_create_def calloc_thread_def)
next
  case False
  obtain s' where "thread_create sd t nm f ax d s = Inr (next_tid s, s')" "refines s' (a_create t d a)"
    using thread_create_refines [OF assms(1) False, where sd = sd and nm = nm and f = f and ax = ax and d = d] assms(2)
    by (metis admissible.simps(1))
  with False show ?thesis by simp
qed

lemma event_refines:
  assumes "refines s a" "admissible e a"
  shows "\<exists>s'. kernel_event sd e s = Some (Inr s') \<and> refines s' (sched_event e a)"
proof (cases e)
  case Loop
  then show ?thesis using after_interrupt_refines [OF assms(1), of sd] by auto
next
  case Tick
  then show ?thesis using timer_interrupt_refines [OF assms(1)] by auto
next
  case (Create t nm f ax d)
  then show ?thesis using create_event_refines assms by blast
next
  case (Sleep n)
  then show ?thesis
    using thread_sleep_refines [OF assms(1), where sd = sd and n = n] assms(2)
    by (metis admissible.simps(2) kernel_event.simps(4) sched_event.simps(4))
next
  case Yield
  then show ?thesis using yield_step [OF assms(1), of sd] by auto
next
  case Exit_request
  then show ?thesis using refines_exit_req [OF assms(1)] by (simp add: set_thread_exit_on_return_def)
next
  case (Set_quantum m q)
  then show ?thesis using set_quantum_refines [OF assms(1)] by simp
qed

interpretation kr: simulation "kernel_event sd" sched_event admissible refines for sd
  by unfold_locales (rule event_refines)

section \<open>Reachable states\<close>

text \<open>The conditions on the callers read off the kernel state.\<close>

fun kernel_admissible :: "event \<Rightarrow> kernel \<Rightarrow> bool" where
  "kernel_admissible (Create t nm f ax d) s \<longleftrightarrow> threads s t = None \<and> nm \<noteq> NullStr \<and> nm \<noteq> StrLit ''idle''"
| "kernel_admissible (Sleep n) s \<longleftrightarrow> thread_running_var s \<noteq> idle_thread s"
| "kernel_admissible _ s \<longleftrightarrow> True"

fun creates :: "event \<Rightarrow> nat" where
  "creates (Create t nm f ax d) = (if t = 0 then 0 else 1)"
| "creates _ = 0"

text \<open>\<open>reachable sd n s\<close>: from a start of the kernel, \<open>s\<close> is reached by events and output with \<open>n\<close> thread ids handed out.\<close>

inductive reachable :: "sdk \<Rightarrow> nat \<Rightarrow> kernel \<Rightarrow> bool" for sd :: sdk where
  start: "booting s0 \<Longrightarrow> t \<noteq> 0 \<Longrightarrow> t \<noteq> running_thread_init s0 \<Longrightarrow> thread_init s0 = Inr s1 \<Longrightarrow>
     thread_start sd t f s1 = Inr s \<Longrightarrow> reachable sd 2 s"
| event: "reachable sd n s \<Longrightarrow> kernel_admissible e s \<Longrightarrow> kernel_event sd e s = Some (Inr s') \<Longrightarrow>
     reachable sd (n + creates e) s'"
| prints: "reachable sd n s \<Longrightarrow> reachable sd n (printf fmt args s)"

inductive_cases reachableE: "reachable sd n s"

lemma admissible_iff:
  assumes "refines s a"
  shows "kernel_admissible e s = admissible e a"
proof -
  note S = refinesD(1) [OF assms]
  have "dom (threads s) = set (a_all a)" using simD(1) [OF S] by (simp add: lists_ok_def)
  then have "threads s t = None \<longleftrightarrow> t \<notin> set (a_all a)" for t by auto
  then show ?thesis using simD(2,3) [OF S] by (cases e) simp_all
qed

lemma reachable_refines:
  assumes "reachable sd n s"
  shows "\<exists>a. refines s a"
  using assms
proof induction
  case (start s0 t s1 f s)
  obtain s0' s' where "thread_init s0 = Inr s0'" "thread_start sd t f s0' = Inr s'"
    "refines s' (a_boot (running_thread_init s0) t s0)"
    by (rule boot_refines [OF start(1-3)])
  with start(4,5) show ?case by auto
next
  case (event n s e s')
  then obtain a where a: "refines s a" by blast
  obtain s'' where "kernel_event sd e s = Some (Inr s'')" "refines s'' (sched_event e a)"
    using event_refines [OF a] event(2) admissible_iff [OF a] by blast
  with event(3) show ?case by auto
next
  case (prints n s fmt args)
  then show ?case by simp
qed

text \<open>The lists in memory determine the queues of the abstract state.\<close>

lemma refines_lists:
  assumes "refines s a"
  shows "is_list (links s) (hdr Ready_list) (map Elem rs) \<Longrightarrow> rs = a_ready a"
    "is_list (links s) (hdr Lista_espera) (map Elem ws) \<Longrightarrow> ws = a_sleeping a"
    "is_list (links s) (hdr All_list) (map AllElem al) \<Longrightarrow> al = a_all a"
  using is_list_unique [OF _ lists_okD(1) [OF simD(1) [OF refinesD(1) [OF assms]]]]
    is_list_unique [OF _ lists_okD(2) [OF simD(1) [OF refinesD(1) [OF assms]]]]
    is_list_unique [OF _ lists_okD(3) [OF simD(1) [OF refinesD(1) [OF assms]]]]
  by (fastforce simp: inj_map_eq_map inj_def)+

lemma refines_allocated:
  assumes "refines s a" "t \<in> set (a_all a)"
  shows "\<exists>th. threads s t = Some th \<and> duration_ticks th = a_dur a t \<and> sleep_time th = a_wake a t"
  by (rule sim_thread [OF refinesD(1) [OF assms(1)] assms(2)]) blast

lemma refines_threads:
  assumes "refines s a" "threads s t = Some th"
  shows "t \<in> set (a_all a)" "t \<noteq> 0" "duration_ticks th = a_dur a t" "sleep_time th = a_wake a t"
    "if t = a_cur a then status th = THREAD_RUNNING else status_ok a t (status th)"
proof -
  note R = refinesD [OF assms(1)]
  have t: "t \<in> set (a_all a)" using assms(2) simD(1) [OF R(1)] by (auto simp: lists_ok_def dom_def)
  obtain th' where th': "threads s t = Some th'" "t \<noteq> 0" "duration_ticks th' = a_dur a t" "sleep_time th' = a_wake a t"
    "t \<noteq> a_cur a \<Longrightarrow> status_ok a t (status th')"
    by (rule sim_thread [OF R(1) t]) blast
  moreover have "t = a_cur a \<Longrightarrow> status th = THREAD_RUNNING"
    using assms(2) R(3) simD(2) [OF R(1)] by (simp add: cur_status_def)
  ultimately show "t \<in> set (a_all a)" "t \<noteq> 0" "duration_ticks th = a_dur a t" "sleep_time th = a_wake a t"
    "if t = a_cur a then status th = THREAD_RUNNING else status_ok a t (status th)"
    using assms(2) t by auto
qed

section \<open>Thread identifiers\<close>

text \<open>The identifiers in use were handed out, and no two threads share one before the counter wraps.\<close>

definition ids_ok :: "nat \<Rightarrow> kernel \<Rightarrow> bool" where
  "ids_ok n s \<longleftrightarrow> next_tid s = of_nat (n + 1) \<and>
     (\<forall>t th. threads s t = Some th \<longrightarrow> tid th \<in> of_nat ` {1..n}) \<and>
     (\<forall>t u th uh. threads s t = Some th \<longrightarrow> threads s u = Some uh \<longrightarrow> tid th = tid uh \<longrightarrow> t = u)"

lemma ids_ok_same: "ids_ok n s \<Longrightarrow> same_ids s s' \<Longrightarrow> ids_ok n s'"
  unfolding ids_ok_def same_ids_def by metis

lemma fresh_id:
  assumes "n + 1 < 2 ^ 32"
  shows "(of_nat (n + 1) :: s32) \<notin> of_nat ` {1..n}"
proof
  assume "(of_nat (n + 1) :: s32) \<in> of_nat ` {1..n}"
  then obtain k where "k \<le> n" "(of_nat (n + 1) :: s32) = of_nat k" by auto
  moreover have "unat (of_nat m :: s32) = m" if "m < 2 ^ 32" for m
    using that by (simp add: unat_of_nat take_bit_nat_eq_self)
  ultimately have "n + 1 = k"
    using assms by (metis add_lessD1 le_less_trans)
  with \<open>k \<le> n\<close> show False by simp
qed

lemma ids_ok_new:
  assumes "ids_ok n s" "n + 1 < 2 ^ 32" "tid x = next_tid s"
  shows "ids_ok (n + 1) (s\<lparr>next_tid := next_tid s + 1, threads := (threads s)(t \<mapsto> x)\<rparr>)"
proof -
  have new: "tid x = of_nat (n + 1)" using assms(1,3) by (simp add: ids_ok_def)
  have "(of_nat (n + 1) :: s32) \<notin> of_nat ` {1..n}" by (rule fresh_id [OF assms(2)])
  then have "threads s u = Some th \<Longrightarrow> tid th \<noteq> tid x" for u th
    using assms(1) new unfolding ids_ok_def by metis
  moreover have "next_tid s + 1 = of_nat (n + 1 + 1)" using assms(1) by (simp add: ids_ok_def)
  moreover have "tid x \<in> of_nat ` {1..n + 1}" unfolding new by (rule imageI) simp
  moreover have "threads s u = Some th \<Longrightarrow> tid th \<in> of_nat ` {1..n + 1}" for u th
    using assms(1) unfolding ids_ok_def by fastforce
  ultimately show ?thesis
    using assms(1) unfolding ids_ok_def by (auto split: if_splits)
qed

text \<open>Only a tick and a creation go beyond \<^const>\<open>frame\<close>.\<close>

lemma event_frame:
  assumes a: "refines s a" "admissible e a" and run: "kernel_event sd e s = Some (Inr s')"
    and e: "e \<noteq> Tick" "creates e = 0"
  shows "frame s s'"
proof (cases e)
  case Loop
  then show ?thesis
    using after_interrupt_refines [OF a(1), of sd] run by (auto simp: keeps_def)
next
  case Tick
  with e show ?thesis by simp
next
  case (Create t nm f ax d)
  with e run show ?thesis by (simp add: thread_create_def calloc_thread_def split: if_splits)
next
  case (Sleep k)
  obtain s1 where "thread_sleep sd k s = Inr s1" "keeps sd s s1"
    by (rule thread_sleep_refines [OF a(1), where sd = sd and n = k]) (use a(2) Sleep in auto)
  with Sleep run show ?thesis by (simp add: keeps_def)
next
  case Yield
  then show ?thesis using yield_step [OF a(1), of sd] run by (auto simp: keeps_def)
next
  case Exit_request
  with run show ?thesis by (auto simp: set_thread_exit_on_return_def frame_def)
next
  case (Set_quantum m q)
  with run show ?thesis by (auto simp: schedule_set_quantum_def frame_def split: if_splits)
qed

lemma create_event:
  assumes "refines s a" "admissible (Create t nm f ax d) a" "t \<noteq> 0"
    and "kernel_event sd (Create t nm f ax d) s = Some (Inr s')"
  shows "same_ids (s\<lparr>next_tid := next_tid s + 1, threads := (threads s)(t \<mapsto> created_record t nm (next_tid s) d)\<rparr>) s'"
    "idle_ticks s' = idle_ticks s" "kernel_ticks s' = kernel_ticks s"
proof -
  obtain s1 where "thread_create sd t nm f ax d s = Inr (next_tid s, s1)"
    "same_ids (s\<lparr>next_tid := next_tid s + 1, threads := (threads s)(t \<mapsto> created_record t nm (next_tid s) d)\<rparr>) s1"
    "idle_ticks s1 = idle_ticks s" "kernel_ticks s1 = kernel_ticks s"
    by (rule thread_create_refines [OF assms(1,3), where sd = sd and nm = nm and f = f and ax = ax and d = d])
      (use assms(2) in auto)
  with assms(4) show "same_ids (s\<lparr>next_tid := next_tid s + 1, threads := (threads s)(t \<mapsto> created_record t nm (next_tid s) d)\<rparr>) s'"
    "idle_ticks s' = idle_ticks s" "kernel_ticks s' = kernel_ticks s"
    by auto
qed

lemma creates_cases:
  obtains (new) t nm f ax d where "e = Create t nm f ax d" "t \<noteq> 0" "creates e = 1" | (old) "creates e = 0"
proof (cases "creates e = 0")
  case False
  then obtain t nm f ax d where "e = Create t nm f ax d" "t \<noteq> 0" "creates e = 1"
    by (cases e) (auto split: if_splits)
  then show thesis by (rule new)
qed (rule old)

lemma event_ids:
  assumes a: "refines s a" "admissible e a" and run: "kernel_event sd e s = Some (Inr s')"
    and ids: "ids_ok n s" "n + creates e < 2 ^ 32"
  shows "ids_ok (n + creates e) s'"
proof (cases e rule: creates_cases)
  case (new t nm f ax d)
  have "tid (created_record t nm (next_tid s) d) = next_tid s"
    by (simp add: created_record_def)
  then have "ids_ok (n + 1) s'"
    by (intro ids_ok_same [OF ids_ok_new [OF ids(1)] create_event(1) [OF a(1) _ new(2)]])
      (use ids(2) run a(2) new in auto)
  then show ?thesis using new(3) by simp
next
  case old
  have "same_ids s s'"
    using timer_interrupt_refines [OF a(1)] run event_frame [OF a run _ old]
    by (cases "e = Tick") (auto simp: frame_same_ids)
  then show ?thesis using ids_ok_same [OF ids(1)] old by simp
qed

lemma boot_ids:
  assumes "booting s0" "t \<noteq> 0" "t \<noteq> running_thread_init s0"
    and "thread_init s0 = Inr s1" "thread_start sd t f s1 = Inr s"
  shows "ids_ok 2 s"
proof -
  define m where "m = running_thread_init s0"
  obtain s0' s' where s': "thread_init s0 = Inr s0'" "thread_start sd t f s0' = Inr s'"
    "refines s' (a_boot m t s0)" "next_tid s' = 3"
    "map_option tid (threads s' m) = Some 1" "map_option tid (threads s' t) = Some 2"
    unfolding m_def by (rule boot_refines [OF assms(1-3)])
  have "dom (threads s') = {m, t}"
    using simD(1) [OF refinesD(1) [OF s'(3)]] by (simp add: lists_ok_def a_boot_def)
  then have "threads s' u = Some th \<Longrightarrow> u = m \<and> tid th = 1 \<or> u = t \<and> tid th = 2" for u th
  proof -
    assume u: "threads s' u = Some th"
    with \<open>dom (threads s') = {m, t}\<close> have "u = m \<or> u = t" by blast
    with u s'(5,6) show ?thesis by auto
  qed
  moreover have "(of_nat ` {1..2} :: s32 set) = {1, 2}"
    by (simp add: atLeastAtMost_insertL [symmetric] numeral_2_eq_2 atLeastAtMostSuc_conv)
  ultimately have "ids_ok 2 s'"
    unfolding ids_ok_def s'(4) by (auto; fastforce)
  with s'(1,2) assms(4,5) show ?thesis by simp
qed

lemma reachable_ids:
  assumes "reachable sd n s" "n < 2 ^ 32"
  shows "ids_ok n s"
  using assms
proof induction
  case (start s0 t s1 f s)
  then show ?case by (blast intro: boot_ids)
next
  case (event n s e s')
  then obtain a where a: "refines s a" using reachable_refines by blast
  show ?case
    by (rule event_ids [OF a]) (use event admissible_iff [OF a] in auto)
next
  case (prints n s fmt args)
  then show ?case by (simp add: ids_ok_def)
qed

section \<open>Tick statistics\<close>

text \<open>The two statistics add up to the number of timer interrupts.\<close>

definition ticks_ok :: "kernel \<Rightarrow> bool" where
  "ticks_ok s \<longleftrightarrow> ticks s = ucast (idle_ticks s + kernel_ticks s)"

lemma a_now_event: "e \<noteq> Tick \<Longrightarrow> a_now (sched_event e a) = a_now a"
  by (cases e) (simp_all add: a_create_def a_sleep_def a_dispatch_alt a_set_quantum_def)

lemma event_ticks:
  assumes a: "refines s a" "admissible e a" and run: "kernel_event sd e s = Some (Inr s')" and ok: "ticks_ok s"
  shows "ticks_ok s'"
proof -
  have now: "ticks s = a_now a" using simD(6) [OF refinesD(1) [OF a(1)]] .
  have r: "refines s' (sched_event e a)" using event_refines [OF a, of sd] run by auto
  have now': "ticks s' = a_now (sched_event e a)" using simD(6) [OF refinesD(1) [OF r]] .
  show ?thesis
  proof (cases "e = Tick")
    case True
    obtain u where "timer_interrupt s = Some (Inr (True, u))"
      "idle_ticks u = (if a_cur a = a_idle a then idle_ticks s + 1 else idle_ticks s)"
      "kernel_ticks u = (if a_cur a = a_idle a then kernel_ticks s else kernel_ticks s + 1)"
      using timer_interrupt_refines [OF a(1)] by blast
    moreover from this(1) have "u = s'" using run True by simp
    ultimately have "idle_ticks s' + kernel_ticks s' = idle_ticks s + kernel_ticks s + 1"
      by (simp split: if_splits)
    moreover have "ticks s' = ticks s + 1"
      using now now' True by (simp add: a_timer_def a_wake_up_def a_tick_def Let_def)
    ultimately show ?thesis using ok by (simp add: ticks_ok_def ucast_plus_one)
  next
    case False
    have "idle_ticks s' = idle_ticks s \<and> kernel_ticks s' = kernel_ticks s"
    proof (cases e rule: creates_cases)
      case (new t nm f ax d)
      then show ?thesis using create_event(2,3) [OF a(1) _ new(2)] run a(2) by blast
    next
      case old
      then show ?thesis using event_frame [OF a run False] by (simp add: frame_def)
    qed
    then show ?thesis using ok now now' a_now_event [OF False] by (simp add: ticks_ok_def)
  qed
qed

lemma reachable_ticks:
  assumes "reachable sd n s"
  shows "ticks_ok s"
  using assms
proof induction
  case (start s0 t s1 f s)
  obtain s0' s' where s': "thread_init s0 = Inr s0'" "thread_start sd t f s0' = Inr s'"
    "refines s' (a_boot (running_thread_init s0) t s0)" "idle_ticks s' = 0" "kernel_ticks s' = 0"
    by (rule boot_refines [OF start(1-3)])
  have "ticks s' = 0"
    using simD(6) [OF refinesD(1) [OF s'(3)]] start(1) by (simp add: a_boot_def booting_def)
  with s' start(4,5) show ?case by (simp add: ticks_ok_def)
next
  case (event n s e s')
  then obtain a where a: "refines s a" using reachable_refines by blast
  show ?case
    by (rule event_ticks [OF a]) (use event admissible_iff [OF a] in auto)
next
  case (prints n s fmt args)
  then show ?case by (simp add: ticks_ok_def)
qed

section \<open>The interrupt mask\<close>

lemma event_irq:
  assumes "refines s a" "admissible e a" "irq_restoring sd" "kernel_event sd e s = Some (Inr s')"
  shows "irq s' = irq s"
proof (cases e)
  case Loop
  then show ?thesis using after_interrupt_refines [OF assms(1), of sd] assms(3,4) by (auto simp: keeps_def)
next
  case Tick
  then show ?thesis using timer_interrupt_refines [OF assms(1)] assms(4) by auto
next
  case (Create t nm f ax d)
  show ?thesis
  proof (cases "t = 0")
    case True
    with Create assms(4) show ?thesis by (simp add: thread_create_def calloc_thread_def)
  next
    case False
    obtain s1 where "thread_create sd t nm f ax d s = Inr (next_tid s, s1)" "irq_restoring sd \<Longrightarrow> irq s1 = irq s"
      by (rule thread_create_refines [OF assms(1) False, where sd = sd and nm = nm and f = f and ax = ax and d = d])
        (use assms(2) Create in auto)
    with Create assms(3,4) show ?thesis by simp
  qed
next
  case (Sleep k)
  obtain s1 where "thread_sleep sd k s = Inr s1" "keeps sd s s1"
    by (rule thread_sleep_refines [OF assms(1), where sd = sd and n = k]) (use assms(2) Sleep in auto)
  with Sleep assms(3,4) show ?thesis by (simp add: keeps_def)
next
  case Yield
  then show ?thesis using yield_step [OF assms(1), of sd] assms(3,4) by (auto simp: keeps_def)
next
  case Exit_request
  with assms(4) show ?thesis by (auto simp: set_thread_exit_on_return_def)
next
  case (Set_quantum m q)
  with assms(4) show ?thesis by (auto simp: schedule_set_quantum_def split: if_splits)
qed

section \<open>Runs from the start\<close>

text \<open>The callers' conditions along a run of the kernel.\<close>

primrec kernel_guarded :: "sdk \<Rightarrow> event list \<Rightarrow> kernel \<Rightarrow> bool" where
  "kernel_guarded sd [] s \<longleftrightarrow> True"
| "kernel_guarded sd (e # es) s \<longleftrightarrow> kernel_admissible e s \<and>
     (case kernel_event sd e s of Some (Inr s') \<Rightarrow> kernel_guarded sd es s' | _ \<Rightarrow> False)"

lemma kernel_guarded_iff:
  "refines s a \<Longrightarrow> kernel_guarded sd es s = guarded admissible sched_event es a"
proof (induction es arbitrary: s a)
  case (Cons e es)
  show ?case
  proof (cases "admissible e a")
    case True
    then obtain s' where "kernel_event sd e s = Some (Inr s')" "refines s' (sched_event e a)"
      using event_refines [OF Cons.prems] by blast
    with Cons.IH True admissible_iff [OF Cons.prems] show ?thesis by simp
  qed (simp add: admissible_iff [OF Cons.prems])
qed simp

lemma reachable_run:
  "reachable sd n s \<Longrightarrow> kernel_guarded sd es s \<Longrightarrow>
   \<exists>s'. run_events (kernel_event sd) es s = Some (Inr s') \<and> reachable sd (n + sum_list (map creates es)) s'"
proof (induction es arbitrary: n s)
  case (Cons e es)
  then obtain s' where s': "kernel_event sd e s = Some (Inr s')" "kernel_guarded sd es s'"
    by (auto split: option.splits sum.splits)
  have "reachable sd (n + creates e) s'"
    by (rule reachable.event [OF Cons.prems(1) _ s'(1)]) (use Cons.prems(2) in simp)
  from Cons.IH [OF this s'(2)] s'(1) show ?case by (auto simp: add.assoc)
qed auto

lemma run_irq:
  "refines s a \<Longrightarrow> guarded admissible sched_event es a \<Longrightarrow> irq_restoring sd \<Longrightarrow>
   run_events (kernel_event sd) es s = Some (Inr s') \<Longrightarrow> irq s' = irq s"
proof (induction es arbitrary: s a)
  case (Cons e es)
  then have g: "admissible e a" "guarded admissible sched_event es (sched_event e a)" by simp_all
  obtain s1 where s1: "kernel_event sd e s = Some (Inr s1)" "refines s1 (sched_event e a)"
    using event_refines [OF Cons.prems(1) g(1)] by blast
  with Cons.IH [OF s1(2) g(2)] Cons.prems(3,4) event_irq [OF Cons.prems(1) g(1) Cons.prems(3) s1(1)] show ?case by simp
qed simp

lemma started:
  assumes "booting s0" "t \<noteq> 0" "t \<noteq> running_thread_init s0"
    and "guarded admissible sched_event es (a_boot (running_thread_init s0) t s0)"
  shows "\<exists>s. reachable sd (2 + sum_list (map creates es)) s \<and>
    refines s (fold sched_event es (a_boot (running_thread_init s0) t s0)) \<and> (irq_restoring sd \<longrightarrow> irq s = irq s0)"
proof -
  obtain s1 s where s: "thread_init s0 = Inr s1" "thread_start sd t 0 s1 = Inr s"
    "refines s (a_boot (running_thread_init s0) t s0)" "irq s = irq s0"
    by (rule boot_refines [OF assms(1-3)])
  have "reachable sd 2 s" by (rule reachable.start [OF assms(1-3) s(1,2)])
  moreover have "kernel_guarded sd es s" using kernel_guarded_iff [OF s(3)] assms(4) by blast
  ultimately obtain s' where "run_events (kernel_event sd) es s = Some (Inr s')"
    "reachable sd (2 + sum_list (map creates es)) s'"
    using reachable_run by blast
  with kr.run_simulates [OF s(3) assms(4), of sd] run_irq [OF s(3) assms(4), of sd] s(4) show ?thesis by auto
qed

end
