(* ===== verification/Policy.thy ===== *)
theory Policy
  imports Kernel_Run
begin

text \<open>
  What the scheduling policy guarantees over many rounds, a round being a timer interrupt followed
  by an iteration of the main loop: the time slice of round robin, the order of FIFO scheduling,
  freedom from starvation, and the duration of a sleep.  Each guarantee is proved of the abstract
  scheduler and carried to the kernel by the simulation.
\<close>

section \<open>Rounds\<close>

definition rounds :: "nat \<Rightarrow> event list" where
  "rounds k = concat (replicate k [Tick, Loop])"

definition a_round :: "sched \<Rightarrow> sched" where
  "a_round a = a_after_interrupt (a_timer a)"

lemma fold_rounds: "fold sched_event (rounds k) a = (a_round ^^ k) a"
  by (induction k arbitrary: a) (simp_all add: rounds_def a_round_def funpow_swap1)

lemma guarded_rounds: "guarded admissible sched_event (rounds k) a"
  by (induction k arbitrary: a) (simp_all add: rounds_def)

lemma rounds_simulated:
  assumes "refines s a"
  obtains s' where "run_events (kernel_event sd) (rounds k) s = Some (Inr s')" "refines s' ((a_round ^^ k) a)"
  using kr.run_simulates [OF assms guarded_rounds, of sd k] by (auto simp: fold_rounds)

section \<open>Round robin: the time slice\<close>

lemma slice_bound:
  assumes "a_mode a \<noteq> 0" "0 < a_quantum a"
  shows "a_used (a_after_interrupt a) < a_quantum a \<or> a_ready (a_after_interrupt a) = []"
proof -
  have p: "a_used (a_policy b) < a_quantum b \<or> a_ready (a_policy b) = []"
    if "a_mode b \<noteq> 0" "0 < a_quantum b" for b
    using that by (auto simp: a_policy_def a_exit_def a_yield_def a_dispatch_alt not_le)
  have f: "a_used (a_forced_exit c) < a_quantum c \<or> a_ready (a_forced_exit c) = []"
    if "a_used c < a_quantum c \<or> a_ready c = []" "0 < a_quantum c" for c
    using that by (auto simp: a_forced_exit_def a_exit_def a_yield_def a_dispatch_alt)
  show ?thesis
    using f [of "a_policy (a_block_if_idle a)"] p [of "a_block_if_idle a"] assms
    unfolding a_after_interrupt_def by simp
qed

text \<open>A thread that waits at position \<open>i\<close> of the ready queue.\<close>

definition waiting :: "u32 \<Rightarrow> tptr \<Rightarrow> nat \<Rightarrow> sched \<Rightarrow> bool" where
  "waiting q t i a \<longleftrightarrow> a_mode a \<noteq> 0 \<and> a_quantum a = q \<and> a_exit_req a = 0 \<and> 0 < sint (a_dur a t) \<and>
     a_cur a \<noteq> t \<and> i < length (a_ready a) \<and> a_ready a ! i = t"

lemma waiting_timer: "waiting q t i a \<Longrightarrow> waiting q t i (a_timer a)"
  by (auto simp: waiting_def a_timer_ready nth_append)

lemma waiting_append: "waiting q t i a \<Longrightarrow> waiting q t i (a\<lparr>a_ready := a_ready a @ us\<rparr>)"
  by (auto simp: waiting_def nth_append)

lemma waiting_all [simp]: "waiting q t i (a\<lparr>a_all := us\<rparr>) = waiting q t i a"
  by (simp add: waiting_def)

text \<open>A dispatch brings the thread one place closer, or makes it current.\<close>

lemma waiting_dispatch:
  "waiting q t i a \<Longrightarrow> a_cur (a_dispatch a) = t \<or> (\<exists>j<i. waiting q t j (a_dispatch a))"
  by (cases "a_ready a"; cases i) (auto simp: waiting_def a_dispatch_def)

text \<open>\<open>closer\<close>: the thread is current with a fresh slice, or waits closer to the front with a fresh slice.\<close>

definition closer :: "u32 \<Rightarrow> tptr \<Rightarrow> nat \<Rightarrow> sched \<Rightarrow> bool" where
  "closer q t i a \<longleftrightarrow> a_used a = 0 \<and> a_exit_req a = 0 \<and> a_mode a \<noteq> 0 \<and> a_quantum a = q \<and> 0 < sint (a_dur a t) \<and>
     (a_cur a = t \<or> (\<exists>j<i. waiting q t j a))"

lemma closer_dispatch: "waiting q t i a \<Longrightarrow> closer q t i (a_dispatch a)"
  using waiting_dispatch [of q t i a] by (auto simp: closer_def a_dispatch_alt waiting_def)

lemma waiting_nonempty: "waiting q t i a \<Longrightarrow> a_ready a \<noteq> []"
  by (auto simp: waiting_def)

lemma closer_yield: "waiting q t i a \<Longrightarrow> closer q t i (a_yield a)"
  by (simp add: a_yield_def waiting_nonempty closer_dispatch waiting_append)

lemma closer_exit: "waiting q t i a \<Longrightarrow> closer q t i (a_exit a)"
  by (simp add: a_exit_def closer_yield closer_dispatch)

lemma closer_mono: "closer q t i a \<Longrightarrow> i \<le> j \<Longrightarrow> closer q t j a"
  by (auto simp: closer_def)

lemma closer_policy:
  assumes "closer q t i a" "0 < q"
  shows "closer q t i (a_policy a)"
proof (cases "a_cur a = t")
  case True
  then show ?thesis using assms by (auto simp: closer_def a_policy_def)
next
  case False
  then obtain j where j: "j < i" "waiting q t j a" using assms(1) by (auto simp: closer_def)
  then show ?thesis
    using closer_mono [OF closer_exit [OF j(2)], of i] closer_mono [OF closer_yield [OF j(2)], of i] assms(1)
    by (auto simp: a_policy_def)
qed

text \<open>One round: a fresh slice closer to the front, or one more tick of the current slice.\<close>

lemma waiting_round:
  assumes w: "waiting q t i a" and used: "a_used a < q"
  shows "closer q t i (a_round a) \<or> waiting q t i (a_round a) \<and> a_used (a_round a) = a_used a + 1 \<and> a_used a + 1 < q"
proof -
  define b where "b = a_timer a"
  have b: "waiting q t i b" "a_used b = a_used a + 1" using waiting_timer [OF w] by (simp_all add: b_def)
  have q: "0 < q" using used by (metis le_less_trans word_zero_le)
  have r: "a_round a = a_policy (a_block_if_idle b)"
    using b(1) by (simp add: a_round_def b_def [symmetric] a_after_no_request waiting_def)
  show ?thesis
  proof (cases "a_cur b = a_idle b")
    case True
    then have "a_block_if_idle b = a_dispatch b" by (simp add: a_block_if_idle_def)
    then show ?thesis using closer_policy [OF closer_dispatch [OF b(1)] q] r by simp
  next
    case False
    then have "a_round a = a_policy b" using r by (simp add: a_block_if_idle_def)
    then show ?thesis
      using closer_exit [OF b(1)] closer_yield [OF b(1)] b waiting_nonempty [OF b(1)]
      by (auto simp: a_policy_def waiting_def not_le)
  qed
qed

text \<open>No starvation: the wait is at most one slice per thread ahead.\<close>

lemma no_starvation:
  assumes "waiting q t i a" "a_used a < q"
  shows "\<exists>k \<le> (i + 1) * unat q. a_cur ((a_round ^^ k) a) = t"
proof -
  have "\<exists>k \<le> n. a_cur ((a_round ^^ k) a) = t"
    if "waiting q t i a" "a_used a < q" "i * unat q + (unat q - unat (a_used a)) \<le> n" for n i a
    using that
  proof (induction n arbitrary: i a)
    case 0
    then show ?case by (simp add: word_less_nat_alt)
  next
    case (Suc n)
    have less: "unat (a_used a) < unat q" using Suc.prems(2) by (simp add: word_less_nat_alt)
    consider (closer) "closer q t i (a_round a)"
      | (tick) "waiting q t i (a_round a)" "a_used (a_round a) = a_used a + 1" "a_used a + 1 < q"
      using waiting_round [OF Suc.prems(1,2)] by blast
    then show ?case
    proof cases
      case closer
      show ?thesis
      proof (cases "a_cur (a_round a) = t")
        case True
        then show ?thesis by (intro exI [of _ 1]) simp
      next
        case False
        then obtain j where j: "j < i" "waiting q t j (a_round a)" "a_used (a_round a) = 0"
          using closer by (auto simp: closer_def)
        have "Suc j * unat q \<le> i * unat q" using j(1) by (intro mult_le_mono1) simp
        then have "j * unat q + (unat q - unat (a_used (a_round a))) \<le> n"
          using Suc.prems(3) less j(3) by simp
        moreover have "a_used (a_round a) < q" using j(3) less by (simp add: word_less_nat_alt)
        ultimately obtain k where "k \<le> n" "a_cur ((a_round ^^ k) (a_round a)) = t"
          using Suc.IH j(2) by blast
        then show ?thesis by (intro exI [of _ "Suc k"]) (simp add: funpow_swap1)
      qed
    next
      case tick
      have "unat (a_used a + 1) = unat (a_used a) + 1"
        by (rule unat_plus_one [OF Suc.prems(2)])
      then have "i * unat q + (unat q - unat (a_used (a_round a))) \<le> n"
        using Suc.prems(3) less tick(2) by simp
      then obtain k where "k \<le> n" "a_cur ((a_round ^^ k) (a_round a)) = t"
        using Suc.IH [OF tick(1)] tick(2,3) by auto
      then show ?thesis by (intro exI [of _ "Suc k"]) (simp add: funpow_swap1)
    qed
  qed
  from this [OF assms, of "(i + 1) * unat q"] show ?thesis by simp
qed

section \<open>FIFO: the current thread runs to completion\<close>

text \<open>\<open>running_fifo d t a\<close>: in FIFO mode \<open>t\<close> is current with \<open>d\<close> ticks to go.\<close>

definition running_fifo :: "nat \<Rightarrow> tptr \<Rightarrow> sched \<Rightarrow> bool" where
  "running_fifo d t a \<longleftrightarrow> a_mode a = 0 \<and> a_exit_req a = 0 \<and> a_cur a = t \<and> t \<noteq> a_idle a \<and> t \<noteq> a_initial a \<and>
     distinct (a_all a) \<and> sint (a_dur a t) = int d"

lemma fifo_round:
  assumes "running_fifo (Suc d) t a" "0 < d"
  shows "running_fifo d t (a_round a)" "a_round a = a_timer a"
proof -
  have "sint (a_dur a t - 1) = int d"
    using assms by (subst sint_minus_one) (auto simp: running_fifo_def)
  then have "running_fifo d t (a_timer a)" "0 < sint (a_dur (a_timer a) t)"
    using assms by (simp_all add: running_fifo_def)
  moreover from this show "a_round a = a_timer a"
    by (simp add: a_round_def a_after_no_request running_fifo_def a_block_if_idle_def a_policy_def)
  ultimately show "running_fifo d t (a_round a)" by simp
qed

lemma fifo_last_round:
  assumes "running_fifo (Suc 0) t a"
  shows "t \<notin> set (a_all (a_round a))" "a_cur (a_round a) = hd (a_ready (a_timer a) @ [a_idle a])"
proof -
  have "sint (a_dur a t - 1) = 0"
    using assms by (subst sint_minus_one) (auto simp: running_fifo_def)
  then have "a_round a = a_exit (a_timer a)"
    using assms by (simp add: a_round_def a_after_no_request running_fifo_def a_block_if_idle_def a_policy_def)
  then show "t \<notin> set (a_all (a_round a))" "a_cur (a_round a) = hd (a_ready (a_timer a) @ [a_idle a])"
    using assms by (auto simp: running_fifo_def a_exit_def a_dispatch_alt)
qed

lemma fifo_complete:
  assumes "running_fifo (Suc d) t a"
  shows "k \<le> d \<Longrightarrow> a_cur ((a_round ^^ k) a) = t" "t \<notin> set (a_all ((a_round ^^ Suc d) a))"
proof -
  have run: "running_fifo (Suc d - k) t ((a_round ^^ k) a)" if "k \<le> d" for k
    using that
  proof (induction k)
    case (Suc k)
    then have "running_fifo (Suc (Suc d - Suc k)) t ((a_round ^^ k) a)" by (simp add: Suc_diff_le)
    from fifo_round(1) [OF this] Suc.prems show ?case by simp
  qed (use assms in simp)
  show "k \<le> d \<Longrightarrow> a_cur ((a_round ^^ k) a) = t"
    using run [of k] by (simp add: running_fifo_def)
  have "running_fifo (Suc 0) t ((a_round ^^ d) a)" using run [of d] by simp
  then show "t \<notin> set (a_all ((a_round ^^ Suc d) a))" by (simp add: fifo_last_round)
qed

section \<open>Sleeping for exactly the requested number of ticks\<close>

lemma sleeping_event:
  assumes "sched_wf a" "admissible e a" "t \<in> set (a_sleeping a)" "e \<noteq> Tick"
  shows "t \<in> set (a_sleeping (sched_event e a))" "a_wake (sched_event e a) t = a_wake a t"
    "a_now (sched_event e a) = a_now a"
proof -
  have t: "t \<in> set (a_all a)" "t \<noteq> a_cur a" using assms(1,3) by (auto simp: sched_wf_def)
  show "t \<in> set (a_sleeping (sched_event e a))" "a_wake (sched_event e a) t = a_wake a t"
    "a_now (sched_event e a) = a_now a"
    using assms(2-4) t by (cases e; auto simp: a_create_def a_sleep_def a_dispatch_alt a_set_quantum_def)+
qed

lemma sleeping_tick:
  assumes "t \<in> set (a_sleeping a)"
  shows "t \<in> set (a_sleeping (a_timer a)) \<longleftrightarrow> \<not> a_wake a t \<le> int_to_u64 (a_now a + 1)"
    "a_wake a t \<le> int_to_u64 (a_now a + 1) \<Longrightarrow> t \<in> set (a_ready (a_timer a))"
  using assms by (auto simp: a_timer_ready)

definition ticks_in :: "event list \<Rightarrow> nat" where
  "ticks_in es = count_list es Tick"

lemma event_wf: "refines s a \<Longrightarrow> admissible e a \<Longrightarrow> \<exists>s'. refines s' (sched_event e a)"
  using event_refines by blast

text \<open>While fewer than the remaining number of ticks pass, whatever else happens, \<open>t\<close> stays asleep.\<close>

lemma stays_asleep:
  assumes "refines s a" "guarded admissible sched_event es a" "t \<in> set (a_sleeping a)"
    and "a_wake a t = int_to_u64 w" "0 \<le> sint (a_now a)" "sint (a_now a) + int (ticks_in es) < sint w"
  shows "t \<in> set (a_sleeping (fold sched_event es a)) \<and> a_wake (fold sched_event es a) t = int_to_u64 w \<and>
    sint (a_now (fold sched_event es a)) = sint (a_now a) + int (ticks_in es)"
  using assms
proof (induction es arbitrary: s a)
  case Nil
  then show ?case by (simp add: ticks_in_def)
next
  case (Cons e es)
  have adm: "admissible e a" using Cons.prems(2) by simp
  obtain s' where s': "refines s' (sched_event e a)" using event_wf [OF Cons.prems(1) adm] by blast
  have wf: "sched_wf a" using refinesD(2) [OF Cons.prems(1)] .
  have hi: "sint w < 2 ^ 31" using sint_lt [of w] by simp
  show ?case
  proof (cases "e = Tick")
    case True
    have now: "sint (a_now a + 1) = sint (a_now a) + 1"
      using Cons.prems(5,6) hi by (subst sint_plus) (simp_all add: ticks_in_def)
    have "\<not> a_wake a t \<le> int_to_u64 (a_now a + 1)"
      using Cons.prems(4-6) now True by (subst Cons.prems(4), subst int_to_u64_le_iff) (auto simp: ticks_in_def)
    then have "t \<in> set (a_sleeping (a_timer a))" using sleeping_tick(1) [OF Cons.prems(3)] by simp
    with Cons.IH [OF s'] Cons.prems now True show ?thesis by (simp add: ticks_in_def algebra_simps)
  next
    case False
    with Cons.IH [OF s'] Cons.prems sleeping_event [OF wf adm Cons.prems(3) False] show ?thesis
      by (simp add: ticks_in_def)
  qed
qed

lemma wakes_up:
  assumes "t \<in> set (a_sleeping a)" "a_wake a t = int_to_u64 w" "0 \<le> sint (a_now a)" "sint (a_now a) + 1 = sint w"
  shows "t \<in> set (a_ready (a_timer a))"
proof -
  have "sint (a_now a + 1) = sint (a_now a) + 1"
    using assms(3,4) sint_lt [of w] by (subst sint_plus) simp_all
  then show ?thesis
    using sleeping_tick(2) [OF assms(1)] assms(2-4) int_to_u64_le_iff [of w "a_now a + 1"] by simp
qed

text \<open>From the call of \<open>thread_sleep\<close> on.\<close>

lemma sleep_run:
  assumes a: "refines s a" and g: "guarded admissible sched_event (Sleep n # es) a"
    and n: "0 < sint n" "0 \<le> sint (a_now a)" "sint (a_now a) + sint n < 2 ^ 31" "int (ticks_in es) < sint n"
  shows "a_cur a \<in> set (a_sleeping (fold sched_event (Sleep n # es) a))"
    "a_wake (fold sched_event (Sleep n # es) a) (a_cur a) = int_to_u64 (a_now a + n)"
    "sint (a_now (fold sched_event (Sleep n # es) a)) = sint (a_now a) + int (ticks_in es)"
    "sint (a_now a + n) = sint (a_now a) + sint n"
proof -
  obtain s1 where s1: "refines s1 (a_sleep n a)"
    using event_wf [OF a, of "Sleep n"] g n(1) by auto
  have t: "a_cur a \<in> set (a_sleeping (a_sleep n a))" "a_wake (a_sleep n a) (a_cur a) = int_to_u64 (a_now a + n)"
    "a_now (a_sleep n a) = a_now a"
    by (simp_all add: a_sleep_def a_dispatch_alt)
  show w: "sint (a_now a + n) = sint (a_now a) + sint n"
    using n by (subst sint_plus) simp_all
  have g': "guarded admissible sched_event es (a_sleep n a)" using g n(1) by simp
  show "a_cur a \<in> set (a_sleeping (fold sched_event (Sleep n # es) a))"
    "a_wake (fold sched_event (Sleep n # es) a) (a_cur a) = int_to_u64 (a_now a + n)"
    "sint (a_now (fold sched_event (Sleep n # es) a)) = sint (a_now a) + int (ticks_in es)"
    using stays_asleep [OF s1 g' t(1,2)] n t(3) w by simp_all
qed

lemma sleeping_blocked:
  assumes "refines s a" "t \<in> set (a_sleeping a)"
  shows "\<exists>th. threads s t = Some th \<and> status th = THREAD_BLOCKED"
  using assms refines_allocated [OF assms(1), of t] refines_threads(5) [OF assms(1)] refinesD(2) [OF assms(1)]
  by (fastforce simp: sched_wf_def status_ok_def split: if_splits)

lemma ready_ready:
  assumes "refines s a" "t \<in> set (a_ready a)"
  shows "\<exists>th. threads s t = Some th \<and> status th = THREAD_READY"
  using assms refines_allocated [OF assms(1), of t] refines_threads(5) [OF assms(1)] refinesD(2) [OF assms(1)]
  by (fastforce simp: sched_wf_def status_ok_def split: if_splits)

end
