(* ===== verification/Scenario.thy ===== *)
theory Scenario
  imports Policy
begin

text \<open>
  A concrete run of the kernel, on which the hypotheses of the properties are met: the processor
  starts with a stack pointer in SRAM, \<open>main\<close> yields to the idle thread, and threads are created at
  addresses that an allocator could return.  The interrupt primitives are those of the RP2040: the
  mask is returned and set to 1, and written back.
\<close>

definition pico_sync :: sdk where
  "pico_sync = \<lparr>save_and_disable_interrupts = (\<lambda>m. (m, 1)), restore_interrupts = (\<lambda>old _. old)\<rparr>"

lemma pico_sync_restoring: "irq_restoring pico_sync"
  by (simp add: irq_restoring_def pico_sync_def)

definition reset_regs :: cpu_regs where
  "reset_regs = \<lparr>cpu_r3 = 3, cpu_r5 = 5, cpu_r6 = 6, cpu_r7 = 7, cpu_sp = 0x20041F00\<rparr>"

definition reset :: kernel where
  "reset = boot_state reset_regs 0"

lemma running_thread_init_reset [simp]: "running_thread_init reset = 0x20041000"
  by (simp add: running_thread_init_def reset_def boot_state_def reset_regs_def pg_round_down_def PGMASK_def
      BITMASK_def PGSHIFT_def PGBITS_def)

lemma reset_irq: "irq reset = 0"
  by (simp add: reset_def boot_state_def)

lemma reset_booting: "booting reset"
  by (simp add: booting_def) (simp add: reset_def boot_state_def)

text \<open>Round robin with two ticks per slice and two threads; FIFO with one thread of three ticks.\<close>

definition rr_events :: "event list" where
  "rr_events = [Set_quantum 1 2, Yield, Create 0x20003000 (CharBuf ''A'') 0 0 9, Create 0x20004000 (CharBuf ''B'') 0 0 9,
     Create 0x20005000 (CharBuf ''C'') 0 0 9]"

definition fifo_events :: "event list" where
  "fifo_events = [Yield, Create 0x20003000 (CharBuf ''A'') 0 0 3, Create 0x20004000 (CharBuf ''B'') 0 0 9]"

lemma boot_reset: "a_boot 0x20041000 0x20002000 reset =
    \<lparr>a_cur = 0x20041000, a_ready = [0x20002000], a_sleeping = [], a_all = [0x20041000, 0x20002000],
     a_idle = 0x20002000, a_initial = 0x20041000, a_dur = (\<lambda>t. if t = 0x20002000 then 999 else 9999999),
     a_wake = (\<lambda>_. 0), a_used = 0, a_now = 0, a_mode = 0, a_quantum = 5, a_exit_req = 0\<rparr>"
  by (simp add: a_boot_def reset_def boot_state_def)

lemmas sched_ops = a_yield_def a_dispatch_def a_create_def a_block_if_idle_def a_set_quantum_def a_exit_def

definition rr_sched :: sched where
  "rr_sched = \<lparr>a_cur = 0x20003000, a_ready = [0x20004000, 0x20005000], a_sleeping = [],
     a_all = [0x20041000, 0x20002000, 0x20003000, 0x20004000, 0x20005000], a_idle = 0x20002000, a_initial = 0x20041000,
     a_dur = (\<lambda>t. if t = 0x20002000 then 999 else 9999999)(0x20003000 := 9, 0x20004000 := 9, 0x20005000 := 9),
     a_wake = (\<lambda>_. 0)(0x20003000 := 0, 0x20004000 := 0, 0x20005000 := 0),
     a_used = 0, a_now = 0, a_mode = 1, a_quantum = 2, a_exit_req = 0\<rparr>"

definition fifo_sched :: sched where
  "fifo_sched = \<lparr>a_cur = 0x20003000, a_ready = [0x20004000], a_sleeping = [],
     a_all = [0x20041000, 0x20002000, 0x20003000, 0x20004000], a_idle = 0x20002000, a_initial = 0x20041000,
     a_dur = (\<lambda>t. if t = 0x20002000 then 999 else 9999999)(0x20003000 := 3, 0x20004000 := 9),
     a_wake = (\<lambda>_. 0)(0x20003000 := 0, 0x20004000 := 0),
     a_used = 0, a_now = 0, a_mode = 0, a_quantum = 5, a_exit_req = 0\<rparr>"

lemma rr_scenario: "\<exists>s. reachable pico_sync 5 s \<and> refines s rr_sched \<and> irq s = 0"
  using started [OF reset_booting, where t = "0x20002000" and es = rr_events and sd = pico_sync]
  by (simp add: boot_reset rr_events_def sched_ops rr_sched_def pico_sync_restoring reset_irq)

lemma fifo_scenario: "\<exists>s. reachable pico_sync 4 s \<and> refines s fifo_sched \<and> irq s = 0"
  using started [OF reset_booting, where t = "0x20002000" and es = fifo_events and sd = pico_sync]
  by (simp add: boot_reset fifo_events_def sched_ops fifo_sched_def pico_sync_restoring reset_irq)

end
