(* ===== verification/Layout.thy ===== *)
theory Layout
  imports Kernel_State
begin

text \<open>
  The layout in memory of the structures of the kernel: offsets and sizes by the rules of the C ABI
  of the 32-bit target, and the constants of src/lib/switch.c and src/lib/switch.h that the assembly
  of the context switch was to use.
\<close>

section \<open>The rules of the ABI\<close>

text \<open>A member has a name, a size and an alignment; a structure is a list of members.\<close>

type_synonym member = "string \<times> nat \<times> nat"

definition align_up :: "nat \<Rightarrow> nat \<Rightarrow> nat" where
  "align_up al n = (n + al - 1) div al * al"

fun offsets_from :: "nat \<Rightarrow> member list \<Rightarrow> (string \<times> nat) list" where
  "offsets_from ofs [] = []"
| "offsets_from ofs ((m, sz, al) # ms) = (m, align_up al ofs) # offsets_from (align_up al ofs + sz) ms"

fun end_from :: "nat \<Rightarrow> member list \<Rightarrow> nat" where
  "end_from ofs [] = ofs"
| "end_from ofs ((m, sz, al) # ms) = end_from (align_up al ofs + sz) ms"

definition struct_align :: "member list \<Rightarrow> nat" where
  "struct_align ms = fold (\<lambda>(m, sz, al) a. max al a) ms 1"

definition struct_size :: "member list \<Rightarrow> nat" where
  "struct_size ms = align_up (struct_align ms) (end_from 0 ms)"

definition offset_of :: "string \<Rightarrow> member list \<Rightarrow> nat option" where
  "offset_of m ms = map_of (offsets_from 0 ms) m"

lemma align_up_least:
  assumes "0 < al"
  shows "n \<le> align_up al n" "al dvd align_up al n" "al dvd k \<Longrightarrow> n \<le> k \<Longrightarrow> align_up al n \<le> k"
proof -
  have "(n + al - 1) mod al < al" using assms by simp
  with div_mult_mod_eq [of "n + al - 1" al] show "n \<le> align_up al n" unfolding align_up_def by linarith
  show "al dvd align_up al n" by (simp add: align_up_def)
  assume k: "al dvd k" "n \<le> k"
  then obtain q where q: "k = q * al" by (metis dvdE mult.commute)
  have "(n + al - 1) div al \<le> (q * al + (al - 1)) div al" by (rule div_le_mono) (use k(2) q assms in linarith)
  also have "\<dots> = q" using assms div_mult_self3 [of al q "al - 1"] by (simp del: add_diff_assoc2)
  finally show "align_up al n \<le> k" by (simp add: align_up_def q)
qed

section \<open>struct thread\<close>

text \<open>
  The enumeration \<open>status\<close> has size 4; with short enumerations it has size 1 and the offsets of the
  members from \<open>stack\<close> on are the same.
\<close>

definition struct_thread :: "nat \<Rightarrow> member list" where
  "struct_thread enum_size =
     [(''tid'', 4, 4), (''status'', enum_size, enum_size), (''name'', 16, 1), (''stack'', 4, 4), (''priority'', 4, 4),
      (''true_priority'', 4, 4), (''allelem'', 8, 4), (''elem'', 8, 4), (''sleep_time'', 8, 8),
      (''donations_received_list'', 16, 4), (''register_save'', 64, 4), (''duration_ticks'', 4, 4), (''magic'', 4, 4)]"

lemmas layout_eval = struct_thread_def struct_size_def struct_align_def align_up_def offset_of_def

lemma struct_thread_size: "struct_size (struct_thread 4) = unat sizeof_thread" "struct_size (struct_thread 1) = unat sizeof_thread"
  by (simp_all add: layout_eval sizeof_thread_def)

text \<open>\<open>offsetof (struct thread, stack)\<close>\<close>

definition thread_stack_ofs :: u32 where
  "thread_stack_ofs = (case offset_of ''stack'' (struct_thread 4) of Some n \<Rightarrow> of_nat n | None \<Rightarrow> 0)"

lemma thread_stack_ofs_eval: "thread_stack_ofs = 24"
  by (simp add: thread_stack_ofs_def layout_eval)

lemma thread_stack_ofs_short_enum: "offset_of ''stack'' (struct_thread 1) = Some (unat thread_stack_ofs)"
  by (simp add: thread_stack_ofs_eval) (simp add: layout_eval)

text \<open>The twelve bytes below \<open>PGSIZE\<close> are beyond the end of the structure.\<close>

lemma frame_offset_outside:
  assumes "k < sizeof_kernel_thread_frame" "ofs < sizeof_thread"
  shows "PGSIZE - sizeof_kernel_thread_frame + k \<noteq> ofs"
proof -
  have "PGSIZE - sizeof_kernel_thread_frame = 4084"
    by (simp add: PGSIZE_def PGBITS_def sizeof_kernel_thread_frame_def push_bit_eq_mult)
  moreover have "(4084 :: u32) + k \<noteq> ofs"
    using assms unfolding sizeof_kernel_thread_frame_def sizeof_thread_def by unat_arith auto
  ultimately show ?thesis by simp
qed

section \<open>The frames of the assembly switch (src/lib/switch.h)\<close>

definition switch_threads_frame :: "member list" where
  "switch_threads_frame =
     [(''edi'', 4, 4), (''esi'', 4, 4), (''ebp'', 4, 4), (''ebx'', 4, 4), (''eip'', 4, 4), (''cur'', 4, 4), (''next'', 4, 4)]"

definition switch_entry_frame :: "member list" where
  "switch_entry_frame = [(''eip'', 4, 4)]"

definition SWITCH_CUR :: nat where
  "SWITCH_CUR = 20"

definition SWITCH_NEXT :: nat where
  "SWITCH_NEXT = 24"

text \<open>The constants for the assembly are the offsets of the members they stand for.\<close>

lemma switch_offsets:
  "offset_of ''cur'' switch_threads_frame = Some SWITCH_CUR"
  "offset_of ''next'' switch_threads_frame = Some SWITCH_NEXT"
  by (simp_all add: switch_threads_frame_def SWITCH_CUR_def SWITCH_NEXT_def layout_eval)

end
