(* ===== verification/Print_Lists.thy ===== *)
theory Print_Lists
  imports Kernel_Run
begin

text \<open>
  The printing functions of thread.c: each loop over a list ends, and the console receives one
  entry per thread, in the order of the list, with nothing else changed.
\<close>

definition thread_name :: "kernel \<Rightarrow> tptr \<Rightarrow> string" where
  "thread_name s t = (case threads s t of Some th \<Rightarrow> name th | None \<Rightarrow> [])"

definition prints :: "(string \<times> arg list) list \<Rightarrow> kernel \<Rightarrow> kernel" where
  "prints out s = s\<lparr>console := console s @ out\<rparr>"

definition entry_of :: "kernel \<Rightarrow> tptr \<Rightarrow> string \<times> arg list" where
  "entry_of s t = (''[%s] -> '', [AStr (thread_name s t)])"

lemma prints_simps [simp]:
  "printf f args s = prints [(f, args)] s" "prints ys (prints xs s) = prints (xs @ ys) s"
  "links (prints xs s) = links s" "threads (prints xs s) = threads s"
  "entry_of (prints xs s) = entry_of s" "prints [] s = s"
  by (simp_all add: prints_def printf_def entry_of_def thread_name_def fun_eq_iff)

lemma print_thread_loop_spec:
  assumes "is_list (links s) l (map Elem (us @ ts))" "set ts \<subseteq> dom (threads s)" "0 \<notin> set ts"
  shows "print_thread_loop (Some l) (Some (hd (map Elem ts @ [tail l]))) s = Some (Inr (prints (map (entry_of s) ts) s))"
  using assms
proof (induction ts arbitrary: us s)
  case Nil
  then show ?case by (subst print_thread_loop.simps) simp
next
  case (Cons t ts)
  obtain th where th: "threads s t = Some th" using Cons.prems(2) by auto
  have "is_list (links s) l (map Elem us @ Elem t # map Elem ts)" using Cons.prems(1) by simp
  then have nx: "list_next (Some (Elem t)) (links s) = Inr (Some (hd (map Elem ts @ [tail l])))"
    and tl: "Elem t \<noteq> tail l"
    by (rule list_next_spec) (use Cons.prems(1) in \<open>auto simp: is_list_def\<close>)
  have en: "(''[%s] -> '', [AStr (name th)]) = entry_of s t" using th by (simp add: entry_of_def thread_name_def)
  have "print_thread_loop (Some l) (Some (hd (map Elem ts @ [tail l]))) (prints [entry_of s t] s) =
      Some (Inr (prints (map (entry_of s) (t # ts)) s))"
    using Cons.IH [of "prints [entry_of s t] s" "us @ [t]"] Cons.prems by simp
  then show ?case
    using th tl nx Cons.prems(3) by (subst print_thread_loop.simps) (simp add: en)
qed

lemma print_all_loop_spec:
  assumes "is_list (links s) (hdr All_list) (map AllElem (us @ ts))" "set ts \<subseteq> dom (threads s)" "0 \<notin> set ts"
  shows "print_all_loop (Some (hd (map AllElem ts @ [Tail All_list]))) s = Some (Inr (prints (map (entry_of s) ts) s))"
  using assms
proof (induction ts arbitrary: us s)
  case Nil
  then show ?case by (subst print_all_loop.simps) simp
next
  case (Cons t ts)
  obtain th where th: "threads s t = Some th" using Cons.prems(2) by auto
  have "is_list (links s) (hdr All_list) (map AllElem us @ AllElem t # map AllElem ts)" using Cons.prems(1) by simp
  from list_next_spec [OF this]
  have nx: "list_next (Some (AllElem t)) (links s) = Inr (Some (hd (map AllElem ts @ [Tail All_list])))" by simp
  have en: "(''[%s] -> '', [AStr (name th)]) = entry_of s t" using th by (simp add: entry_of_def thread_name_def)
  have "print_all_loop (Some (hd (map AllElem ts @ [Tail All_list]))) (prints [entry_of s t] s) =
      Some (Inr (prints (map (entry_of s) (t # ts)) s))"
    using Cons.IH [of "prints [entry_of s t] s" "us @ [t]"] Cons.prems by simp
  then show ?case
    using th nx Cons.prems(3) by (subst print_all_loop.simps) (simp add: en)
qed

lemma print_thread_list_spec:
  assumes "is_list (links s) l (map Elem ts)" "set ts \<subseteq> dom (threads s)" "0 \<notin> set ts"
  shows "print_thread_list (Some l) s =
    Some (Inr (prints ((''LISTA: '', []) # map (entry_of s) ts @ [(''\<newline>'', [])]) s))"
  using list_begin_spec [OF assms(1)] print_thread_loop_spec [of "prints [(''LISTA: '', [])] s" l "[]" ts] assms
  by (simp add: print_thread_list_def)

lemma print_all_list_spec:
  assumes "is_list (links s) (hdr All_list) (map AllElem ts)" "set ts \<subseteq> dom (threads s)" "0 \<notin> set ts"
  shows "print_all_list s = Some (Inr (prints (map (entry_of s) ts @ [(''\<newline>'', [])]) s))"
  using list_begin_spec [OF assms(1)] print_all_loop_spec [of s "[]" ts] assms
  by (simp add: print_all_list_def)

lemma print_lists_spec:
  assumes "is_list (links s) (hdr Ready_list) (map Elem rs)" "set rs \<subseteq> dom (threads s)" "0 \<notin> set rs"
    and "is_list (links s) (hdr Lista_espera) (map Elem ws)" "set ws \<subseteq> dom (threads s)" "0 \<notin> set ws"
  shows "print_lists s = Some (Inr (prints
    ([(''\<newline>'', []), (''READY: '', []), (''LISTA: '', [])] @ map (entry_of s) rs @ [(''\<newline>'', []), (''BLOCKED: '', []), (''LISTA: '', [])] @
     map (entry_of s) ws @ [(''\<newline>'', []), (''\<newline>'', [])]) s))"
  using print_thread_list_spec [of _ "hdr Ready_list" rs] print_thread_list_spec [of _ "hdr Lista_espera" ws] assms
  by (simp add: print_lists_def print_ready_list_def print_blocked_list_def)

end
