(* ===== verification/CList_Algo.thy ===== *)
theory CList_Algo
  imports CList
begin

text \<open>
  The loops of src/misc/list.c: size, reversal, sorting by natural merge sort, ordered insertion,
  removal of duplicates, maximum and minimum.  Each loop is a \<^theory_text>\<open>partial_function\<close> of the
  option monad, so that a run which never ends is \<^term>\<open>None\<close>; that the loops end is proved in
  \<open>CList_Sort\<close> and \<open>CList_Algo_Spec\<close>.
\<close>

section \<open>Comparison functions\<close>

text \<open>A \<open>list_less_func\<close> gets two elements and the auxiliary data; the pointer to it may be null.\<close>

type_synonym ('a, 'x) list_less_func = "'a ptr \<Rightarrow> 'a ptr \<Rightarrow> 'x \<Rightarrow> bool"

definition call_less :: "('a, 'x) list_less_func ptr \<Rightarrow> 'a ptr \<Rightarrow> 'a ptr \<Rightarrow> 'x \<Rightarrow> error + bool" where
  "call_less lessf a b aux = bindE (deref lessf) (\<lambda>f. Inr (f a b aux))"

section \<open>Size\<close>

partial_function (option) list_size_loop :: "'a clist ptr \<Rightarrow> 'a heap \<Rightarrow> 'a ptr \<Rightarrow> u32 \<Rightarrow> (error + u32) option" where
  "list_size_loop list h e cnt =
     bindR (Some (list_end list)) (\<lambda>l.
     if e = l then Some (Inr cnt)
     else
       bindR (Some (Inr (cnt + 1))) (\<lambda>cnt.
       bindR (Some (list_next e h)) (\<lambda>e.
       list_size_loop list h e cnt)))"

definition list_size :: "'a clist ptr \<Rightarrow> 'a heap \<Rightarrow> (error + u32) option" where
  "list_size list h = bindR (Some (list_begin list h)) (\<lambda>e. list_size_loop list h e 0)"

section \<open>Reversal\<close>

text \<open>A \<open>struct list_elem **\<close> in this file is the address of one of the two members of an element.\<close>

datatype 'a member = Prev "'a ptr" | Next "'a ptr"

fun load_member :: "'a member \<Rightarrow> 'a heap \<Rightarrow> error + 'a ptr" where
  "load_member (Prev p) h = load_prev p h"
| "load_member (Next p) h = load_next p h"

fun store_member :: "'a member \<Rightarrow> 'a ptr \<Rightarrow> 'a heap \<Rightarrow> error + 'a heap" where
  "store_member (Prev p) v h = store_prev p v h"
| "store_member (Next p) v h = store_next p v h"

definition swap :: "'a member \<Rightarrow> 'a member \<Rightarrow> 'a heap \<Rightarrow> error + 'a heap" where
  "swap a b h =
     bindE (load_member a h) (\<lambda>t.
     bindE (load_member b h) (\<lambda>v.
     bindE (store_member a v h) (\<lambda>h.
     store_member b t h)))"

partial_function (option) list_reverse_loop :: "'a clist ptr \<Rightarrow> 'a ptr \<Rightarrow> 'a heap \<Rightarrow> (error + 'a heap) option" where
  "list_reverse_loop list e h =
     bindR (Some (list_end list)) (\<lambda>l.
     if e = l then Some (Inr h)
     else
       bindR (Some (swap (Prev e) (Next e) h)) (\<lambda>h.
       bindR (Some (load_prev e h)) (\<lambda>e.
       list_reverse_loop list e h)))"

definition list_reverse :: "'a clist ptr \<Rightarrow> 'a heap \<Rightarrow> (error + 'a heap) option" where
  "list_reverse list h =
     bindR (Some (list_empty list h)) (\<lambda>c.
     if \<not> c then
       bindR (Some (list_begin list h)) (\<lambda>e.
       bindR (list_reverse_loop list e h) (\<lambda>h.
       bindR (Some (deref list)) (\<lambda>l.
       bindR (Some (swap (Next (Some (head l))) (Prev (Some (tail l))) h)) (\<lambda>h.
       bindR (Some (load_next (Some (head l)) h)) (\<lambda>n.
       bindR (Some (load_prev (Some (tail l)) h)) (\<lambda>p.
       Some (swap (Prev n) (Next p) h)))))))
     else Some (Inr h))"

section \<open>Sorting\<close>

partial_function (option) is_sorted_loop ::
  "'a ptr \<Rightarrow> 'a ptr \<Rightarrow> ('a, 'x) list_less_func ptr \<Rightarrow> 'x \<Rightarrow> 'a heap \<Rightarrow> (error + bool) option" where
  "is_sorted_loop a b lessf aux h =
     bindR (Some (list_next a h)) (\<lambda>a.
     if a \<noteq> b then
       bindR (Some (list_prev a h)) (\<lambda>p.
       bindR (Some (call_less lessf a p aux)) (\<lambda>c.
       if c then Some (Inr False) else is_sorted_loop a b lessf aux h))
     else Some (Inr True))"

definition is_sorted ::
  "'a ptr \<Rightarrow> 'a ptr \<Rightarrow> ('a, 'x) list_less_func ptr \<Rightarrow> 'x \<Rightarrow> 'a heap \<Rightarrow> (error + bool) option" where
  "is_sorted a b lessf aux h = (if a \<noteq> b then is_sorted_loop a b lessf aux h else Some (Inr True))"

partial_function (option) find_end_of_run_loop ::
  "'a ptr \<Rightarrow> 'a ptr \<Rightarrow> ('a, 'x) list_less_func ptr \<Rightarrow> 'x \<Rightarrow> 'a heap \<Rightarrow> (error + 'a ptr) option" where
  "find_end_of_run_loop a b lessf aux h =
     bindR (Some (list_next a h)) (\<lambda>a.
     if a \<noteq> b then
       bindR (Some (list_prev a h)) (\<lambda>p.
       bindR (Some (call_less lessf a p aux)) (\<lambda>c.
       if \<not> c then find_end_of_run_loop a b lessf aux h else Some (Inr a)))
     else Some (Inr a))"

definition find_end_of_run ::
  "'a ptr \<Rightarrow> 'a ptr \<Rightarrow> ('a, 'x) list_less_func ptr \<Rightarrow> 'x \<Rightarrow> 'a heap \<Rightarrow> (error + 'a ptr) option" where
  "find_end_of_run a b lessf aux h =
     bindR (Some (ASSERT (a \<noteq> NULL) ''a != NULL'')) (\<lambda>_.
     bindR (Some (ASSERT (b \<noteq> NULL) ''b != NULL'')) (\<lambda>_.
     bindR (Some (ASSERT (lessf \<noteq> NULL) ''less != NULL'')) (\<lambda>_.
     bindR (Some (ASSERT (a \<noteq> b) ''a != b'')) (\<lambda>_.
     find_end_of_run_loop a b lessf aux h))))"

partial_function (option) inplace_merge_loop ::
  "'a ptr \<Rightarrow> 'a ptr \<Rightarrow> 'a ptr \<Rightarrow> ('a, 'x) list_less_func ptr \<Rightarrow> 'x \<Rightarrow> 'a heap \<Rightarrow> (error + 'a heap) option" where
  "inplace_merge_loop a0 a1b0 b1 lessf aux h =
     (if a0 \<noteq> a1b0 \<and> a1b0 \<noteq> b1 then
        bindR (Some (call_less lessf a1b0 a0 aux)) (\<lambda>c.
        if \<not> c then
          bindR (Some (list_next a0 h)) (\<lambda>a0.
          inplace_merge_loop a0 a1b0 b1 lessf aux h)
        else
          bindR (Some (list_next a1b0 h)) (\<lambda>a1b0.
          bindR (Some (list_prev a1b0 h)) (\<lambda>p.
          bindR (Some (list_splice a0 p a1b0 h)) (\<lambda>h.
          inplace_merge_loop a0 a1b0 b1 lessf aux h))))
      else Some (Inr h))"

definition inplace_merge ::
  "'a ptr \<Rightarrow> 'a ptr \<Rightarrow> 'a ptr \<Rightarrow> ('a, 'x) list_less_func ptr \<Rightarrow> 'x \<Rightarrow> 'a heap \<Rightarrow> (error + 'a heap) option" where
  "inplace_merge a0 a1b0 b1 lessf aux h =
     bindR (Some (ASSERT (a0 \<noteq> NULL) ''a0 != NULL'')) (\<lambda>_.
     bindR (Some (ASSERT (a1b0 \<noteq> NULL) ''a1b0 != NULL'')) (\<lambda>_.
     bindR (Some (ASSERT (b1 \<noteq> NULL) ''b1 != NULL'')) (\<lambda>_.
     bindR (Some (ASSERT (lessf \<noteq> NULL) ''less != NULL'')) (\<lambda>_.
     bindR (is_sorted a0 a1b0 lessf aux h) (\<lambda>c.
     bindR (Some (ASSERT c ''is_sorted (a0, a1b0, less, aux)'')) (\<lambda>_.
     bindR (is_sorted a1b0 b1 lessf aux h) (\<lambda>c.
     bindR (Some (ASSERT c ''is_sorted (a1b0, b1, less, aux)'')) (\<lambda>_.
     inplace_merge_loop a0 a1b0 b1 lessf aux h))))))))"

text \<open>One pass of \<open>list_sort\<close>, from the run that starts at \<open>a0\<close> on: the \<open>for\<close> loop with its \<open>break\<close>.\<close>

partial_function (option) list_sort_pass ::
  "'a clist ptr \<Rightarrow> ('a, 'x) list_less_func ptr \<Rightarrow> 'x \<Rightarrow> 'a ptr \<Rightarrow> u32 \<Rightarrow> 'a heap \<Rightarrow> (error + (u32 \<times> 'a heap)) option" where
  "list_sort_pass list lessf aux a0 output_run_cnt h =
     bindR (Some (list_end list)) (\<lambda>l.
     if a0 = l then Some (Inr (output_run_cnt, h))
     else
       bindR (Some (Inr (output_run_cnt + 1))) (\<lambda>output_run_cnt.
       bindR (find_end_of_run a0 l lessf aux h) (\<lambda>a1b0.
       if a1b0 = l then Some (Inr (output_run_cnt, h))
       else
         bindR (find_end_of_run a1b0 l lessf aux h) (\<lambda>b1.
         bindR (inplace_merge a0 a1b0 b1 lessf aux h) (\<lambda>h.
         list_sort_pass list lessf aux b1 output_run_cnt h)))))"

partial_function (option) list_sort_loop ::
  "'a clist ptr \<Rightarrow> ('a, 'x) list_less_func ptr \<Rightarrow> 'x \<Rightarrow> 'a heap \<Rightarrow> (error + 'a heap) option" where
  "list_sort_loop list lessf aux h =
     bindR (Some (list_begin list h)) (\<lambda>a0.
     bindR (list_sort_pass list lessf aux a0 0 h) (\<lambda>r.
     case r of (output_run_cnt, h) \<Rightarrow>
       if 1 < output_run_cnt then list_sort_loop list lessf aux h else Some (Inr h)))"

definition list_sort ::
  "'a clist ptr \<Rightarrow> ('a, 'x) list_less_func ptr \<Rightarrow> 'x \<Rightarrow> 'a heap \<Rightarrow> (error + 'a heap) option" where
  "list_sort list lessf aux h =
     bindR (Some (ASSERT (list \<noteq> NULL) ''list != NULL'')) (\<lambda>_.
     bindR (Some (ASSERT (lessf \<noteq> NULL) ''less != NULL'')) (\<lambda>_.
     bindR (list_sort_loop list lessf aux h) (\<lambda>h.
     bindR (Some (list_begin list h)) (\<lambda>b.
     bindR (Some (list_end list)) (\<lambda>e.
     bindR (is_sorted b e lessf aux h) (\<lambda>c.
     bindR (Some (ASSERT c ''is_sorted (list_begin (list), list_end (list), less, aux)'')) (\<lambda>_.
     Some (Inr h))))))))"

section \<open>Ordered insertion\<close>

partial_function (option) list_insert_ordered_loop ::
  "'a clist ptr \<Rightarrow> 'a ptr \<Rightarrow> ('a, 'x) list_less_func ptr \<Rightarrow> 'x \<Rightarrow> 'a heap \<Rightarrow> 'a ptr \<Rightarrow> (error + 'a ptr) option" where
  "list_insert_ordered_loop list elem lessf aux h e =
     bindR (Some (list_end list)) (\<lambda>l.
     if e = l then Some (Inr e)
     else
       bindR (Some (call_less lessf elem e aux)) (\<lambda>c.
       if c then Some (Inr e)
       else
         bindR (Some (list_next e h)) (\<lambda>e.
         list_insert_ordered_loop list elem lessf aux h e)))"

definition list_insert_ordered ::
  "'a clist ptr \<Rightarrow> 'a ptr \<Rightarrow> ('a, 'x) list_less_func ptr \<Rightarrow> 'x \<Rightarrow> 'a heap \<Rightarrow> (error + 'a heap) option" where
  "list_insert_ordered list elem lessf aux h =
     bindR (Some (ASSERT (list \<noteq> NULL) ''list != NULL'')) (\<lambda>_.
     bindR (Some (ASSERT (elem \<noteq> NULL) ''elem != NULL'')) (\<lambda>_.
     bindR (Some (ASSERT (lessf \<noteq> NULL) ''less != NULL'')) (\<lambda>_.
     bindR (Some (list_begin list h)) (\<lambda>e.
     bindR (list_insert_ordered_loop list elem lessf aux h e) (\<lambda>e.
     Some (list_insert e elem h))))))"

section \<open>Duplicates\<close>

partial_function (option) list_unique_loop ::
  "'a clist ptr \<Rightarrow> 'a clist ptr \<Rightarrow> ('a, 'x) list_less_func ptr \<Rightarrow> 'x \<Rightarrow> 'a ptr \<Rightarrow> 'a heap \<Rightarrow> (error + 'a heap) option" where
  "list_unique_loop list duplicates lessf aux elem h =
     bindR (Some (list_next elem h)) (\<lambda>nx.
     bindR (Some (list_end list)) (\<lambda>l.
     if nx \<noteq> l then
       bindR (Some (andE (bindE (call_less lessf elem nx aux) (\<lambda>c. Inr (\<not> c)))
                         (bindE (call_less lessf nx elem aux) (\<lambda>c. Inr (\<not> c))))) (\<lambda>c.
       if c then
         bindR (Some (list_remove nx h)) (\<lambda>r.
         bindR (Some (if duplicates \<noteq> NULL then list_push_back duplicates nx (snd r) else Inr (snd r))) (\<lambda>h.
         list_unique_loop list duplicates lessf aux elem h))
       else list_unique_loop list duplicates lessf aux nx h)
     else Some (Inr h)))"

definition list_unique ::
  "'a clist ptr \<Rightarrow> 'a clist ptr \<Rightarrow> ('a, 'x) list_less_func ptr \<Rightarrow> 'x \<Rightarrow> 'a heap \<Rightarrow> (error + 'a heap) option" where
  "list_unique list duplicates lessf aux h =
     bindR (Some (ASSERT (list \<noteq> NULL) ''list != NULL'')) (\<lambda>_.
     bindR (Some (ASSERT (lessf \<noteq> NULL) ''less != NULL'')) (\<lambda>_.
     bindR (Some (list_empty list h)) (\<lambda>c.
     if c then Some (Inr h)
     else
       bindR (Some (list_begin list h)) (\<lambda>elem.
       list_unique_loop list duplicates lessf aux elem h))))"

section \<open>Maximum and minimum\<close>

partial_function (option) list_max_loop ::
  "'a clist ptr \<Rightarrow> ('a, 'x) list_less_func ptr \<Rightarrow> 'x \<Rightarrow> 'a heap \<Rightarrow> 'a ptr \<Rightarrow> 'a ptr \<Rightarrow> (error + 'a ptr) option" where
  "list_max_loop list lessf aux h mx e =
     bindR (Some (list_end list)) (\<lambda>l.
     if e = l then Some (Inr mx)
     else
       bindR (Some (call_less lessf mx e aux)) (\<lambda>c.
       bindR (Some (list_next e h)) (\<lambda>e'.
       list_max_loop list lessf aux h (if c then e else mx) e')))"

definition list_max ::
  "'a clist ptr \<Rightarrow> ('a, 'x) list_less_func ptr \<Rightarrow> 'x \<Rightarrow> 'a heap \<Rightarrow> (error + 'a ptr) option" where
  "list_max list lessf aux h =
     bindR (Some (list_begin list h)) (\<lambda>mx.
     bindR (Some (list_end list)) (\<lambda>l.
     if mx \<noteq> l then
       bindR (Some (list_next mx h)) (\<lambda>e. list_max_loop list lessf aux h mx e)
     else Some (Inr mx)))"

partial_function (option) list_min_loop ::
  "'a clist ptr \<Rightarrow> ('a, 'x) list_less_func ptr \<Rightarrow> 'x \<Rightarrow> 'a heap \<Rightarrow> 'a ptr \<Rightarrow> 'a ptr \<Rightarrow> (error + 'a ptr) option" where
  "list_min_loop list lessf aux h mn e =
     bindR (Some (list_end list)) (\<lambda>l.
     if e = l then Some (Inr mn)
     else
       bindR (Some (call_less lessf e mn aux)) (\<lambda>c.
       bindR (Some (list_next e h)) (\<lambda>e'.
       list_min_loop list lessf aux h (if c then e else mn) e')))"

definition list_min ::
  "'a clist ptr \<Rightarrow> ('a, 'x) list_less_func ptr \<Rightarrow> 'x \<Rightarrow> 'a heap \<Rightarrow> (error + 'a ptr) option" where
  "list_min list lessf aux h =
     bindR (Some (list_begin list h)) (\<lambda>mn.
     bindR (Some (list_end list)) (\<lambda>l.
     if mn \<noteq> l then
       bindR (Some (list_next mn h)) (\<lambda>e. list_min_loop list lessf aux h mn e)
     else Some (Inr mn)))"

end
