(* ===== verification/CList_Algo_Spec.thy ===== *)
theory CList_Algo_Spec
  imports CList_Spec CList_Algo
begin

text \<open>
  Total correctness of the simple loops of list.c: each returns on every well-formed list, and its
  result is that of a function on the list of elements.
\<close>

section \<open>Iteration\<close>

text \<open>The comparison function on elements, with its auxiliary data.\<close>

definition less_on :: "('a, 'x) list_less_func \<Rightarrow> 'x \<Rightarrow> 'a \<Rightarrow> 'a \<Rightarrow> bool" where
  "less_on f aux x y = f (Some x) (Some y) aux"

lemma call_less_on [simp]: "call_less (Some f) (Some x) (Some y) aux = Inr (less_on f aux x y)"
  by (simp add: call_less_def less_on_def)

text \<open>The position in a list at which the elements \<open>ys\<close> are still ahead.\<close>

abbreviation at :: "'a list \<Rightarrow> 'a clist \<Rightarrow> 'a ptr" where
  "at ys l \<equiv> Some (hd (ys @ [tail l]))"

lemma at_end_iff: "is_list h l (xs @ ys) \<Longrightarrow> hd (ys @ [tail l]) = tail l \<longleftrightarrow> ys = []"
  by (cases ys) (auto simp: is_list_def)

lemma list_next_at: "is_list h l (xs @ y # ys) \<Longrightarrow> list_next (Some y) h = Inr (at ys l)"
  by (rule list_next_spec)

lemma at_not_tail: "is_list h l (xs @ y # ys) \<Longrightarrow> y \<noteq> tail l"
  by (auto simp: is_list_def)

section \<open>Size\<close>

lemma list_size_loop_spec:
  "is_list h l (xs @ ys) \<Longrightarrow> list_size_loop (Some l) h (at ys l) cnt = Some (Inr (cnt + of_nat (length ys)))"
proof (induction ys arbitrary: xs cnt)
  case Nil
  then show ?case by (subst list_size_loop.simps) simp
next
  case (Cons y ys)
  have "is_list h l ((xs @ [y]) @ ys)" using Cons.prems by simp
  note IH = Cons.IH [OF this]
  show ?case
    using IH at_not_tail [OF Cons.prems] list_next_at [OF Cons.prems]
    by (subst list_size_loop.simps) (simp add: algebra_simps)
qed

lemma list_size_spec: "is_list h l xs \<Longrightarrow> list_size (Some l) h = Some (Inr (of_nat (length xs)))"
  using list_size_loop_spec [of h l "[]" xs 0] by (simp add: list_size_def list_begin_spec)

section \<open>Maximum and minimum\<close>

definition max_of :: "('a \<Rightarrow> 'a \<Rightarrow> bool) \<Rightarrow> 'a \<Rightarrow> 'a list \<Rightarrow> 'a" where
  "max_of lt m ys = fold (\<lambda>e m. if lt m e then e else m) ys m"

definition min_of :: "('a \<Rightarrow> 'a \<Rightarrow> bool) \<Rightarrow> 'a \<Rightarrow> 'a list \<Rightarrow> 'a" where
  "min_of lt m ys = fold (\<lambda>e m. if lt e m then e else m) ys m"

lemma list_max_loop_spec:
  "is_list h l (xs @ ys) \<Longrightarrow>
   list_max_loop (Some l) (Some f) aux h (Some m) (at ys l) = Some (Inr (Some (max_of (less_on f aux) m ys)))"
proof (induction ys arbitrary: xs m)
  case Nil
  then show ?case by (subst list_max_loop.simps) (simp add: max_of_def)
next
  case (Cons y ys)
  have "is_list h l ((xs @ [y]) @ ys)" using Cons.prems by simp
  note IH = Cons.IH [OF this]
  show ?case
    using IH [of "if less_on f aux m y then y else m"] at_not_tail [OF Cons.prems] list_next_at [OF Cons.prems]
    by (subst list_max_loop.simps) (simp add: max_of_def split: if_splits)
qed

lemma list_min_loop_spec:
  "is_list h l (xs @ ys) \<Longrightarrow>
   list_min_loop (Some l) (Some f) aux h (Some m) (at ys l) = Some (Inr (Some (min_of (less_on f aux) m ys)))"
proof (induction ys arbitrary: xs m)
  case Nil
  then show ?case by (subst list_min_loop.simps) (simp add: min_of_def)
next
  case (Cons y ys)
  have "is_list h l ((xs @ [y]) @ ys)" using Cons.prems by simp
  note IH = Cons.IH [OF this]
  show ?case
    using IH [of "if less_on f aux y m then y else m"] at_not_tail [OF Cons.prems] list_next_at [OF Cons.prems]
    by (subst list_min_loop.simps) (simp add: min_of_def split: if_splits)
qed

lemma list_max_spec:
  "is_list h l (x # xs) \<Longrightarrow> list_max (Some l) (Some f) aux h = Some (Inr (Some (max_of (less_on f aux) x xs)))"
  using list_max_loop_spec [of h l "[x]" xs f aux x] list_next_at [of h l "[]" x xs] at_not_tail [of h l "[]" x xs]
  by (simp add: list_max_def list_begin_spec)

lemma list_min_spec:
  "is_list h l (x # xs) \<Longrightarrow> list_min (Some l) (Some f) aux h = Some (Inr (Some (min_of (less_on f aux) x xs)))"
  using list_min_loop_spec [of h l "[x]" xs f aux x] list_next_at [of h l "[]" x xs] at_not_tail [of h l "[]" x xs]
  by (simp add: list_min_def list_begin_spec)

lemma list_max_empty: "is_list h l [] \<Longrightarrow> list_max (Some l) (Some f) aux h = Some (Inr (Some (tail l)))"
  by (simp add: list_max_def list_begin_spec)

text \<open>A comparison function that is a strict weak order.\<close>

definition strict_weak :: "('a \<Rightarrow> 'a \<Rightarrow> bool) \<Rightarrow> bool" where
  "strict_weak lt \<longleftrightarrow> (\<forall>x y. lt x y \<longrightarrow> \<not> lt y x) \<and> (\<forall>x y z. \<not> lt x y \<longrightarrow> \<not> lt y z \<longrightarrow> \<not> lt x z)"

lemma strict_weakD:
  assumes "strict_weak lt"
  shows "lt x y \<Longrightarrow> \<not> lt y x" "\<not> lt x y \<Longrightarrow> \<not> lt y z \<Longrightarrow> \<not> lt x z" "\<not> lt x x"
  using assms unfolding strict_weak_def by blast+

text \<open>The maximum is an element, none is larger, and it is the first such.\<close>

lemma max_of_snoc: "max_of lt m (ys @ [y]) = (if lt (max_of lt m ys) y then y else max_of lt m ys)"
  by (simp add: max_of_def)

lemma max_of_ge:
  assumes "strict_weak lt" "x \<in> insert m (set ys)"
  shows "\<not> lt (max_of lt m ys) x"
  using assms(2)
proof (induction ys arbitrary: x rule: rev_induct)
  case Nil
  then show ?case using strict_weakD(3) [OF assms(1)] by (simp add: max_of_def)
next
  case (snoc y ys)
  show ?case
  proof (cases "x = y")
    case True
    then show ?thesis by (simp add: max_of_snoc strict_weakD(3) [OF assms(1)])
  next
    case False
    then have x: "\<not> lt (max_of lt m ys) x" using snoc by simp
    have "\<not> lt y x" if "lt (max_of lt m ys) y"
    proof
      assume "lt y x"
      then have "\<not> lt x y" by (rule strict_weakD(1) [OF assms(1)])
      from strict_weakD(2) [OF assms(1) x this] that show False by simp
    qed
    with x show ?thesis by (simp add: max_of_snoc)
  qed
qed

lemma max_of_first:
  assumes "strict_weak lt"
  shows "\<exists>us vs. m # ys = us @ max_of lt m ys # vs \<and> (\<forall>u\<in>set us. lt u (max_of lt m ys))"
proof (induction ys rule: rev_induct)
  case Nil
  show ?case by (intro exI [of _ "[]"]) (simp add: max_of_def)
next
  case (snoc y ys)
  show ?case
  proof (cases "lt (max_of lt m ys) y")
    case True
    have "lt u y" if "u \<in> set (m # ys)" for u
      using strict_weakD(2) [OF assms] max_of_ge [OF assms, of u m ys] True that by auto
    with True show ?thesis
      by (intro exI [of _ "m # ys"] exI [of _ "[]"]) (simp add: max_of_snoc)
  next
    case False
    obtain us vs where "m # ys = us @ max_of lt m ys # vs" "\<forall>u\<in>set us. lt u (max_of lt m ys)"
      using snoc.IH by blast
    then have "m # ys @ [y] = us @ max_of lt m ys # (vs @ [y]) \<and> (\<forall>u\<in>set us. lt u (max_of lt m ys))"
      by (metis append_Cons append_assoc)
    then show ?thesis
      by (intro exI [of _ us] exI [of _ "vs @ [y]"]) (simp add: max_of_snoc False)
  qed
qed

lemma min_of_max_of: "min_of lt = max_of (\<lambda>x y. lt y x)"
  by (simp add: min_of_def max_of_def fun_eq_iff)

lemma strict_weak_converse: "strict_weak lt \<Longrightarrow> strict_weak (\<lambda>x y. lt y x)"
  unfolding strict_weak_def by blast

section \<open>Ordered insertion\<close>

definition insert_ordered :: "('a \<Rightarrow> 'a \<Rightarrow> bool) \<Rightarrow> 'a \<Rightarrow> 'a list \<Rightarrow> 'a list" where
  "insert_ordered lt x ys = takeWhile (\<lambda>y. \<not> lt x y) ys @ x # dropWhile (\<lambda>y. \<not> lt x y) ys"

lemma list_insert_ordered_loop_spec:
  "is_list h l (xs @ ys) \<Longrightarrow>
   list_insert_ordered_loop (Some l) (Some x) (Some f) aux h (at ys l) =
     Some (Inr (at (dropWhile (\<lambda>y. \<not> less_on f aux x y) ys) l))"
proof (induction ys arbitrary: xs)
  case Nil
  then show ?case by (subst list_insert_ordered_loop.simps) simp
next
  case (Cons y ys)
  have "is_list h l ((xs @ [y]) @ ys)" using Cons.prems by simp
  note IH = Cons.IH [OF this]
  show ?case
    using IH at_not_tail [OF Cons.prems] list_next_at [OF Cons.prems]
    by (subst list_insert_ordered_loop.simps) simp
qed

lemma list_insert_ordered_spec:
  assumes "is_list h l ys" "x \<notin> nodes l ys" "h x = Some c"
  obtains h' where "list_insert_ordered (Some l) (Some x) (Some f) aux h = Some (Inr h')"
    "is_list h' l (insert_ordered (less_on f aux) x ys)" "only_changes h h' (insert x (nodes l ys))"
proof -
  let ?P = "\<lambda>y. \<not> less_on f aux x y"
  have l: "is_list h l (takeWhile ?P ys @ dropWhile ?P ys)" using assms(1) by simp
  obtain h' where "list_insert (at (dropWhile ?P ys) l) (Some x) h = Inr h'"
    "is_list h' l (takeWhile ?P ys @ x # dropWhile ?P ys)" "only_changes h h' (insert x (nodes l ys))"
    by (rule list_insert_spec [OF l]) (use assms(2,3) in auto)
  then show thesis
    using that list_insert_ordered_loop_spec [of h l "[]" ys x f aux] assms(1)
    by (simp add: list_insert_ordered_def list_begin_spec insert_ordered_def)
qed

text \<open>Sorted: no element is smaller than an earlier one.\<close>

abbreviation sorted_by :: "('a \<Rightarrow> 'a \<Rightarrow> bool) \<Rightarrow> 'a list \<Rightarrow> bool" where
  "sorted_by lt \<equiv> sorted_wrt (\<lambda>x y. \<not> lt y x)"

lemma insert_ordered_sorted:
  assumes "strict_weak lt" "sorted_by lt ys"
  shows "sorted_by lt (insert_ordered lt x ys)"
proof -
  let ?P = "\<lambda>y. \<not> lt x y"
  have s: "sorted_by lt (takeWhile ?P ys @ dropWhile ?P ys)" using assms(2) by simp
  have right: "\<not> lt y x" if "y \<in> set (dropWhile ?P ys)" for y
  proof -
    note y = that
    obtain d ds where d: "dropWhile ?P ys = d # ds" using y by (meson list.set_cases)
    have x: "lt x d" using hd_dropWhile [of ?P ys] d by auto
    have "y = d \<or> \<not> lt y d"
      using s that unfolding d by (auto simp: sorted_wrt_append)
    then show ?thesis
    proof
      assume "y = d"
      with strict_weakD(1) [OF assms(1) x] show ?thesis by simp
    next
      assume yd: "\<not> lt y d"
      show ?thesis
      proof
        assume "lt y x"
        from strict_weakD(1) [OF assms(1) this] strict_weakD(2) [OF assms(1) _ yd] x show False by blast
      qed
    qed
  qed
  have left: "\<not> lt x y" if "y \<in> set (takeWhile ?P ys)" for y
    using set_takeWhileD [OF that] by blast
  define T D where "T = takeWhile ?P ys" and "D = dropWhile ?P ys"
  have "\<forall>y\<in>set D. \<not> lt y x" "\<forall>y\<in>set T. \<not> lt x y" "sorted_by lt (T @ D)"
    using right left s unfolding T_def D_def by blast+
  then have "sorted_by lt (T @ x # D)" by (simp add: sorted_wrt_append)
  then show ?thesis by (simp add: insert_ordered_def T_def D_def)
qed

lemma set_insert_ordered: "set (insert_ordered lt x ys) = insert x (set ys)"
proof -
  have "set ys = set (takeWhile (\<lambda>y. \<not> lt x y) ys) \<union> set (dropWhile (\<lambda>y. \<not> lt x y) ys)"
    by (metis set_append takeWhile_dropWhile_id)
  then show ?thesis by (auto simp: insert_ordered_def)
qed

section \<open>Duplicates\<close>

text \<open>What is kept after \<open>x\<close>, and what is moved out, in order.\<close>

fun uniq :: "('a \<Rightarrow> 'a \<Rightarrow> bool) \<Rightarrow> 'a \<Rightarrow> 'a list \<Rightarrow> 'a list \<times> 'a list" where
  "uniq lt x [] = ([x], [])"
| "uniq lt x (y # ys) =
     (if \<not> lt x y \<and> \<not> lt y x then (case uniq lt x ys of (ks, ds) \<Rightarrow> (ks, y # ds))
      else (case uniq lt y ys of (ks, ds) \<Rightarrow> (x # ks, ds)))"

text \<open>The elements moved out go to the end of \<open>duplicates\<close>, or nowhere if it is null.\<close>

definition dups_ok :: "'a heap \<Rightarrow> 'a clist ptr \<Rightarrow> 'a list \<Rightarrow> 'a set \<Rightarrow> bool" where
  "dups_ok h d ds S \<longleftrightarrow> (case d of None \<Rightarrow> True | Some dl \<Rightarrow> is_list h dl ds \<and> nodes dl ds \<inter> S = {})"

lemma nodes_append [simp]: "nodes l (xs @ ys) = nodes l xs \<union> set ys"
  by (auto simp: nodes_def)

lemma nodes_Cons [simp]: "nodes l (x # xs) = insert x (nodes l xs)"
  by (auto simp: nodes_def)

lemma nodes_header: "head l \<in> nodes l xs" "tail l \<in> nodes l xs"
  by (simp_all add: nodes_def)

lemma remove_to_dups:
  assumes l: "is_list h l (xs @ y # ys)" and d: "dups_ok h d ds (nodes l (xs @ y # ys))"
  obtains n h1 h2 where "list_remove (Some y) h = Inr (n, h1)"
    "(if d \<noteq> NULL then list_push_back d (Some y) h1 else Inr h1) = Inr h2"
    "is_list h2 l (xs @ ys)" "dups_ok h2 d (ds @ [y]) (nodes l (xs @ ys))"
proof -
  obtain h1 where h1: "list_remove (Some y) h = Inr (Some (hd (ys @ [tail l])), h1)"
    "is_list h1 l (xs @ ys)" "only_changes h h1 (nodes l (xs @ ys))"
    by (rule list_remove_spec [OF l])
  have y: "y \<notin> nodes l (xs @ ys)" using l by (auto simp: is_list_def nodes_def)
  show thesis
  proof (cases d)
    case None
    then show thesis using that [OF h1(1)] h1(2) by (simp add: dups_ok_def)
  next
    case (Some dl)
    then have dl: "is_list h dl ds" "nodes dl ds \<inter> nodes l (xs @ y # ys) = {}" using d by (auto simp: dups_ok_def)
    have dl1: "is_list h1 dl ds" by (rule is_list_other [OF dl(1) h1(3)]) (use dl(2) in auto)
    obtain c where "h y = Some c" using is_list_mapped [OF l, of y] by auto
    then obtain c1 where c1: "h1 y = Some c1" using only_changes_mapped [OF h1(3)] by blast
    obtain h2 where h2: "list_push_back (Some dl) (Some y) h1 = Inr h2" "is_list h2 dl (ds @ [y])"
      "only_changes h1 h2 (insert y (nodes dl ds))"
      by (rule list_push_back_spec [OF dl1 _ c1]) (use dl(2) in auto)
    have "is_list h2 l (xs @ ys)"
      by (rule is_list_other [OF h1(2) h2(3)]) (use dl(2) y in auto)
    then show thesis
      using that [OF h1(1), of h2] h2(1,2) Some dl(2) y by (auto simp: dups_ok_def)
  qed
qed

lemma list_unique_loop_spec:
  assumes "is_list h l (xs @ x # ys)" "dups_ok h d ds (nodes l (xs @ x # ys))"
  shows "\<exists>h'. list_unique_loop (Some l) d (Some f) aux (Some x) h = Some (Inr h') \<and>
    is_list h' l (xs @ fst (uniq (less_on f aux) x ys)) \<and>
    dups_ok h' d (ds @ snd (uniq (less_on f aux) x ys)) (nodes l (xs @ fst (uniq (less_on f aux) x ys)))"
  using assms
proof (induction ys arbitrary: h xs x ds)
  case Nil
  then show ?case
    using list_next_at [OF Nil.prems(1)] by (subst list_unique_loop.simps) simp
next
  case (Cons y ys)
  have nx: "list_next (Some x) h = Inr (Some y)" using list_next_at [OF Cons.prems(1)] by simp
  have ne: "y \<noteq> tail l" using at_not_tail [of h l "xs @ [x]" y ys] Cons.prems(1) by simp
  show ?case
  proof (cases "\<not> less_on f aux x y \<and> \<not> less_on f aux y x")
    case True
    have l: "is_list h l ((xs @ [x]) @ y # ys)" "dups_ok h d ds (nodes l ((xs @ [x]) @ y # ys))"
      using Cons.prems by simp_all
    obtain n h1 h2 where h: "list_remove (Some y) h = Inr (n, h1)"
      "(if d \<noteq> NULL then list_push_back d (Some y) h1 else Inr h1) = Inr h2"
      "is_list h2 l ((xs @ [x]) @ ys)" "dups_ok h2 d (ds @ [y]) (nodes l ((xs @ [x]) @ ys))"
      by (rule remove_to_dups [OF l])
    have "is_list h2 l (xs @ x # ys)" "dups_ok h2 d (ds @ [y]) (nodes l (xs @ x # ys))"
      using h(3,4) by simp_all
    from Cons.IH [OF this] obtain h' where
      "list_unique_loop (Some l) d (Some f) aux (Some x) h2 = Some (Inr h')"
      "is_list h' l (xs @ fst (uniq (less_on f aux) x ys))"
      "dups_ok h' d ((ds @ [y]) @ snd (uniq (less_on f aux) x ys)) (nodes l (xs @ fst (uniq (less_on f aux) x ys)))"
      by blast
    then show ?thesis
      using True h(1,2) nx ne
      by (subst list_unique_loop.simps) (cases d; simp add: case_prod_unfold)
  next
    case False
    have "is_list h l ((xs @ [x]) @ y # ys)" "dups_ok h d ds (nodes l ((xs @ [x]) @ y # ys))"
      using Cons.prems by simp_all
    from Cons.IH [OF this] obtain h' where
      "list_unique_loop (Some l) d (Some f) aux (Some y) h = Some (Inr h')"
      "is_list h' l ((xs @ [x]) @ fst (uniq (less_on f aux) y ys))"
      "dups_ok h' d (ds @ snd (uniq (less_on f aux) y ys)) (nodes l ((xs @ [x]) @ fst (uniq (less_on f aux) y ys)))"
      by blast
    then show ?thesis
      using False nx ne
      by (subst list_unique_loop.simps) (auto simp: case_prod_unfold)
  qed
qed

lemma list_unique_spec:
  assumes "is_list h l (x # xs)" "dups_ok h d ds (nodes l (x # xs))"
  shows "\<exists>h'. list_unique (Some l) d (Some f) aux h = Some (Inr h') \<and>
    is_list h' l (fst (uniq (less_on f aux) x xs)) \<and>
    dups_ok h' d (ds @ snd (uniq (less_on f aux) x xs)) (nodes l (fst (uniq (less_on f aux) x xs)))"
  using list_unique_loop_spec [of h l "[]" x xs d ds f aux] assms list_empty_spec [OF assms(1)]
  by (simp add: list_unique_def list_begin_spec)

end
