(* ===== verification/CList_Links.thy ===== *)
theory CList_Links
  imports CList_Algo_Spec
begin

text \<open>
  The operations of list.c that rearrange links: \<open>list_splice\<close> and \<open>list_reverse\<close>.  Several of the
  pointers they write may coincide (a segment of one element, a neighbour that is also the target),
  so memory is described here by its two link functions and its domain rather than cell by cell.
\<close>

section \<open>Single links\<close>

definition set_next :: "'a \<Rightarrow> 'a ptr \<Rightarrow> 'a heap \<Rightarrow> 'a heap" where
  "set_next a v h = h(a \<mapsto> (the (h a))\<lparr>next := v\<rparr>)"

definition set_prev :: "'a \<Rightarrow> 'a ptr \<Rightarrow> 'a heap \<Rightarrow> 'a heap" where
  "set_prev a v h = h(a \<mapsto> (the (h a))\<lparr>prev := v\<rparr>)"

named_theorems link_simps

lemma set_dom [link_simps]: "a \<in> dom h \<Longrightarrow> dom (set_next a v h) = dom h" "a \<in> dom h \<Longrightarrow> dom (set_prev a v h) = dom h"
  by (auto simp: set_next_def set_prev_def)

lemma store_dom [link_simps]:
  "a \<in> dom h \<Longrightarrow> store_next (Some a) v h = Inr (set_next a v h)"
  "a \<in> dom h \<Longrightarrow> store_prev (Some a) v h = Inr (set_prev a v h)"
  by (auto simp: set_next_def set_prev_def mem_simps)

lemma load_dom [link_simps]:
  "a \<in> dom h \<Longrightarrow> load_next (Some a) h = Inr (nxt h a)" "a \<in> dom h \<Longrightarrow> load_prev (Some a) h = Inr (prv h a)"
  by (auto simp: mem_simps nxt_def prv_def)

lemma nxt_set [link_simps]:
  "nxt (set_next a v h) b = (if b = a then v else nxt h b)"
  "a \<in> dom h \<Longrightarrow> nxt (set_prev a v h) b = nxt h b"
  by (auto simp: set_next_def set_prev_def nxt_def)

lemma prv_set [link_simps]:
  "prv (set_prev a v h) b = (if b = a then v else prv h b)"
  "a \<in> dom h \<Longrightarrow> prv (set_next a v h) b = prv h b"
  by (auto simp: set_next_def set_prev_def prv_def)

lemma kind_dom [link_simps]:
  "a \<in> dom h \<Longrightarrow> is_interior (Some a) h = Inr (prv h a \<noteq> None \<and> nxt h a \<noteq> None)"
  "a \<in> dom h \<Longrightarrow> is_tail (Some a) h = Inr (prv h a \<noteq> None \<and> nxt h a = None)"
  by (auto simp: mem_simps nxt_def prv_def)

lemma list_prev_dom [link_simps]: "prv h a = Some p \<Longrightarrow> list_prev (Some a) h = Inr (Some p)"
  by (auto simp: mem_simps dest: prv_SomeD)

lemma prv_dom: "prv h a = Some p \<Longrightarrow> a \<in> dom h" "nxt h a = Some p \<Longrightarrow> a \<in> dom h"
  by (auto dest: prv_SomeD nxt_SomeD)

lemma set_outside: "b \<noteq> a \<Longrightarrow> set_next a v h b = h b" "b \<noteq> a \<Longrightarrow> set_prev a v h b = h b"
  by (simp_all add: set_next_def set_prev_def)

section \<open>Splicing\<close>

text \<open>
  \<open>list_splice (b, f, n)\<close> where the segment \<open>f ... z\<close> precedes \<open>n\<close>: \<open>p\<close> is before the segment and
  \<open>bp\<close> before the target.
\<close>

definition spliced :: "'a \<Rightarrow> 'a \<Rightarrow> 'a \<Rightarrow> 'a \<Rightarrow> 'a \<Rightarrow> 'a \<Rightarrow> 'a heap \<Rightarrow> 'a heap" where
  "spliced bp b f z p n h =
     set_prev b (Some z) (set_next bp (Some f) (set_next z (Some b) (set_prev f (Some bp)
       (set_prev n (Some p) (set_next p (Some n) h)))))"

lemma list_splice_eq:
  assumes "prv h b = Some bp" "nxt h f = Some x" "prv h f = Some p" "prv h n = Some z" "nxt h z = Some n" "prv h z = Some y"
    and "bp \<in> dom h" "p \<in> dom h" "f \<noteq> n" "b \<noteq> n" "b \<noteq> f" "f \<noteq> n"
  shows "list_splice (Some b) (Some f) (Some n) h = Inr (spliced bp b f z p n h)"
proof -
  have d: "b \<in> dom h" "f \<in> dom h" "n \<in> dom h" "z \<in> dom h"
    using assms(1-6) prv_dom by metis+
  show ?thesis
    using assms d
    by (cases "nxt h b") (simp_all add: list_splice_def spliced_def link_simps)
qed

lemma spliced_links:
  assumes "{bp, b, f, z, p, n} \<subseteq> dom h"
  shows "dom (spliced bp b f z p n h) = dom h"
    "nxt (spliced bp b f z p n h) a =
       (if a = bp then Some f else if a = z then Some b else if a = p then Some n else nxt h a)"
    "prv (spliced bp b f z p n h) a =
       (if a = b then Some z else if a = f then Some bp else if a = n then Some p else prv h a)"
  using assms by (simp_all add: spliced_def link_simps)

lemma spliced_outside: "a \<notin> {bp, b, f, z, p, n} \<Longrightarrow> spliced bp b f z p n h a = h a"
  by (simp add: spliced_def set_outside)

text \<open>The parts of the list around the two segments \<open>b # ms\<close> and \<open>f # ss\<close>, and the cells where they meet.\<close>

lemma splice_parts:
  assumes l: "is_list h l (us @ (b # ms) @ (f # ss) @ vs)"
  defines "n \<equiv> hd (vs @ [tail l])" and "z \<equiv> last (f # ss)" and "p \<equiv> last (b # ms)" and "bp \<equiv> last (head l # us)"
  shows "chain h (head l) us b" "chain h b ms f" "chain h f ss n" "rest h vs (tail l)"
    "bp \<in> set (head l # us)" "z \<in> set (f # ss)" "p \<in> set (b # ms)" "n \<in> set (vs @ [tail l])"
    "a \<in> set (head l # us) \<Longrightarrow> a \<notin> {b, p, f, z, n}" "a \<in> set (b # ms) \<Longrightarrow> a \<notin> {bp, f, z, n}"
    "a \<in> set (f # ss) \<Longrightarrow> a \<notin> {bp, b, p, n}" "a \<in> set (vs @ [tail l]) \<Longrightarrow> a \<notin> {bp, b, p, f, z}"
proof -
  note L = is_listD [OF l]
  show "chain h (head l) us b" "chain h b ms f" "chain h f ss n" "rest h vs (tail l)"
    using L(1) chain_split [of h f ss vs "tail l"] by (simp_all add: chain_append n_def)
  show inn: "bp \<in> set (head l # us)" "z \<in> set (f # ss)" "p \<in> set (b # ms)" "n \<in> set (vs @ [tail l])"
    unfolding bp_def z_def p_def n_def by (rule last_in_set, simp)+ (cases vs, simp_all)
  have "set (head l # us) \<inter> set (b # ms) = {}" "set (head l # us) \<inter> set (f # ss) = {}"
    "set (head l # us) \<inter> set (vs @ [tail l]) = {}" "set (b # ms) \<inter> set (f # ss) = {}"
    "set (b # ms) \<inter> set (vs @ [tail l]) = {}" "set (f # ss) \<inter> set (vs @ [tail l]) = {}"
    using L(2) by auto
  then show "a \<in> set (head l # us) \<Longrightarrow> a \<notin> {b, p, f, z, n}" "a \<in> set (b # ms) \<Longrightarrow> a \<notin> {bp, f, z, n}"
    "a \<in> set (f # ss) \<Longrightarrow> a \<notin> {bp, b, p, n}" "a \<in> set (vs @ [tail l]) \<Longrightarrow> a \<notin> {bp, b, p, f, z}"
    using inn by auto
qed

lemma spliced_is_list:
  assumes l: "is_list h l (us @ (b # ms) @ (f # ss) @ vs)"
  defines "n \<equiv> hd (vs @ [tail l])" and "z \<equiv> last (f # ss)" and "p \<equiv> last (b # ms)" and "bp \<equiv> last (head l # us)"
  assumes dm: "{bp, b, f, z, p, n} \<subseteq> dom h"
  shows "is_list (spliced bp b f z p n h) l (us @ (f # ss) @ (b # ms) @ vs)"
proof -
  define h' where "h' = spliced bp b f z p n h"
  note L = is_listD [OF l]
  note P = splice_parts [OF l, folded n_def z_def p_def bp_def]
  note nx = spliced_links(2) [OF dm, folded h'_def] and pr = spliced_links(3) [OF dm, folded h'_def]
  have d: "distinct (head l # us)" "distinct (b # ms)" "distinct (f # ss)" "distinct vs" "tail l \<notin> set vs"
    using L(2) by auto
  have same: "a \<in> set (head l # us) \<Longrightarrow> a \<noteq> bp \<Longrightarrow> nxt h' a = nxt h a" "a \<in> set (head l # us) \<Longrightarrow> prv h' a = prv h a"
    "a \<in> set (b # ms) \<Longrightarrow> a \<noteq> p \<Longrightarrow> nxt h' a = nxt h a" "a \<in> set (b # ms) \<Longrightarrow> a \<noteq> b \<Longrightarrow> prv h' a = prv h a"
    "a \<in> set (f # ss) \<Longrightarrow> a \<noteq> z \<Longrightarrow> nxt h' a = nxt h a" "a \<in> set (f # ss) \<Longrightarrow> a \<noteq> f \<Longrightarrow> prv h' a = prv h a"
    "a \<in> set (vs @ [tail l]) \<Longrightarrow> nxt h' a = nxt h a" "a \<in> set (vs @ [tail l]) \<Longrightarrow> a \<noteq> n \<Longrightarrow> prv h' a = prv h a" for a
    using P(9-12) [of a] by (simp_all add: nx pr)
  have "bp \<noteq> z" "bp \<noteq> p" "z \<noteq> p" "b \<noteq> f" "b \<noteq> n" "f \<noteq> n"
    using P(9) [OF P(5)] P(10) [OF P(7)] P(10) [of b] P(11) [of f] by auto
  then have new: "nxt h' bp = Some f" "prv h' f = Some bp" "nxt h' z = Some b" "prv h' b = Some z"
    "nxt h' p = Some n" "prv h' n = Some p"
    by (simp_all add: nx pr)
  have "chain h' (head l) us f"
    by (rule chain_retarget [OF P(1) d(1)]) (use same(1,2) new in \<open>auto simp: bp_def\<close>)
  moreover have "chain h' f ss b"
    by (rule chain_retarget [OF P(3) d(3)]) (use same(5,6) new d(3) in \<open>auto simp: z_def\<close>)
  moreover have "chain h' b ms n"
    by (rule chain_retarget [OF P(2) d(2)]) (use same(3,4) new d(2) in \<open>auto simp: p_def\<close>)
  moreover have "rest h' vs (tail l) = rest h vs (tail l)"
    by (rule rest_cong) (use same(7,8) d(4,5) in \<open>cases vs; force simp: n_def\<close>)+
  ultimately have "chain h' (head l) (us @ (f # ss) @ (b # ms) @ vs) (tail l)"
    using P(4) chain_split [of h' b ms vs "tail l"] by (simp add: chain_append n_def)
  moreover have "prv h' (head l) = None" "nxt h' (tail l) = None"
    using L(3,4) same(2) [of "head l"] same(7) [of "tail l"] by simp_all
  ultimately show ?thesis using L(2) unfolding h'_def by (auto simp: is_list_def)
qed

text \<open>A segment of a list moves in front of an earlier element of the same list.\<close>

lemma list_splice_spec:
  assumes l: "is_list h l (us @ (b # ms) @ (f # ss) @ vs)"
  obtains h' where "list_splice (Some b) (Some f) (Some (hd (vs @ [tail l]))) h = Inr h'"
    "is_list h' l (us @ (f # ss) @ (b # ms) @ vs)" "only_changes h h' (nodes l (us @ (b # ms) @ (f # ss) @ vs))"
proof -
  define n z p bp where defs: "n = hd (vs @ [tail l])" "z = last (f # ss)" "p = last (b # ms)" "bp = last (head l # us)"
  note P = splice_parts [OF l, folded defs]
  have e: "nxt h bp = Some b" "prv h b = Some bp" "nxt h p = Some f" "prv h f = Some p" "nxt h z = Some n" "prv h n = Some z"
    using chain_last [OF P(1)] chain_last [OF P(2)] chain_last [OF P(3)] by (simp_all add: defs)
  obtain x where x: "nxt h f = Some x" using chain_first [OF P(3)] by blast
  obtain y where y: "prv h z = Some y"
  proof (cases ss rule: rev_cases)
    case Nil
    then show thesis using that e(4) by (simp add: defs)
  next
    case (snoc ss' s)
    then show thesis using that chain_last [of h f ss' s] P(3) by (auto simp: defs chain_append)
  qed
  have dm: "{bp, b, f, z, p, n} \<subseteq> dom h"
    using prv_dom(2) [OF e(1)] prv_dom(1) [OF e(2)] prv_dom(2) [OF e(3)] prv_dom(1) [OF e(4)]
      prv_dom(2) [OF e(5)] prv_dom(1) [OF e(6)] by simp
  have "list_splice (Some b) (Some f) (Some n) h = Inr (spliced bp b f z p n h)"
    by (rule list_splice_eq [OF e(2) x e(4,6,5) y]) (use dm P(10) [of b] P(11) [of f] in auto)
  moreover have "{bp, b, f, z, p, n} \<subseteq> nodes l (us @ (b # ms) @ (f # ss) @ vs)"
    using P(5-8) by (auto simp: nodes_def)
  then have "only_changes h (spliced bp b f z p n h) (nodes l (us @ (b # ms) @ (f # ss) @ vs))"
    using spliced_outside [of _ bp b f z p n h] spliced_links(1) [OF dm] unfolding only_changes_def by blast
  ultimately show thesis using that spliced_is_list [OF l, folded defs, OF dm] by (simp add: defs)
qed

section \<open>Reversal\<close>

definition flip :: "'a \<Rightarrow> 'a heap \<Rightarrow> 'a heap" where
  "flip a h = set_next a (prv h a) (set_prev a (nxt h a) h)"

lemma swap_flip: "a \<in> dom h \<Longrightarrow> swap (Prev (Some a)) (Next (Some a)) h = Inr (flip a h)"
  by (simp add: swap_def flip_def link_simps)

lemma flip_links:
  assumes "a \<in> dom h"
  shows "dom (flip a h) = dom h" "nxt (flip a h) b = (if b = a then prv h a else nxt h b)"
    "prv (flip a h) b = (if b = a then nxt h a else prv h b)" "b \<noteq> a \<Longrightarrow> flip a h b = h b"
  using assms by (simp_all add: flip_def link_simps set_outside)

text \<open>The loop flips the elements that are ahead; \<open>h0\<close> is the memory before.\<close>

lemma list_reverse_loop_spec:
  assumes "is_list h0 l (xs @ ys)" "dom h = dom h0"
    and "\<And>a. nxt h a = (if a \<in> set xs then prv h0 a else nxt h0 a)"
    and "\<And>a. prv h a = (if a \<in> set xs then nxt h0 a else prv h0 a)"
    and "\<And>a. a \<notin> set xs \<Longrightarrow> h a = h0 a"
  shows "\<exists>h'. list_reverse_loop (Some l) (at ys l) h = Some (Inr h') \<and> dom h' = dom h0 \<and>
    (\<forall>a. nxt h' a = (if a \<in> set (xs @ ys) then prv h0 a else nxt h0 a)) \<and>
    (\<forall>a. prv h' a = (if a \<in> set (xs @ ys) then nxt h0 a else prv h0 a)) \<and>
    (\<forall>a. a \<notin> set (xs @ ys) \<longrightarrow> h' a = h0 a)"
  using assms
proof (induction ys arbitrary: xs h)
  case Nil
  then show ?case by (subst list_reverse_loop.simps) simp
next
  case (Cons y ys)
  have y: "y \<notin> set xs" "y \<noteq> tail l" using Cons.prems(1) by (auto simp: is_list_def)
  have yd: "y \<in> dom h" using is_list_mapped [OF Cons.prems(1), of y] Cons.prems(2) by auto
  note F = flip_links [OF yd]
  have "nxt h0 y = Some (hd (ys @ [tail l]))"
    using chain_first [of h0 y ys "tail l"] is_listD(1) [OF Cons.prems(1)] by (simp add: chain_append)
  then have nx: "prv (flip y h) y = Some (hd (ys @ [tail l]))" using F(3) Cons.prems(3) y(1) by simp
  have "is_list h0 l ((xs @ [y]) @ ys)" using Cons.prems(1) by simp
  then have "\<exists>h'. list_reverse_loop (Some l) (at ys l) (flip y h) = Some (Inr h') \<and> dom h' = dom h0 \<and>
    (\<forall>a. nxt h' a = (if a \<in> set ((xs @ [y]) @ ys) then prv h0 a else nxt h0 a)) \<and>
    (\<forall>a. prv h' a = (if a \<in> set ((xs @ [y]) @ ys) then nxt h0 a else prv h0 a)) \<and>
    (\<forall>a. a \<notin> set ((xs @ [y]) @ ys) \<longrightarrow> h' a = h0 a)"
    by (rule Cons.IH) (use F Cons.prems(2-5) y(1) in auto)
  then show ?case
    using swap_flip [OF yd] F(1) yd nx y(2)
    by (subst list_reverse_loop.simps) (simp add: load_dom(2))
qed

lemma chain_flip:
  assumes "chain h p xs q" "\<And>a. a \<in> insert q (set xs) \<Longrightarrow> nxt g a = prv h a"
    and "\<And>a. a \<in> insert p (set xs) \<Longrightarrow> prv g a = nxt h a"
  shows "chain g q (rev xs) p"
  using assms
proof (induction xs arbitrary: p)
  case (Cons x xs)
  have "chain g q (rev xs) x" by (rule Cons.IH) (use Cons.prems in auto)
  moreover have "nxt g x = Some p" "prv g p = Some x" using Cons.prems by auto
  ultimately show ?case using chain_append [of g q "rev xs" x "[]" p] by simp
qed simp

text \<open>The inner links are flipped; the outer ones are joined to the headers by the last two swaps.\<close>

lemma is_list_rev:
  assumes l: "is_list h l (x # ys)" and xs: "x # ys = ms @ [z]"
    and nx: "\<And>a. nxt g a = (if a = head l then Some z else if a = x then Some (tail l) else
               if a \<in> set (x # ys) then prv h a else nxt h a)"
    and pr: "\<And>a. prv g a = (if a = tail l then Some x else if a = z then Some (head l) else
               if a \<in> set (x # ys) then nxt h a else prv h a)"
  shows "is_list g l (rev (x # ys))"
proof -
  note L = is_listD [OF l]
  have z: "z \<in> set (x # ys)" unfolding xs by simp
  have ne: "x \<noteq> head l" "x \<noteq> tail l" "z \<noteq> head l" "z \<noteq> tail l" "head l \<noteq> tail l"
    using L(2) z by auto
  have "chain g (head l) (rev (x # ys)) (tail l)"
  proof (cases ys rule: rev_cases)
    case Nil
    then have "z = x" using xs by simp
    with Nil ne show ?thesis by (simp add: nx pr)
  next
    case (snoc ks k)
    then have k: "k = z" using xs by simp
    have "chain h x ks z" using L(1) snoc k by (simp add: chain_append)
    moreover have "x \<noteq> z" "x \<notin> set ks" "z \<notin> set ks" "head l \<notin> set ks" "tail l \<notin> set ks" using L(2) snoc k by auto
    ultimately have "chain g z (rev ks) x"
      using ne snoc k by (intro chain_flip) (auto simp: nx pr)
    moreover have "nxt g (head l) = Some z" "prv g z = Some (head l)" "nxt g x = Some (tail l)" "prv g (tail l) = Some x"
      using ne by (simp_all add: nx pr)
    ultimately show ?thesis using snoc k by (simp add: chain_append)
  qed
  moreover have "distinct (head l # rev (x # ys) @ [tail l])"
    using L(2) by auto
  moreover have "head l \<notin> set (x # ys)" "tail l \<notin> set (x # ys)" using L(2) by auto
  then have "prv g (head l) = None" "nxt g (tail l) = None"
    using L(3,4) ne by (auto simp: nx pr)
  ultimately show ?thesis by (simp add: is_list_def)
qed

lemma list_reverse_spec:
  assumes l: "is_list h l xs"
  obtains h' where "list_reverse (Some l) h = Some (Inr h')" "is_list h' l (rev xs)" "only_changes h h' (nodes l xs)"
proof (cases xs)
  case Nil
  then show thesis using that [of h] l list_empty_spec [OF l] by (simp add: list_reverse_def)
next
  case (Cons x ys)
  obtain ms z where z: "xs = ms @ [z]" using Cons by (metis list.distinct(1) rev_exhaust)
  note L = is_listD [OF l]
  have "is_list h l ([] @ xs)" using l by simp
  then obtain h1 where h1: "list_reverse_loop (Some l) (at xs l) h = Some (Inr h1)" "dom h1 = dom h"
    "\<And>a. nxt h1 a = (if a \<in> set xs then prv h a else nxt h a)"
    "\<And>a. prv h1 a = (if a \<in> set xs then nxt h a else prv h a)" "\<And>a. a \<notin> set xs \<Longrightarrow> h1 a = h a"
    using list_reverse_loop_spec [of h l "[]" xs h] by auto
  have hx: "nxt h (head l) = Some x" "prv h x = Some (head l)" using L(1) Cons by simp_all
  have tz: "prv h (tail l) = Some z" "nxt h z = Some (tail l)"
    using chain_last [OF L(1)] z by simp_all
  have mem: "x \<in> set xs" by (simp add: Cons)
  have "z \<in> set xs" by (simp add: z)
  with mem have ne: "x \<noteq> head l" "x \<noteq> tail l" "z \<noteq> head l" "z \<noteq> tail l" "head l \<noteq> tail l"
    "head l \<notin> set xs" "tail l \<notin> set xs" "x \<in> set xs" "z \<in> set xs"
    using L(2) by auto
  have d: "head l \<in> dom h1" "tail l \<in> dom h1" "x \<in> dom h1" "z \<in> dom h1"
    using prv_dom(2) [OF hx(1)] prv_dom(1) [OF tz(1)] prv_dom(1) [OF hx(2)] prv_dom(2) [OF tz(2)] h1(2) by simp_all
  define h2 where "h2 = set_prev (tail l) (Some x) (set_next (head l) (Some z) h1)"
  define g where "g = set_next x (Some (tail l)) (set_prev z (Some (head l)) h2)"
  have s2: "swap (Next (Some (head l))) (Prev (Some (tail l))) h1 = Inr h2"
    using d hx tz ne h1(3,4) by (simp add: swap_def h2_def link_simps)
  have d2: "dom h2 = dom h1" "nxt h2 a = (if a = head l then Some z else nxt h1 a)"
    "prv h2 a = (if a = tail l then Some x else prv h1 a)" for a
    using d by (simp_all add: h2_def link_simps)
  have s3: "swap (Prev (Some z)) (Next (Some x)) h2 = Inr g"
    using d hx tz ne h1(3,4) d2 by (simp add: swap_def g_def link_simps)
  have dg: "dom g = dom h1" "nxt g a = (if a = x then Some (tail l) else nxt h2 a)"
    "prv g a = (if a = z then Some (head l) else prv h2 a)" for a
    using d d2(1) by (simp_all add: g_def link_simps)
  have "is_list g l (rev (x # ys))"
    by (rule is_list_rev [where h = h and z = z and ms = ms]) (use l Cons z ne dg d2 h1(3,4) in auto)
  moreover have "list_reverse (Some l) h = Some (Inr g)"
    using h1(1) s2 s3 d d2 ne Cons list_empty_spec [OF l] list_begin_spec [OF l]
    by (simp add: list_reverse_def link_simps)
  moreover have "g a = h a" if "a \<notin> nodes l xs" for a
  proof -
    have "a \<noteq> head l" "a \<noteq> tail l" "a \<noteq> x" "a \<noteq> z" "a \<notin> set xs"
      using that ne(8,9) by (auto simp: nodes_def)
    then show ?thesis by (simp add: g_def h2_def set_outside h1(5))
  qed
  then have "only_changes h g (nodes l xs)"
    using dg(1) h1(2) by (simp add: only_changes_def)
  ultimately show thesis using that Cons by simp
qed

end
