(* ===== verification/CList_Sort.thy ===== *)
theory CList_Sort
  imports CList_Links "HOL-Library.Multiset"
begin

text \<open>
  \<open>list_sort\<close> of list.c, a natural merge sort in place: it returns on every well-formed list of fewer
  than $2^{32}$ elements, the result is a stable sorted permutation, and none of the assertions in it fails.

  \<open>run lt xs\<close> says that no element is smaller than its predecessor, the condition that
  \<open>is_sorted\<close> and \<open>find_end_of_run\<close> test; \<open>merge\<close> and \<open>pass\<close> are what \<open>inplace_merge\<close> and one
  pass of \<open>list_sort\<close> do to the list of elements.
\<close>

section \<open>Runs and merging on lists\<close>

fun run :: "('a \<Rightarrow> 'a \<Rightarrow> bool) \<Rightarrow> 'a list \<Rightarrow> bool" where
  "run lt (x # y # ys) \<longleftrightarrow> \<not> lt y x \<and> run lt (y # ys)"
| "run lt xs \<longleftrightarrow> True"

text \<open>The longest run at the start of \<open>x # ys\<close>, after \<open>x\<close>, and what follows.\<close>

fun split_run :: "('a \<Rightarrow> 'a \<Rightarrow> bool) \<Rightarrow> 'a \<Rightarrow> 'a list \<Rightarrow> 'a list \<times> 'a list" where
  "split_run lt x [] = ([], [])"
| "split_run lt x (y # ys) =
     (if \<not> lt y x then (case split_run lt y ys of (as, bs) \<Rightarrow> (y # as, bs)) else ([], y # ys))"

fun merge :: "('a \<Rightarrow> 'a \<Rightarrow> bool) \<Rightarrow> 'a list \<Rightarrow> 'a list \<Rightarrow> 'a list" where
  "merge lt (x # xs) (y # ys) = (if \<not> lt y x then x # merge lt xs (y # ys) else y # merge lt (x # xs) ys)"
| "merge lt [] ys = ys"
| "merge lt xs [] = xs"

lemma split_run_append: "split_run lt x ys = (as, bs) \<Longrightarrow> ys = as @ bs"
  by (induction ys arbitrary: x as) (auto split: if_splits prod.splits)

lemma split_run_run: "split_run lt x ys = (as, bs) \<Longrightarrow> run lt (x # as)"
  by (induction ys arbitrary: x as) (auto split: if_splits prod.splits)

lemma split_run_length: "split_run lt x ys = (as, bs) \<Longrightarrow> length bs \<le> length ys"
  by (auto dest: split_run_append)

text \<open>One pass over the list: pairs of adjacent runs are merged; the number of output runs.\<close>

function pass :: "('a \<Rightarrow> 'a \<Rightarrow> bool) \<Rightarrow> 'a list \<Rightarrow> 'a list" where
  "pass lt [] = []"
| "pass lt (x # xs) =
     (case split_run lt x xs of (as, bs) \<Rightarrow>
        case bs of [] \<Rightarrow> x # as
        | y # ys \<Rightarrow> (case split_run lt y ys of (cs, ds) \<Rightarrow> merge lt (x # as) (y # cs) @ pass lt ds))"
  by pat_completeness auto
termination
  by (relation "measure (\<lambda>(lt, xs). length xs)") (auto dest!: split_run_length [OF sym])

function out_runs :: "('a \<Rightarrow> 'a \<Rightarrow> bool) \<Rightarrow> 'a list \<Rightarrow> nat" where
  "out_runs lt [] = 0"
| "out_runs lt (x # xs) =
     (case split_run lt x xs of (as, bs) \<Rightarrow>
        case bs of [] \<Rightarrow> 1
        | y # ys \<Rightarrow> (case split_run lt y ys of (cs, ds) \<Rightarrow> Suc (out_runs lt ds)))"
  by pat_completeness auto
termination
  by (relation "measure (\<lambda>(lt, xs). length xs)") (auto dest!: split_run_length [OF sym])

lemma mset_merge: "mset (merge lt xs ys) = mset xs + mset ys"
  by (induction lt xs ys rule: merge.induct) auto

lemma merge_Nil [simp]: "merge lt xs [] = xs"
  by (cases xs) simp_all

lemma mset_pass: "mset (pass lt xs) = mset xs"
proof (induction lt xs rule: pass.induct)
  case (2 lt x xs)
  then show ?case
    by (auto simp: mset_merge split: prod.splits list.splits dest!: split_run_append)
qed simp

section \<open>Each pass has fewer runs\<close>

lemma run_Cons: "run lt (x # ys) \<longleftrightarrow> run lt ys \<and> (ys \<noteq> [] \<longrightarrow> \<not> lt (hd ys) x)"
  by (cases ys) auto

lemma hd_merge: "merge lt xs ys \<noteq> [] \<Longrightarrow> (xs \<noteq> [] \<and> hd (merge lt xs ys) = hd xs) \<or> (ys \<noteq> [] \<and> hd (merge lt xs ys) = hd ys)"
  by (cases xs; cases ys) auto

lemma run_merge:
  assumes asym: "\<And>x y. lt x y \<Longrightarrow> \<not> lt y x"
  shows "run lt xs \<Longrightarrow> run lt ys \<Longrightarrow> run lt (merge lt xs ys)"
  using asym
proof (induction lt xs ys rule: merge.induct)
  case (1 lt x xs y ys)
  show ?case
  proof (cases "lt y x")
    case True
    have r: "run lt (merge lt (x # xs) ys)" using 1 True by (simp add: run_Cons)
    have "\<not> lt x y" using 1(5) True by blast
    then have "\<not> lt (hd (merge lt (x # xs) ys)) y" if "merge lt (x # xs) ys \<noteq> []"
      using hd_merge [OF that] 1(4) by (auto simp: run_Cons)
    with r True show ?thesis by (simp add: run_Cons)
  next
    case False
    have r: "run lt (merge lt xs (y # ys))" using 1 False by (simp add: run_Cons)
    have "\<not> lt (hd (merge lt xs (y # ys))) x" if "merge lt xs (y # ys) \<noteq> []"
      using hd_merge [OF that] 1(3) False by (auto simp: run_Cons)
    with r False show ?thesis by (simp add: run_Cons)
  qed
qed simp_all

fun descents :: "('a \<Rightarrow> 'a \<Rightarrow> bool) \<Rightarrow> 'a list \<Rightarrow> nat" where
  "descents lt (x # y # ys) = (if lt y x then 1 else 0) + descents lt (y # ys)"
| "descents lt xs = 0"

lemma run_descents: "run lt xs \<longleftrightarrow> descents lt xs = 0"
  by (induction lt xs rule: run.induct) auto

lemma descents_append: "descents lt (xs @ ys) \<le> descents lt xs + Suc (descents lt ys)"
proof (induction xs)
  case (Cons x xs)
  then show ?case by (cases xs; cases ys) auto
qed simp

lemma split_run_descents:
  "split_run lt x ys = (as, bs) \<Longrightarrow> descents lt (x # ys) = (case bs of [] \<Rightarrow> 0 | _ \<Rightarrow> Suc (descents lt bs))"
  by (induction ys arbitrary: x as) (auto split: if_splits prod.splits)

lemma out_runs_descents: "2 * out_runs lt xs \<le> descents lt xs + 2"
proof (induction lt xs rule: out_runs.induct)
  case (2 lt x xs)
  obtain as bs where s: "split_run lt x xs = (as, bs)" by fastforce
  show ?case
  proof (cases bs)
    case Nil
    with s show ?thesis by simp
  next
    case (Cons y ys)
    obtain cs ds where s': "split_run lt y ys = (cs, ds)" by fastforce
    have "2 * out_runs lt ds \<le> descents lt ds + 2" using 2 s s' Cons by auto
    then show ?thesis
      using s s' Cons split_run_descents [OF s] split_run_descents [OF s']
      by (cases ds) simp_all
  qed
qed simp

lemma pass_descents:
  assumes asym: "\<And>x y. lt x y \<Longrightarrow> \<not> lt y x"
  shows "xs \<noteq> [] \<Longrightarrow> Suc (descents lt (pass lt xs)) \<le> out_runs lt xs"
  using asym
proof (induction lt xs rule: pass.induct)
  case (2 lt x xs)
  obtain as bs where s: "split_run lt x xs = (as, bs)" by fastforce
  show ?case
  proof (cases bs)
    case Nil
    with s split_run_run [OF s] show ?thesis by (simp add: run_descents)
  next
    case (Cons y ys)
    obtain cs ds where s': "split_run lt y ys = (cs, ds)" by fastforce
    define m where "m = merge lt (x # as) (y # cs)"
    have "run lt m"
      unfolding m_def by (rule run_merge) (use 2(3) split_run_run [OF s] split_run_run [OF s'] in auto)
    then have m: "descents lt m = 0" by (simp add: run_descents)
    have p: "pass lt (x # xs) = m @ pass lt ds" "out_runs lt (x # xs) = Suc (out_runs lt ds)"
      using s s' Cons by (simp_all add: m_def)
    show ?thesis
    proof (cases "ds = []")
      case True
      then show ?thesis using p m by simp
    next
      case False
      have "Suc (descents lt (pass lt ds)) \<le> out_runs lt ds"
        by (rule 2(1) [OF s [symmetric] Cons s' [symmetric]]) (use False 2(3) in auto)
      then show ?thesis using p m descents_append [of lt m "pass lt ds"] by simp
    qed
  qed
qed simp

lemma pass_progress:
  assumes "\<And>x y. lt x y \<Longrightarrow> \<not> lt y x"
  shows "1 < out_runs lt xs \<Longrightarrow> descents lt (pass lt xs) < descents lt xs"
    "out_runs lt xs \<le> 1 \<Longrightarrow> run lt (pass lt xs)"
  using pass_descents [of lt xs] out_runs_descents [of lt xs] assms
  by (cases "xs = []"; force simp: run_descents)+

lemma descents_length: "xs \<noteq> [] \<Longrightarrow> Suc (descents lt xs) \<le> length xs"
  by (induction lt xs rule: descents.induct) auto

lemma length_out_runs: "out_runs lt xs \<le> length xs"
proof (cases "xs = []")
  case False
  then show ?thesis using out_runs_descents [of lt xs] descents_length [of xs lt] by linarith
qed simp

section \<open>The loops on memory\<close>

lemma list_next_in: "is_list h l (us @ x # ys) \<Longrightarrow> list_next (Some x) h = Inr (Some (hd (ys @ [tail l])))"
  by (rule list_next_spec)

lemma list_prev_in: "is_list h l (us @ x # y # ys) \<Longrightarrow> list_prev (Some y) h = Inr (Some x)"
  using list_prev_spec [of h l "us @ [x]" y ys] by simp

text \<open>Two positions in a list differ when something lies between them.\<close>

lemma at_neq: "is_list h l (us @ x # ys @ vs) \<Longrightarrow> x \<noteq> hd (vs @ [tail l])"
  by (cases vs) (auto simp: is_list_def)

lemma is_sorted_loop_spec:
  "is_list h l (us @ x # ys @ vs) \<Longrightarrow>
   is_sorted_loop (Some x) (at vs l) (Some f) aux h = Some (Inr (run (less_on f aux) (x # ys)))"
proof (induction ys arbitrary: us x)
  case Nil
  then show ?case
    using list_next_in [OF Nil.prems] by (subst is_sorted_loop.simps) simp
next
  case (Cons y ys)
  have l: "is_list h l ((us @ [x]) @ y # ys @ vs)" using Cons.prems by simp
  have "list_next (Some x) h = Inr (Some y)" "list_prev (Some y) h = Inr (Some x)" "y \<noteq> hd (vs @ [tail l])"
    using list_next_in [OF Cons.prems] list_prev_in [of h l us x y "ys @ vs"] Cons.prems at_neq [OF l] by simp_all
  then show ?case
    using Cons.IH [OF l] by (subst is_sorted_loop.simps) simp
qed

lemma is_sorted_spec:
  assumes "is_list h l (us @ xs @ vs)"
  shows "is_sorted (at (xs @ vs) l) (at vs l) (Some f) aux h = Some (Inr (run (less_on f aux) xs))"
proof (cases xs)
  case Nil
  then show ?thesis by (simp add: is_sorted_def)
next
  case (Cons x ys)
  then show ?thesis
    using is_sorted_loop_spec [of h l us x ys vs f aux] at_neq [of h l us x ys vs] assms
    by (simp add: is_sorted_def)
qed

lemma find_end_of_run_loop_spec:
  "is_list h l (us @ x # ys) \<Longrightarrow>
   find_end_of_run_loop (Some x) (Some (tail l)) (Some f) aux h =
     Some (Inr (at (snd (split_run (less_on f aux) x ys)) l))"
proof (induction ys arbitrary: us x)
  case Nil
  then show ?case
    using list_next_in [OF Nil.prems] by (subst find_end_of_run_loop.simps) simp
next
  case (Cons y ys)
  have l: "is_list h l ((us @ [x]) @ y # ys)" using Cons.prems by simp
  have "list_next (Some x) h = Inr (Some y)" "list_prev (Some y) h = Inr (Some x)" "y \<noteq> tail l"
    using list_next_in [OF Cons.prems] list_prev_in [of h l us x y ys] Cons.prems at_not_tail [OF l] by simp_all
  then show ?case
    using Cons.IH [OF l] by (subst find_end_of_run_loop.simps) (simp split: prod.split)
qed

lemma find_end_of_run_spec:
  assumes "is_list h l (us @ x # ys)"
  shows "find_end_of_run (Some x) (Some (tail l)) (Some f) aux h =
    Some (Inr (at (snd (split_run (less_on f aux) x ys)) l))"
  using find_end_of_run_loop_spec [OF assms] at_not_tail [OF assms] by (simp add: find_end_of_run_def)

lemma inplace_merge_loop_spec:
  "is_list h l (us @ xs @ ys @ vs) \<Longrightarrow>
   \<exists>h'. inplace_merge_loop (at (xs @ ys @ vs) l) (at (ys @ vs) l) (at vs l) (Some f) aux h = Some (Inr h') \<and>
     is_list h' l (us @ merge (less_on f aux) xs ys @ vs) \<and> only_changes h h' (nodes l (us @ xs @ ys @ vs))"
proof (induction "less_on f aux" xs ys arbitrary: us h rule: merge.induct)
  case (1 x xs y ys)
  have ne: "x \<noteq> y" "y \<noteq> hd (vs @ [tail l])"
    using 1(3) at_neq [of h l "us @ (x # xs)" y ys vs] by (auto simp: is_list_def)
  show ?case
  proof (cases "less_on f aux y x")
    case False
    have l: "is_list h l ((us @ [x]) @ xs @ (y # ys) @ vs)" using 1(3) by simp
    have nx: "list_next (Some x) h = Inr (at (xs @ (y # ys) @ vs) l)"
      using list_next_in [of h l us x] 1(3) by simp
    show ?thesis
      using 1(1) [OF _ l] False nx ne
      by (subst inplace_merge_loop.simps) simp
  next
    case True
    have l: "is_list h l (us @ (x # xs) @ [y] @ (ys @ vs))" using 1(3) by simp
    obtain h1 where h1: "list_splice (Some x) (Some y) (at (ys @ vs) l) h = Inr h1"
      "is_list h1 l (us @ [y] @ (x # xs) @ ys @ vs)" "only_changes h h1 (nodes l (us @ (x # xs) @ [y] @ (ys @ vs)))"
      using list_splice_spec [OF l] by blast
    have nx: "list_next (Some y) h = Inr (at (ys @ vs) l)"
      using list_next_in [of h l "us @ (x # xs)" y "ys @ vs"] 1(3) by simp
    have pv: "list_prev (at (ys @ vs) l) h = Inr (Some y)"
    proof (cases "ys @ vs")
      case Nil
      then show ?thesis using list_prev_tail_spec [of h l "us @ (x # xs) @ [y]"] 1(3) by simp
    next
      case (Cons w ws)
      then show ?thesis using list_prev_in [of h l "us @ (x # xs)" y w ws] 1(3) by simp
    qed
    have "is_list h1 l ((us @ [y]) @ (x # xs) @ ys @ vs)" using h1(2) by simp
    from 1(2) [OF _ this] True obtain h' where h':
      "inplace_merge_loop (at ((x # xs) @ ys @ vs) l) (at (ys @ vs) l) (at vs l) (Some f) aux h1 = Some (Inr h')"
      "is_list h' l ((us @ [y]) @ merge (less_on f aux) (x # xs) ys @ vs)"
      "only_changes h1 h' (nodes l ((us @ [y]) @ (x # xs) @ ys @ vs))"
      by auto
    have "only_changes h h' (nodes l (us @ (x # xs) @ (y # ys) @ vs))"
      by (rule only_changes_trans [OF h1(3) h'(3)]) auto
    then show ?thesis
      using True nx pv h1(1) h'(1,2) ne
      by (subst inplace_merge_loop.simps) simp
  qed
next
  case (2 ys)
  then show ?case by (subst inplace_merge_loop.simps) simp
next
  case (3 x xs)
  then show ?case by (subst inplace_merge_loop.simps) simp
qed

lemma inplace_merge_spec:
  assumes "is_list h l (us @ xs @ ys @ vs)" "run (less_on f aux) xs" "run (less_on f aux) ys"
  shows "\<exists>h'. inplace_merge (at (xs @ ys @ vs) l) (at (ys @ vs) l) (at vs l) (Some f) aux h = Some (Inr h') \<and>
     is_list h' l (us @ merge (less_on f aux) xs ys @ vs) \<and> only_changes h h' (nodes l (us @ xs @ ys @ vs))"
  using inplace_merge_loop_spec [OF assms(1), of f aux] is_sorted_spec [OF assms(1), of f aux]
    is_sorted_spec [of h l "us @ xs" ys vs f aux] assms
  by (simp add: inplace_merge_def)

lemma set_pass: "set (pass lt xs) = set xs"
  by (metis mset_pass set_mset_mset)

lemma length_pass: "length (pass lt xs) = length xs"
  by (metis mset_pass size_mset)

lemma set_merge: "set (merge lt xs ys) = set xs \<union> set ys"
  by (metis mset_merge set_mset_mset set_mset_union)

text \<open>One pass; the counter counts the output runs.\<close>

lemma list_sort_pass_spec:
  "is_list h l (us @ xs) \<Longrightarrow>
   \<exists>h'. list_sort_pass (Some l) (Some f) aux (at xs l) cnt h = Some (Inr (cnt + of_nat (out_runs (less_on f aux) xs), h')) \<and>
     is_list h' l (us @ pass (less_on f aux) xs) \<and> only_changes h h' (nodes l (us @ xs))"
proof (induction "less_on f aux" xs arbitrary: us cnt h rule: pass.induct)
  case 1
  then show ?case by (subst list_sort_pass.simps) simp
next
  case (2 x xs)
  let ?lt = "less_on f aux"
  obtain as bs where s: "split_run ?lt x xs = (as, bs)" by fastforce
  have xs: "xs = as @ bs" using split_run_append [OF s] .
  have e1: "find_end_of_run (Some x) (Some (tail l)) (Some f) aux h = Some (Inr (at bs l))"
    using find_end_of_run_spec [OF 2(2), of f aux] s by simp
  have xt: "x \<noteq> tail l" using at_not_tail [OF 2(2)] .
  show ?case
  proof (cases bs)
    case Nil
    then show ?thesis
      using e1 xt s xs 2(2) by (subst list_sort_pass.simps) simp
  next
    case (Cons y ys)
    obtain cs ds where s': "split_run ?lt y ys = (cs, ds)" by fastforce
    have ys: "ys = cs @ ds" using split_run_append [OF s'] .
    have l: "is_list h l (us @ (x # as) @ (y # cs) @ ds)" using 2(2) xs Cons ys by simp
    have l2: "is_list h l ((us @ (x # as)) @ y # ys)" using 2(2) xs Cons by simp
    have e2: "find_end_of_run (Some y) (Some (tail l)) (Some f) aux h = Some (Inr (at ds l))"
      using find_end_of_run_spec [OF l2, of f aux] s' by simp
    have yt: "y \<noteq> tail l" using at_not_tail [OF l2] .
    obtain h1 where h1: "inplace_merge (at ((x # as) @ (y # cs) @ ds) l) (at ((y # cs) @ ds) l) (at ds l) (Some f) aux h = Some (Inr h1)"
      "is_list h1 l (us @ merge ?lt (x # as) (y # cs) @ ds)" "only_changes h h1 (nodes l (us @ (x # as) @ (y # cs) @ ds))"
      using inplace_merge_spec [OF l split_run_run [OF s] split_run_run [OF s']] by blast
    have "is_list h1 l ((us @ merge ?lt (x # as) (y # cs)) @ ds)" using h1(2) by simp
    from 2(1) [OF s [symmetric] Cons s' [symmetric] this, of "cnt + 1"] obtain h' where h':
      "list_sort_pass (Some l) (Some f) aux (at ds l) (cnt + 1) h1 = Some (Inr (cnt + 1 + of_nat (out_runs ?lt ds), h'))"
      "is_list h' l ((us @ merge ?lt (x # as) (y # cs)) @ pass ?lt ds)"
      "only_changes h1 h' (nodes l ((us @ merge ?lt (x # as) (y # cs)) @ ds))"
      by blast
    have "only_changes h h' (nodes l (us @ x # xs))"
      by (rule only_changes_trans [OF h1(3) h'(3)]) (use xs Cons ys in \<open>auto simp: set_merge\<close>)
    then show ?thesis
      using e1 e2 xt yt s s' xs Cons ys h1(1) h'(1,2)
      by (subst list_sort_pass.simps) (simp add: algebra_simps)
  qed
qed

lemma of_nat_run_count:
  assumes "n < 2 ^ 32"
  shows "1 < (of_nat n :: u32) \<longleftrightarrow> 1 < n"
  using assms by (simp add: word_less_nat_alt unat_of_nat take_bit_nat_eq_self)

text \<open>The passes the outer loop makes.\<close>

function passes :: "('a \<Rightarrow> 'a \<Rightarrow> bool) \<Rightarrow> 'a list \<Rightarrow> 'a list" where
  "passes lt xs =
     (if 1 < out_runs lt xs \<and> descents lt (pass lt xs) < descents lt xs then passes lt (pass lt xs) else pass lt xs)"
  by pat_completeness auto
termination
  by (relation "measure (\<lambda>(lt, xs). descents lt xs)") auto

declare passes.simps [simp del]

lemma mset_passes: "mset (passes lt xs) = mset xs"
proof (induction lt xs rule: passes.induct)
  case (1 lt xs)
  then show ?case by (subst passes.simps) (simp add: mset_pass)
qed

lemma run_passes:
  assumes asym: "\<And>x y. lt x y \<Longrightarrow> \<not> lt y x"
  shows "run lt (passes lt xs)"
  using asym
proof (induction lt xs rule: passes.induct)
  case (1 lt xs)
  show ?case
  proof (cases "1 < out_runs lt xs")
    case True
    then have "descents lt (pass lt xs) < descents lt xs" using pass_progress(1) 1(2) by blast
    with True 1 show ?thesis by (subst passes.simps) simp
  next
    case False
    have "run lt (pass lt xs)" by (rule pass_progress(2)) (use 1(2) False in auto)
    with False show ?thesis by (subst passes.simps) simp
  qed
qed

lemma list_sort_loop_spec:
  assumes asym: "\<And>x y. less_on f aux x y \<Longrightarrow> \<not> less_on f aux y x"
  shows "is_list h l xs \<Longrightarrow> length xs < 2 ^ 32 \<Longrightarrow>
   \<exists>h'. list_sort_loop (Some l) (Some f) aux h = Some (Inr h') \<and>
     is_list h' l (passes (less_on f aux) xs) \<and> only_changes h h' (nodes l xs)"
proof (induction "less_on f aux" xs arbitrary: h rule: passes.induct)
  case (1 xs)
  let ?lt = "less_on f aux"
  obtain h1 where h1: "list_sort_pass (Some l) (Some f) aux (at xs l) 0 h = Some (Inr (of_nat (out_runs ?lt xs), h1))"
    "is_list h1 l (pass ?lt xs)" "only_changes h h1 (nodes l xs)"
    using list_sort_pass_spec [of h l "[]" xs f aux 0] 1(2) by auto
  have cnt: "1 < (of_nat (out_runs ?lt xs) :: u32) \<longleftrightarrow> 1 < out_runs ?lt xs"
    using length_out_runs [of ?lt xs] 1(3) by (intro of_nat_run_count) linarith
  show ?case
  proof (cases "1 < out_runs ?lt xs")
    case True
    then have d: "descents ?lt (pass ?lt xs) < descents ?lt xs" using pass_progress(1) asym by blast
    obtain h' where h': "list_sort_loop (Some l) (Some f) aux h1 = Some (Inr h')"
      "is_list h' l (passes ?lt (pass ?lt xs))" "only_changes h1 h' (nodes l (pass ?lt xs))"
      using 1(1) [OF _ h1(2)] True d 1(3) by (auto simp: length_pass)
    have "nodes l (pass ?lt xs) = nodes l xs" by (simp add: nodes_def set_pass)
    then have "only_changes h h' (nodes l xs)"
      using only_changes_trans [OF h1(3) h'(3)] by auto
    then show ?thesis
      using True d cnt h1(1) h'(1,2) list_begin_spec [OF 1(2)]
      by (subst list_sort_loop.simps, subst passes.simps) simp
  next
    case False
    then show ?thesis
      using cnt h1 list_begin_spec [OF 1(2)]
      by (subst list_sort_loop.simps, subst passes.simps) simp
  qed
qed

lemma list_sort_spec:
  assumes asym: "\<And>x y. less_on f aux x y \<Longrightarrow> \<not> less_on f aux y x"
    and l: "is_list h l xs" "length xs < 2 ^ 32"
  obtains h' where "list_sort (Some l) (Some f) aux h = Some (Inr h')"
    "is_list h' l (passes (less_on f aux) xs)" "only_changes h h' (nodes l xs)"
proof -
  obtain h' where h': "list_sort_loop (Some l) (Some f) aux h = Some (Inr h')"
    "is_list h' l (passes (less_on f aux) xs)" "only_changes h h' (nodes l xs)"
    using list_sort_loop_spec [OF asym l] by blast
  have "is_sorted (at (passes (less_on f aux) xs) l) (Some (tail l)) (Some f) aux h' = Some (Inr True)"
    using is_sorted_spec [of h' l "[]" "passes (less_on f aux) xs" "[]" f aux] h'(2) run_passes [OF asym] by simp
  with h' that list_begin_spec [OF h'(2)] show thesis
    by (simp add: list_sort_def)
qed

section \<open>Sorted and stable\<close>

lemma run_sorted:
  assumes "strict_weak lt"
  shows "run lt xs = sorted_by lt xs"
proof (induction lt\<equiv>lt xs rule: run.induct)
  case (1 x y ys)
  have "\<not> lt z x" if "\<not> lt y x" "\<not> lt z y" for z
    by (rule strict_weakD(2) [OF assms that(2,1)])
  with 1 show ?case by auto
qed simp_all

text \<open>Elements that the comparison does not distinguish.\<close>

definition same_rank :: "('a \<Rightarrow> 'a \<Rightarrow> bool) \<Rightarrow> 'a \<Rightarrow> 'a \<Rightarrow> bool" where
  "same_rank lt x y \<longleftrightarrow> \<not> lt x y \<and> \<not> lt y x"

lemma merge_stable:
  assumes sw: "strict_weak lt"
  shows "run lt xs \<Longrightarrow> filter (same_rank lt k) (merge lt xs ys) = filter (same_rank lt k) xs @ filter (same_rank lt k) ys"
proof (induction lt\<equiv>lt xs ys rule: merge.induct)
  case (1 x xs y ys)
  show ?case
  proof (cases "lt y x")
    case True
    have "\<not> same_rank lt k z" if z: "z \<in> set (x # xs)" and y: "same_rank lt k y" for z
    proof
      assume k: "same_rank lt k z"
      have zx: "z = x \<or> \<not> lt z x" using 1(3) z by (auto simp: run_sorted [OF sw])
      have "\<not> lt y k" "\<not> lt k z" using y k by (auto simp: same_rank_def)
      then have yz: "\<not> lt y z" by (rule strict_weakD(2) [OF sw])
      with zx have "\<not> lt y x" using strict_weakD(2) [OF sw yz] by blast
      with True show False by simp
    qed
    then have none: "same_rank lt k y \<Longrightarrow> filter (same_rank lt k) (x # xs) = []"
      by (metis filter_False)
    have IH: "filter (same_rank lt k) (merge lt (x # xs) ys) = filter (same_rank lt k) (x # xs) @ filter (same_rank lt k) ys"
      using 1(2,3) True by blast
    have m: "merge lt (x # xs) (y # ys) = y # merge lt (x # xs) ys" using True by simp
    show ?thesis unfolding m using IH none by (cases "same_rank lt k y") simp_all
  next
    case False
    then show ?thesis using 1 by (simp add: run_Cons)
  qed
qed simp_all

lemma pass_stable:
  assumes sw: "strict_weak lt"
  shows "filter (same_rank lt k) (pass lt xs) = filter (same_rank lt k) xs"
proof (induction lt\<equiv>lt xs rule: pass.induct)
  case (2 x xs)
  obtain as bs where s: "split_run lt x xs = (as, bs)" by fastforce
  show ?case
  proof (cases bs)
    case Nil
    with s split_run_append [OF s] show ?thesis by simp
  next
    case (Cons y ys)
    obtain cs ds where s': "split_run lt y ys = (cs, ds)" by fastforce
    have "pass lt (x # xs) = merge lt (x # as) (y # cs) @ pass lt ds" using s s' Cons by simp
    moreover have "x # xs = (x # as) @ (y # cs) @ ds"
      using split_run_append [OF s] split_run_append [OF s'] Cons by simp
    ultimately show ?thesis
      using merge_stable [OF sw split_run_run [OF s], of k "y # cs"] 2(1) [OF s [symmetric] Cons s' [symmetric]]
      by (simp only: filter_append append_assoc)
  qed
qed simp

lemma passes_stable:
  assumes sw: "strict_weak lt"
  shows "filter (same_rank lt k) (passes lt xs) = filter (same_rank lt k) xs"
proof (induction lt\<equiv>lt xs rule: passes.induct)
  case (1 xs)
  then show ?case using pass_stable [OF sw] by (subst passes.simps) simp
qed

end
