(* ===== verification/Queue.thy ===== *)
theory Queue
  imports Prelude
begin

text \<open>
  The contract of a first-in first-out queue whose operations may fail: the interface that the
  scheduler's use of list.c rests on.  \<open>rep h xs\<close> says that the state \<open>h\<close> represents the queue
  \<open>xs\<close>; \<open>free h x\<close> that \<open>x\<close> may be put into a queue.
\<close>

primrec enq_all :: "('a \<Rightarrow> 'h \<Rightarrow> error + 'h) \<Rightarrow> 'a list \<Rightarrow> 'h \<Rightarrow> error + 'h" where
  "enq_all enq [] h = Inr h"
| "enq_all enq (x # xs) h = bindE (enq x h) (enq_all enq xs)"

primrec deq_all :: "('h \<Rightarrow> error + ('a \<times> 'h)) \<Rightarrow> nat \<Rightarrow> 'h \<Rightarrow> error + ('a list \<times> 'h)" where
  "deq_all deq 0 h = Inr ([], h)"
| "deq_all deq (Suc n) h = bindE (deq h) (\<lambda>(x, h). bindE (deq_all deq n h) (\<lambda>(xs, h). Inr (x # xs, h)))"

locale fifo_queue =
  fixes enq :: "'a \<Rightarrow> 'h \<Rightarrow> error + 'h"
    and deq :: "'h \<Rightarrow> error + ('a \<times> 'h)"
    and rep :: "'h \<Rightarrow> 'a list \<Rightarrow> bool"
    and free :: "'h \<Rightarrow> 'a \<Rightarrow> bool"
  assumes enq: "rep h xs \<Longrightarrow> free h x \<Longrightarrow> x \<notin> set xs \<Longrightarrow>
      \<exists>h'. enq x h = Inr h' \<and> rep h' (xs @ [x]) \<and> free h' = free h"
    and deq: "rep h (x # xs) \<Longrightarrow> \<exists>h'. deq h = Inr (x, h') \<and> rep h' xs \<and> free h' = free h"
    and rep_free: "rep h xs \<Longrightarrow> x \<in> set xs \<Longrightarrow> free h x"
    and rep_distinct: "rep h xs \<Longrightarrow> distinct xs"
begin

lemma enq_all_spec:
  "rep h xs \<Longrightarrow> distinct (xs @ ys) \<Longrightarrow> \<forall>y\<in>set ys. free h y \<Longrightarrow>
   \<exists>h'. enq_all enq ys h = Inr h' \<and> rep h' (xs @ ys) \<and> free h' = free h"
proof (induction ys arbitrary: h xs)
  case (Cons y ys)
  obtain h1 where h1: "enq y h = Inr h1" "rep h1 (xs @ [y])" "free h1 = free h"
    using enq [OF Cons.prems(1), of y] Cons.prems by auto
  have "\<exists>h'. enq_all enq ys h1 = Inr h' \<and> rep h' ((xs @ [y]) @ ys) \<and> free h' = free h1"
    by (rule Cons.IH [OF h1(2)]) (use Cons.prems h1(3) in auto)
  with h1 show ?case by auto
qed auto

lemma deq_all_spec:
  "rep h (xs @ ys) \<Longrightarrow> \<exists>h'. deq_all deq (length xs) h = Inr (xs, h') \<and> rep h' ys \<and> free h' = free h"
proof (induction xs arbitrary: h)
  case (Cons x xs)
  obtain h1 where h1: "deq h = Inr (x, h1)" "rep h1 (xs @ ys)" "free h1 = free h"
    using deq Cons.prems by fastforce
  from Cons.IH [OF h1(2)] h1 show ?case by auto
qed auto

text \<open>First in, first out.\<close>

lemma fifo:
  assumes "rep h []" "distinct xs" "\<forall>x\<in>set xs. free h x"
  shows "\<exists>h1 h2. enq_all enq xs h = Inr h1 \<and> deq_all deq (length xs) h1 = Inr (xs, h2) \<and> rep h2 []"
proof -
  obtain h1 where h1: "enq_all enq xs h = Inr h1" "rep h1 (xs @ [])"
    using enq_all_spec [OF assms(1), of xs] assms by auto
  with deq_all_spec [OF h1(2)] show ?thesis by auto
qed

text \<open>Taking the front and putting it back rotates the queue.\<close>

lemma rotate:
  assumes "rep h (x # xs)"
  shows "\<exists>h1 h2. deq h = Inr (x, h1) \<and> enq x h1 = Inr h2 \<and> rep h2 (xs @ [x])"
proof -
  obtain h1 where h1: "deq h = Inr (x, h1)" "rep h1 xs" "free h1 = free h" using deq [OF assms] by blast
  have "free h1 x" using rep_free [OF assms, of x] h1(3) by simp
  moreover have "x \<notin> set xs" using rep_distinct [OF assms] by simp
  ultimately obtain h2 where "enq x h1 = Inr h2" "rep h2 (xs @ [x])" using enq [OF h1(2)] by blast
  with h1(1) show ?thesis by blast
qed

end

end
