(* ===== verification/CList_Props.thy ===== *)
theory CList_Props
  imports CList_Sort Queue
begin

text \<open>
  The properties of src/misc/list.c, on every well-formed list in memory, and the list as an
  instance of the queue contract.
\<close>

section \<open>The list as a queue\<close>

definition push_elem :: "'a clist \<Rightarrow> 'a \<Rightarrow> 'a heap \<Rightarrow> error + 'a heap" where
  "push_elem l e h = list_push_back (Some l) (Some e) h"

definition pop_elem :: "'a clist \<Rightarrow> 'a heap \<Rightarrow> error + ('a \<times> 'a heap)" where
  "pop_elem l h = bindE (list_pop_front (Some l) h) (\<lambda>(p, h). bindE (deref p) (\<lambda>e. Inr (e, h)))"

definition usable :: "'a clist \<Rightarrow> 'a heap \<Rightarrow> 'a \<Rightarrow> bool" where
  "usable l h e \<longleftrightarrow> e \<in> dom h \<and> e \<noteq> head l \<and> e \<noteq> tail l"

lemma usable_cong: "only_changes h h' S \<Longrightarrow> usable l h' = usable l h"
  by (simp add: usable_def only_changes_def fun_eq_iff)

interpretation lq: fifo_queue "push_elem l" "pop_elem l" "\<lambda>h. is_list h l" "usable l" for l
proof
  fix h :: "'a heap" and xs x
  assume l: "is_list h l xs" "usable l h x" "x \<notin> set xs"
  then obtain c where "h x = Some c" "x \<notin> nodes l xs" by (auto simp: usable_def nodes_def)
  then obtain h' where "list_push_back (Some l) (Some x) h = Inr h'" "is_list h' l (xs @ [x])"
    "only_changes h h' (insert x (nodes l xs))"
    using list_push_back_spec [OF l(1)] by blast
  then show "\<exists>h'. push_elem l x h = Inr h' \<and> is_list h' l (xs @ [x]) \<and> usable l h' = usable l h"
    using usable_cong by (fastforce simp: push_elem_def)
next
  fix h :: "'a heap" and x xs
  assume "is_list h l (x # xs)"
  then obtain h' where "list_pop_front (Some l) h = Inr (Some x, h')" "is_list h' l xs"
    "only_changes h h' (nodes l xs)"
    by (rule list_pop_front_spec)
  then show "\<exists>h'. pop_elem l h = Inr (x, h') \<and> is_list h' l xs \<and> usable l h' = usable l h"
    using usable_cong by (fastforce simp: pop_elem_def)
next
  fix h :: "'a heap" and xs x
  assume l: "is_list h l xs" "x \<in> set xs"
  then show "usable l h x"
    using is_list_mapped [OF l(1), of x] by (auto simp: usable_def is_list_def nodes_def)
next
  fix h :: "'a heap" and xs
  assume "is_list h l xs"
  then show "distinct xs" by (simp add: is_list_def)
qed

text \<open>
  Five elements in memory, numbered, and the header of an empty list at 0 and 9: the concrete
  input of the witnesses.
\<close>

definition sample_heap :: "nat heap" where
  "sample_heap a =
     (if a = 0 then Some \<lparr>prev = None, next = Some 9\<rparr>
      else if a = 9 then Some \<lparr>prev = Some 0, next = None\<rparr>
      else if a < 9 then Some \<lparr>prev = None, next = None\<rparr> else None)"

definition sample_list :: "nat clist" where
  "sample_list = \<lparr>head = 0, tail = 9\<rparr>"

lemma sample_empty: "is_list sample_heap sample_list []"
  by (simp add: is_list_def sample_heap_def sample_list_def nxt_def prv_def)

lemma sample_filled:
  assumes "distinct xs" "set xs \<subseteq> {1..<9}"
  shows "\<exists>h. is_list h sample_list xs \<and> dom h = dom sample_heap"
proof -
  have "\<forall>x\<in>set xs. usable sample_list sample_heap x"
    using assms(2) by (auto simp: usable_def sample_heap_def sample_list_def dom_def)
  then obtain h where h: "is_list h sample_list ([] @ xs)" "usable sample_list h = usable sample_list sample_heap"
    using lq.enq_all_spec [OF sample_empty, of xs] assms(1) by auto
  have "x \<in> dom h \<longleftrightarrow> x \<in> dom sample_heap" for x
  proof (cases "x = 0 \<or> x = 9")
    case True
    then show ?thesis
      using is_list_mapped [OF h(1), of x] by (auto simp: nodes_def sample_list_def sample_heap_def)
  next
    case False
    then show ?thesis using fun_cong [OF h(2), of x] by (simp add: usable_def sample_list_def)
  qed
  then have "dom h = dom sample_heap" by blast
  with h(1) show ?thesis by auto
qed

text \<open>C25: Pushing distinct elements of memory at the back of an empty list and popping as many from the
  front returns the elements in the order of the pushes and leaves the list empty.\<close>

theorem list_fifo:
  assumes "is_list h l []" "distinct xs" "\<forall>x\<in>set xs. usable l h x"
  shows "\<exists>h1 h2. enq_all (push_elem l) xs h = Inr h1 \<and> deq_all (pop_elem l) (length xs) h1 = Inr (xs, h2) \<and> is_list h2 l []"
  by (rule lq.fifo [OF assms])

theorem list_fifo_witness:
  "\<exists>h1 h2. enq_all (push_elem sample_list) [3, 1, 2] sample_heap = Inr h1 \<and>
     deq_all (pop_elem sample_list) 3 h1 = Inr ([3, 1, 2], h2) \<and> is_list h2 sample_list []"
  using list_fifo [OF sample_empty, of "[3, 1, 2]"]
  by (simp add: usable_def sample_heap_def sample_list_def numeral_eq_Suc dom_def)

section \<open>Sorting\<close>

text \<open>C26: \<open>list_sort\<close> with a comparison that is a strict weak order returns (no assertion in it fails and
  all its loops end), the list then holds a sorted permutation of its elements in which elements the
  comparison does not distinguish keep their order, and no memory outside the list changes.\<close>

theorem list_sort_correct:
  assumes "strict_weak (less_on f aux)" "is_list h l xs" "length xs < 2 ^ 32"
  shows "\<exists>h' ys. list_sort (Some l) (Some f) aux h = Some (Inr h') \<and> is_list h' l ys \<and>
    sorted_by (less_on f aux) ys \<and> mset ys = mset xs \<and>
    (\<forall>k. filter (same_rank (less_on f aux) k) ys = filter (same_rank (less_on f aux) k) xs) \<and>
    only_changes h h' (nodes l xs)"
proof -
  have asym: "less_on f aux x y \<Longrightarrow> \<not> less_on f aux y x" for x y
    by (rule strict_weakD(1) [OF assms(1)])
  obtain h' where "list_sort (Some l) (Some f) aux h = Some (Inr h')"
    "is_list h' l (passes (less_on f aux) xs)" "only_changes h h' (nodes l xs)"
    by (rule list_sort_spec [OF asym assms(2,3)])
  moreover have "run (less_on f aux) (passes (less_on f aux) xs)"
    by (rule run_passes) (rule asym)
  ultimately show ?thesis
    using run_sorted [OF assms(1)] mset_passes passes_stable [OF assms(1)] by blast
qed

text \<open>An order on the sample elements: by value modulo 4.\<close>

definition by_mod4 :: "(nat, unit) list_less_func" where
  "by_mod4 p q aux = (case (p, q) of (Some x, Some y) \<Rightarrow> x mod 4 < y mod 4 | _ \<Rightarrow> False)"

lemma by_mod4_weak: "strict_weak (less_on by_mod4 ())"
  by (auto simp: strict_weak_def less_on_def by_mod4_def)

theorem list_sort_correct_witness:
  "\<exists>h h' ys. is_list h sample_list [7, 6, 3, 5, 1] \<and> list_sort (Some sample_list) (Some by_mod4) () h = Some (Inr h') \<and>
     is_list h' sample_list ys \<and> sorted_by (less_on by_mod4 ()) ys \<and> mset ys = mset [7, 6, 3, 5, 1]"
proof -
  obtain h where h: "is_list h sample_list [7, 6, 3, 5, 1]"
    using sample_filled [of "[7, 6, 3, 5, 1]"] by auto
  with list_sort_correct [OF by_mod4_weak h] show ?thesis by auto
qed

text \<open>\<open>list_reverse\<close> returns and reverses the list in place; reversing twice gives the list back.\<close>

theorem list_reverse_twice:
  assumes "is_list h l xs"
  shows "\<exists>h1 h2. list_reverse (Some l) h = Some (Inr h1) \<and> is_list h1 l (rev xs) \<and>
    list_reverse (Some l) h1 = Some (Inr h2) \<and> is_list h2 l xs \<and> only_changes h h2 (nodes l xs)"
proof -
  obtain h1 where h1: "list_reverse (Some l) h = Some (Inr h1)" "is_list h1 l (rev xs)" "only_changes h h1 (nodes l xs)"
    by (rule list_reverse_spec [OF assms])
  obtain h2 where h2: "list_reverse (Some l) h1 = Some (Inr h2)" "is_list h2 l (rev (rev xs))"
    "only_changes h1 h2 (nodes l (rev xs))"
    by (rule list_reverse_spec [OF h1(2)])
  have "only_changes h h2 (nodes l xs)"
    by (rule only_changes_trans [OF h1(3) h2(3)]) (simp add: nodes_def)
  with h1 h2 show ?thesis by auto
qed

theorem list_reverse_twice_witness:
  "\<exists>h h1. is_list h sample_list [4, 2, 7] \<and> list_reverse (Some sample_list) h = Some (Inr h1) \<and> is_list h1 sample_list [7, 2, 4]"
proof -
  obtain h where h: "is_list h sample_list [4, 2, 7]" using sample_filled [of "[4, 2, 7]"] by auto
  from list_reverse_twice [OF h] h show ?thesis by auto
qed



text \<open>\<open>list_max\<close> on a nonempty list returns an element than which none is larger, and every element before
  it is strictly smaller: it is the first maximum.\<close>

theorem list_max_correct:
  assumes "strict_weak (less_on f aux)" "is_list h l (x # xs)"
  shows "\<exists>m us vs. list_max (Some l) (Some f) aux h = Some (Inr (Some m)) \<and> x # xs = us @ m # vs \<and>
    (\<forall>y\<in>set (x # xs). \<not> less_on f aux m y) \<and> (\<forall>u\<in>set us. less_on f aux u m)"
  using list_max_spec [OF assms(2), of f aux] max_of_first [OF assms(1), of x xs] max_of_ge [OF assms(1), of _ x xs]
  by auto

theorem list_max_correct_witness:
  "\<exists>h m us vs. is_list h sample_list [6, 3, 7, 4] \<and> list_max (Some sample_list) (Some by_mod4) () h = Some (Inr (Some m)) \<and>
     [6, 3, 7, 4] = us @ m # vs \<and> (\<forall>u\<in>set us. less_on by_mod4 () u m)"
proof -
  obtain h where h: "is_list h sample_list [6, 3, 7, 4]" using sample_filled [of "[6, 3, 7, 4]"] by auto
  from list_max_correct [OF by_mod4_weak h] h show ?thesis by blast
qed

text \<open>\<open>list_min\<close> likewise returns the first minimum.\<close>

theorem list_min_correct:
  assumes "strict_weak (less_on f aux)" "is_list h l (x # xs)"
  shows "\<exists>m us vs. list_min (Some l) (Some f) aux h = Some (Inr (Some m)) \<and> x # xs = us @ m # vs \<and>
    (\<forall>y\<in>set (x # xs). \<not> less_on f aux y m) \<and> (\<forall>u\<in>set us. less_on f aux m u)"
proof -
  note w = strict_weak_converse [OF assms(1)]
  show ?thesis
    using list_min_spec [OF assms(2), of f aux] max_of_first [OF w, of x xs] max_of_ge [OF w, of _ x xs]
    unfolding min_of_max_of by auto
qed

theorem list_min_correct_witness:
  "\<exists>h m us vs. is_list h sample_list [6, 1, 5, 3] \<and> list_min (Some sample_list) (Some by_mod4) () h = Some (Inr (Some m)) \<and>
     [6, 1, 5, 3] = us @ m # vs \<and> (\<forall>u\<in>set us. less_on by_mod4 () m u)"
proof -
  obtain h where h: "is_list h sample_list [6, 1, 5, 3]" using sample_filled [of "[6, 1, 5, 3]"] by auto
  from list_min_correct [OF by_mod4_weak h] h show ?thesis by blast
qed

section \<open>Duplicates, insertion and removal\<close>

lemma hd_uniq: "fst (uniq lt x ys) \<noteq> [] \<and> hd (fst (uniq lt x ys)) = x"
  by (induction lt x ys rule: uniq.induct) (auto split: prod.splits)

lemma uniq_adjacent: "successively (\<lambda>a b. \<not> same_rank lt a b) (fst (uniq lt x ys))"
proof (induction lt x ys rule: uniq.induct)
  case (2 lt x y ys)
  then show ?case
    using hd_uniq [of lt y ys]
    by (auto simp: case_prod_unfold successively_Cons same_rank_def)
qed simp

lemma mset_uniq: "mset (fst (uniq lt x ys)) + mset (snd (uniq lt x ys)) = mset (x # ys)"
  by (induction lt x ys rule: uniq.induct) (auto simp: case_prod_unfold)

text \<open>\<open>list_unique\<close> with a list for the duplicates returns, keeps a list in which no two neighbours are
  equal under the comparison, and moves the rest to the end of the other list; no element is lost.\<close>

theorem list_unique_correct:
  assumes "is_list h l (x # xs)" "is_list h d ds" "nodes d ds \<inter> nodes l (x # xs) = {}"
  shows "\<exists>h' ks ms. list_unique (Some l) (Some d) (Some f) aux h = Some (Inr h') \<and> is_list h' l ks \<and>
    is_list h' d (ds @ ms) \<and> mset ks + mset ms = mset (x # xs) \<and>
    successively (\<lambda>a b. \<not> same_rank (less_on f aux) a b) ks"
proof -
  have "dups_ok h (Some d) ds (nodes l (x # xs))" using assms(2,3) by (simp add: dups_ok_def)
  from list_unique_spec [OF assms(1) this, of f aux] show ?thesis
    using mset_uniq [of "less_on f aux" x xs] uniq_adjacent [of "less_on f aux" x xs]
    by (auto simp: dups_ok_def)
qed

theorem list_unique_correct_witness:
  "\<exists>h h' ks ms. is_list h sample_list [5, 1, 2, 6, 3] \<and>
     list_unique (Some sample_list) (Some \<lparr>head = 20, tail = 21\<rparr>) (Some by_mod4) () h = Some (Inr h') \<and>
     is_list h' sample_list ks \<and> is_list h' \<lparr>head = 20, tail = 21\<rparr> ms \<and> mset ks + mset ms = mset [5, 1, 2, 6, 3]"
proof -
  let ?d = "\<lparr>head = 20, tail = 21\<rparr> :: nat clist"
  obtain g where g: "is_list g sample_list [5, 1, 2, 6, 3]"
    using sample_filled [of "[5, 1, 2, 6, 3]"] by auto
  define h where "h = g(20 \<mapsto> \<lparr>prev = None, next = Some 21\<rparr>, 21 \<mapsto> \<lparr>prev = Some 20, next = None\<rparr>)"
  have l: "is_list h sample_list [5, 1, 2, 6, 3]"
    by (rule is_list_frame [OF g]) (auto simp: h_def nodes_def sample_list_def)
  have d: "is_list h ?d []" by (simp add: is_list_def h_def nxt_def prv_def)
  have "nodes ?d [] \<inter> nodes sample_list [5, 1, 2, 6, 3] = {}" by (auto simp: nodes_def sample_list_def)
  from list_unique_correct [OF l d this, of by_mod4 "()"] l show ?thesis by auto
qed

text \<open>Insertion followed by removal of the same element gives back the list and every cell of memory but
  the element's own.\<close>

theorem list_insert_remove:
  assumes "is_list h l (xs @ ys)" "usable l h e" "e \<notin> set (xs @ ys)"
  shows "\<exists>h1 h2 n. list_insert (Some (hd (ys @ [tail l]))) (Some e) h = Inr h1 \<and> is_list h1 l (xs @ e # ys) \<and>
    list_remove (Some e) h1 = Inr (n, h2) \<and> n = Some (hd (ys @ [tail l])) \<and> (\<forall>a. a \<noteq> e \<longrightarrow> h2 a = h a)"
proof -
  define b p where "b = hd (ys @ [tail l])" and "p = last (head l # xs)"
  note L = is_listD [OF assms(1)]
  obtain ce where ce: "h e = Some ce" using assms(2) by (auto simp: usable_def)
  have "chain h (head l) xs b" using L(1) by (simp add: chain_split b_def)
  from chain_last [OF this] have np: "nxt h p = Some b" "prv h b = Some p" by (simp_all add: p_def)
  obtain cp where cp: "h p = Some cp" "next cp = Some b" using np(1) by (auto dest: nxt_SomeD)
  obtain cb where cb: "h b = Some cb" "prev cb = Some p" using np(2) by (auto dest: prv_SomeD)
  have mem: "p \<in> insert (head l) (set xs)" "b \<in> insert (tail l) (set ys)"
    unfolding p_def b_def by (rule last_in_Cons) (cases ys, simp_all)
  have ne: "e \<noteq> b" "e \<noteq> p" "p \<noteq> b"
    using mem assms(2,3) L(2) by (auto simp: usable_def)
  define h1 where "h1 = h(e \<mapsto> \<lparr>prev = Some p, next = Some b\<rparr>, p \<mapsto> cp\<lparr>next := Some e\<rparr>, b \<mapsto> cb\<lparr>prev := Some e\<rparr>)"
  have i: "list_insert (Some b) (Some e) h = Inr h1"
    unfolding h1_def by (rule list_insert_eq) (use cb cp ce ne in auto)
  define h2 where "h2 = h1(p \<mapsto> (cp\<lparr>next := Some e\<rparr>)\<lparr>next := Some b\<rparr>, b \<mapsto> (cb\<lparr>prev := Some e\<rparr>)\<lparr>prev := Some p\<rparr>)"
  have r: "list_remove (Some e) h1 = Inr (Some b, h2)"
    unfolding h2_def by (rule list_remove_eq) (use ne in \<open>auto simp: h1_def\<close>)
  have "h2 a = h a" if "a \<noteq> e" for a
    using that cp cb ne by (cases cp; cases cb) (auto simp: h2_def h1_def)
  moreover have "is_list h1 l (xs @ e # ys)"
    using list_insert_spec [OF assms(1), of e ce] i ce assms(2,3) by (auto simp: b_def nodes_def usable_def)
  ultimately show ?thesis using i r by (auto simp: b_def)
qed

theorem list_insert_remove_witness:
  "\<exists>h h1 h2 n. is_list h sample_list [1, 2] \<and> list_insert (Some 2) (Some 7) h = Inr h1 \<and> is_list h1 sample_list [1, 7, 2] \<and>
     list_remove (Some 7) h1 = Inr (n, h2) \<and> n = Some 2 \<and> (\<forall>a. a \<noteq> 7 \<longrightarrow> h2 a = h a)"
proof -
  obtain h where h: "is_list h sample_list ([1] @ [2])" "dom h = dom sample_heap"
    using sample_filled [of "[1, 2]"] by auto
  have "usable sample_list h 7" using h(2) by (auto simp: usable_def sample_list_def sample_heap_def dom_def)
  from list_insert_remove [OF h(1) this] h(1) show ?thesis by auto
qed

end
