(* ===== verification/CList_Race.thy ===== *)
theory CList_Race
  imports CList_Spec
begin

text \<open>
  \<open>list_insert\<close> statement by statement, and what is left of a list when an insertion at its end is
  interrupted by another one, as when the timer interrupt wakes a thread while \<open>thread_create\<close> puts a new
  one on \<open>ready_list\<close> with interrupts enabled.
\<close>

section \<open>The statements\<close>

definition list_insert_steps :: "'a ptr \<Rightarrow> 'a ptr \<Rightarrow> ('a heap \<Rightarrow> error + 'a heap) list" where
  "list_insert_steps before elem =
     [\<lambda>h. bindE (orE (is_interior before h) (is_tail before h)) (\<lambda>c.
          bindE (ASSERT c ''is_interior (before) || is_tail (before)'') (\<lambda>_. Inr h)),
      \<lambda>h. bindE (ASSERT (elem \<noteq> NULL) ''elem != NULL'') (\<lambda>_. Inr h),
      \<lambda>h. bindE (load_prev before h) (\<lambda>bp. store_prev elem bp h),
      \<lambda>h. store_next elem before h,
      \<lambda>h. bindE (load_prev before h) (\<lambda>bp. store_next bp elem h),
      \<lambda>h. store_prev before elem h]"

primrec run_steps :: "('s \<Rightarrow> error + 's) list \<Rightarrow> 's \<Rightarrow> error + 's" where
  "run_steps [] h = Inr h"
| "run_steps (f # fs) h = bindE (f h) (run_steps fs)"

lemma run_steps_append: "run_steps (fs @ gs) h = bindE (run_steps fs h) (run_steps gs)"
proof (induction fs arbitrary: h)
  case (Cons f fs)
  then have "run_steps (fs @ gs) = (\<lambda>h. bindE (run_steps fs h) (run_steps gs))" by blast
  then show ?case by (simp add: bindE_assoc)
qed simp

lemma list_insert_run: "run_steps (list_insert_steps before elem) h = list_insert before elem h"
  by (simp add: list_insert_steps_def list_insert_def bindE_assoc)
    (simp add: bindE_def split: sum.splits)

lemma length_steps [simp]: "length (list_insert_steps before elem) = 6"
  by (simp add: list_insert_steps_def)

text \<open>An insertion of \<open>x\<close> at the end, interrupted after \<open>k\<close> statements by one of \<open>y\<close>.\<close>

definition interrupted_push :: "nat \<Rightarrow> 'a clist \<Rightarrow> 'a \<Rightarrow> 'a \<Rightarrow> 'a heap \<Rightarrow> error + 'a heap" where
  "interrupted_push k l x y h =
     (let fs = list_insert_steps (Some (tail l)) (Some x) in
      bindE (run_steps (take k fs) h) (\<lambda>h.
      bindE (list_push_back (Some l) (Some y) h) (\<lambda>h.
      run_steps (drop k fs) h)))"

section \<open>Forward links\<close>

text \<open>What a traversal with \<open>list_next\<close> sees.\<close>

fun forward :: "'a heap \<Rightarrow> 'a \<Rightarrow> 'a list \<Rightarrow> 'a \<Rightarrow> bool" where
  "forward h p [] q \<longleftrightarrow> nxt h p = Some q"
| "forward h p (x # xs) q \<longleftrightarrow> nxt h p = Some x \<and> forward h x xs q"

lemma forward_append: "forward h p (xs @ y # ys) q \<longleftrightarrow> forward h p xs y \<and> forward h y ys q"
  by (induction xs arbitrary: p) auto

lemma chain_forward: "chain h p xs q \<Longrightarrow> forward h p xs q"
  by (induction xs arbitrary: p) auto

lemma forward_retarget:
  assumes "chain h p xs q" "distinct (p # xs)"
    and "nxt h' (last (p # xs)) = Some e" "\<And>a. a \<in> set (p # xs) \<Longrightarrow> a \<noteq> last (p # xs) \<Longrightarrow> nxt h' a = nxt h a"
  shows "forward h' p xs e"
  using assms
proof (induction xs arbitrary: p)
  case (Cons x xs)
  have "p \<noteq> last (x # xs)" using Cons.prems(2) last_in_Cons [of x xs] by auto
  then have "nxt h' p = nxt h p" using Cons.prems(4) by simp
  moreover have "forward h' x xs e" by (rule Cons.IH) (use Cons.prems in simp_all)
  ultimately show ?case using Cons.prems(1) by simp
qed simp

section \<open>Interruptions\<close>

lemma push_between:
  assumes l: "is_list h l xs" and x: "x \<notin> nodes l xs" "h x = Some cx" and y: "y \<notin> nodes l xs" "h y = Some cy"
    and ne: "x \<noteq> y" and k: "k \<in> {3, 4, 5}"
  shows "\<exists>h'. interrupted_push k l x y h = Inr h' \<and> prv h' x = Some (last (head l # xs)) \<and> nxt h' x = Some (tail l) \<and>
    prv h' (tail l) = Some x \<and> forward h' (head l) xs y \<and> nxt h' y = Some (if k = 5 then tail l else x)"
proof -
  define p where "p = last (head l # xs)"
  define t where "t = tail l"
  note L = is_listD [OF l]
  from chain_last [OF L(1)] have np: "nxt h p = Some t" and pt: "prv h t = Some p" by (simp_all add: p_def t_def)
  obtain cp where cp: "h p = Some cp" using np by (auto dest: nxt_SomeD)
  obtain ct where ct: "h t = Some ct" "prev ct = Some p" "next ct = None"
    using pt L(4) by (auto simp: t_def nxt_def dest: prv_SomeD)
  have pin: "p \<in> insert (head l) (set xs)" unfolding p_def by (rule last_in_Cons)
  then have d: "x \<noteq> p" "x \<noteq> t" "y \<noteq> p" "y \<noteq> t" "p \<noteq> t"
    using x(1) y(1) L(2) by (auto simp: nodes_def t_def)
  define h' where "h' = h(x \<mapsto> \<lparr>prev = Some p, next = Some t\<rparr>, y \<mapsto> \<lparr>prev = Some p, next = Some (if k = 5 then t else x)\<rparr>,
    p \<mapsto> cp\<lparr>next := Some y\<rparr>, t \<mapsto> ct\<lparr>prev := Some x\<rparr>)"
  have "interrupted_push k l x y h = Inr h'"
    using k d ne x(2) y(2) cp ct
    by (cases cx; cases cy) (auto simp: interrupted_push_def list_insert_steps_def list_push_back_def list_insert_def h'_def mem_simps
        numeral_eq_Suc orE_def fun_upd_def fun_eq_iff split: if_splits simp flip: t_def)
  moreover have nx: "nxt h' a = (if a = x then Some t else if a = y then Some (if k = 5 then t else x)
      else if a = p then Some y else nxt h a)" for a
    using d ne ct(1) by (auto simp: h'_def nxt_def)
  have "forward h' (head l) xs y"
    by (rule forward_retarget [OF L(1)]) (use L(2) x(1) y(1) d in \<open>auto simp: nx nodes_def p_def\<close>)
  moreover have "prv h' x = Some p" "nxt h' x = Some t" "prv h' t = Some x" "nxt h' y = Some (if k = 5 then t else x)"
    using d ne by (auto simp: h'_def)
  ultimately show ?thesis by (simp add: p_def t_def)
qed

text \<open>Before the first store and after the last one the two insertions follow each other.\<close>

lemma push_outside:
  assumes l: "is_list h l xs" and x: "x \<notin> nodes l xs" "h x = Some cx" and y: "y \<notin> nodes l xs" "h y = Some cy"
    and ne: "x \<noteq> y"
  shows "k \<le> 2 \<Longrightarrow> \<exists>h'. interrupted_push k l x y h = Inr h' \<and> is_list h' l (xs @ [y, x])"
    and "6 \<le> k \<Longrightarrow> \<exists>h'. interrupted_push k l x y h = Inr h' \<and> is_list h' l (xs @ [x, y])"
proof -
  obtain h1 where h1: "list_push_back (Some l) (Some y) h = Inr h1" "is_list h1 l (xs @ [y])" "only_changes h h1 (insert y (nodes l xs))"
    by (rule list_push_back_spec [OF l y])
  obtain c1 where c1: "h1 x = Some c1" using only_changes_dom [OF h1(3)] x(2) by blast
  obtain h2 where h2: "list_push_back (Some l) (Some x) h1 = Inr h2" "is_list h2 l ((xs @ [y]) @ [x])"
    by (rule list_push_back_spec [OF h1(2) _ c1]) (use x(1) ne in \<open>auto simp: nodes_def\<close>)
  obtain ct where ct: "h (tail l) = Some ct" "prev ct \<noteq> None" "next ct = None"
    using chain_last [OF is_listD(1) [OF l]] is_listD(4) [OF l] by (auto simp: nxt_def dest: prv_SomeD)
  have pre: "run_steps (take k (list_insert_steps (Some (tail l)) (Some x))) h = Inr h" if "k \<le> 2" for k
    using that ct by (cases k; cases "k - 1") (auto simp: list_insert_steps_def mem_simps orE_def numeral_eq_Suc)
  obtain ct1 where ct1: "h1 (tail l) = Some ct1" "prev ct1 \<noteq> None" "next ct1 = None"
    using chain_last [OF is_listD(1) [OF h1(2)]] is_listD(4) [OF h1(2)] by (auto simp: nxt_def dest: prv_SomeD)
  have pre1: "run_steps (take k (list_insert_steps (Some (tail l)) (Some x))) h1 = Inr h1" if "k \<le> 2" for k
    using that ct1 by (cases k; cases "k - 1") (auto simp: list_insert_steps_def mem_simps orE_def numeral_eq_Suc)
  have "run_steps (drop k (list_insert_steps (Some (tail l)) (Some x))) h1 = Inr h2" if "k \<le> 2"
    using run_steps_append [of "take k (list_insert_steps (Some (tail l)) (Some x))" "drop k (list_insert_steps (Some (tail l)) (Some x))" h1]
      pre1 [OF that] h2(1) by (simp add: list_insert_run list_push_back_def)
  with pre h1(1) h2(2) show "k \<le> 2 \<Longrightarrow> \<exists>h'. interrupted_push k l x y h = Inr h' \<and> is_list h' l (xs @ [y, x])"
    by (simp add: interrupted_push_def)
  obtain g1 where g1: "list_push_back (Some l) (Some x) h = Inr g1" "is_list g1 l (xs @ [x])" "only_changes h g1 (insert x (nodes l xs))"
    by (rule list_push_back_spec [OF l x])
  obtain d1 where d1: "g1 y = Some d1" using only_changes_dom [OF g1(3)] y(2) by blast
  obtain g2 where g2: "list_push_back (Some l) (Some y) g1 = Inr g2" "is_list g2 l ((xs @ [x]) @ [y])"
    by (rule list_push_back_spec [OF g1(2) _ d1]) (use y(1) ne in \<open>auto simp: nodes_def\<close>)
  show "6 \<le> k \<Longrightarrow> \<exists>h'. interrupted_push k l x y h = Inr h' \<and> is_list h' l (xs @ [x, y])"
    using g1(1) g2 by (simp add: interrupted_push_def list_insert_run list_push_back_def)
qed

section \<open>The property\<close>

text \<open>C24: \<open>list_push_back\<close> is not reentrant.  An insertion of \<open>x\<close> interrupted by one of \<open>y\<close> leaves a list with
  both if the interrupt comes before the first store or after the last one; after the first or the second
  store the backward links lead from \<open>x\<close> past \<open>y\<close>, and after the third a traversal of the list does not meet
  \<open>x\<close> any more: the element is lost.\<close>

theorem push_back_not_reentrant:
  assumes "is_list h l xs" "x \<notin> nodes l xs" "y \<notin> nodes l xs" "x \<noteq> y" "h x = Some cx" "h y = Some cy"
  shows "\<exists>h'. interrupted_push k l x y h = Inr h' \<and>
    (if k \<le> 2 then is_list h' l (xs @ [y, x])
     else if k \<le> 4 then forward h' (head l) (xs @ [y, x]) (tail l) \<and> prv h' x = Some (last (head l # xs))
     else if k = 5 then forward h' (head l) (xs @ [y]) (tail l) \<and> prv h' (tail l) = Some x
     else is_list h' l (xs @ [x, y]))"
proof -
  note A = assms(1,2,5,3,6,4)
  consider "k \<le> 2" | "k \<in> {3, 4}" | "k = 5" | "6 \<le> k" by fastforce
  then show ?thesis
  proof cases
    case 1
    then show ?thesis using push_outside(1) [OF A, of k] by simp
  next
    case 2
    then show ?thesis using push_between [OF A, of k] by (auto simp: forward_append)
  next
    case 3
    then show ?thesis using push_between [OF A, of k] by (auto simp: forward_append)
  next
    case 4
    then show ?thesis using push_outside(2) [OF A, of k] by simp
  qed
qed

definition two_free_cells :: "nat heap" where
  "two_free_cells = [0 \<mapsto> \<lparr>prev = None, next = Some 1\<rparr>, 1 \<mapsto> \<lparr>prev = Some 0, next = None\<rparr>,
     2 \<mapsto> \<lparr>prev = None, next = None\<rparr>, 3 \<mapsto> \<lparr>prev = None, next = None\<rparr>]"

theorem push_back_not_reentrant_witness:
  "\<exists>h'. interrupted_push 5 \<lparr>head = 0, tail = 1\<rparr> 2 3 two_free_cells = Inr h' \<and> forward h' 0 [3] 1 \<and> prv h' 1 = Some 2"
proof -
  have "is_list two_free_cells \<lparr>head = 0, tail = 1\<rparr> []"
    by (simp add: is_list_def two_free_cells_def nxt_def prv_def)
  from push_back_not_reentrant [OF this, where x = 2 and y = 3 and k = 5] show ?thesis
    by (simp add: nodes_def two_free_cells_def)
qed

end
