(* ===== verification/Palloc.thy ===== *)
theory Palloc
  imports Kernel_State "HOL-Library.Signed_Division"
begin

text \<open>
  The start of a page allocator, src/lib/palloc.c: virtual addresses, the bitmap of used pages and
  the set-up of the two page pools.  (The functions that would hand out pages are declared in
  src/lib/palloc.h and defined nowhere.)

  Memory is a partial map from addresses to 32-bit cells: an access outside of its domain is the
  hard fault of the processor.  \<open>size_t\<close>, \<open>uintptr_t\<close>, pointers and \<open>unsigned long\<close> have 32 bits.
\<close>

unbundle bit_operations_syntax

section \<open>State\<close>

record pool =
  used_map :: u32
  pool_base :: u32

text \<open>Registers 0 and 1 are the ones the inline assembly of the bitmap functions names.\<close>

record pages =
  cells :: "u32 \<Rightarrow> u32 option"
  pg_r0 :: u32
  pg_r1 :: u32
  kernel_pool :: pool
  user_pool :: pool
  pg_console :: "(string \<times> string \<times> u32) list"

definition load_cell :: "u32 \<Rightarrow> pages \<Rightarrow> error + u32" where
  "load_cell a s = deref (cells s a)"

definition store_cell :: "u32 \<Rightarrow> u32 \<Rightarrow> pages \<Rightarrow> error + pages" where
  "store_cell a v s = bindE (deref (cells s a)) (\<lambda>_. Inr (s\<lparr>cells := (cells s)(a \<mapsto> v)\<rparr>))"

datatype palloc_flags = PAL_ASSERT | PAL_ZERO | PAL_USER

fun palloc_flag_bits :: "palloc_flags \<Rightarrow> u32" where
  "palloc_flag_bits PAL_ASSERT = 1"
| "palloc_flag_bits PAL_ZERO = 2"
| "palloc_flag_bits PAL_USER = 4"

section \<open>Addresses\<close>

definition PHYS_BASE :: u32 where
  "PHYS_BASE = 0x40000000"

definition DIV_ROUND_UP :: "u32 \<Rightarrow> u32 \<Rightarrow> u32" where
  "DIV_ROUND_UP X STEP = (X + STEP - 1) div STEP"

definition ptov :: "u32 \<Rightarrow> error + u32" where
  "ptov paddr =
     bindE (ASSERT (paddr < PHYS_BASE) ''(void *) paddr < PHYS_BASE'') (\<lambda>_. Inr (paddr + PHYS_BASE))"

definition is_user_vaddr :: "u32 \<Rightarrow> bool" where
  "is_user_vaddr vaddr \<longleftrightarrow> vaddr < PHYS_BASE"

definition is_kernel_vaddr :: "u32 \<Rightarrow> bool" where
  "is_kernel_vaddr vaddr \<longleftrightarrow> PHYS_BASE \<le> vaddr"

section \<open>Bitmaps\<close>

definition ELEM_BITS :: u32 where
  "ELEM_BITS = 4 * 8"

definition elem_idx :: "u32 \<Rightarrow> u32" where
  "elem_idx bit_idx = bit_idx div ELEM_BITS"

definition bit_mask :: "u32 \<Rightarrow> u32" where
  "bit_mask bit_idx = push_bit (unat (bit_idx mod ELEM_BITS)) 1"

definition elem_cnt :: "u32 \<Rightarrow> u32" where
  "elem_cnt bit_cnt = DIV_ROUND_UP bit_cnt ELEM_BITS"

definition byte_cnt :: "u32 \<Rightarrow> u32" where
  "byte_cnt bit_cnt = 4 * elem_cnt bit_cnt"

text \<open>\<open>struct bitmap\<close>: the count at the address of the bitmap, the pointer to the bits behind it.\<close>

definition sizeof_bitmap :: u32 where
  "sizeof_bitmap = 8"

definition bitmap_buf_size :: "u32 \<Rightarrow> u32" where
  "bitmap_buf_size bit_cnt = sizeof_bitmap + byte_cnt bit_cnt"

text \<open>
  The instructions \<open>ORR R0, R0, R1\<close> and \<open>AND R0, R0, R1\<close> change register 0 and nothing else.  The mask
  is in a register of the compiler's choice, and the element of the bitmap is declared as an
  output in memory that the instruction does not write.
\<close>

definition bitmap_mark :: "u32 \<Rightarrow> u32 \<Rightarrow> pages \<Rightarrow> error + pages" where
  "bitmap_mark b bit_idx s =
     (let idx = elem_idx bit_idx; msk = bit_mask bit_idx in
      Inr (s\<lparr>pg_r0 := pg_r0 s OR pg_r1 s\<rparr>))"

definition bitmap_reset :: "u32 \<Rightarrow> u32 \<Rightarrow> pages \<Rightarrow> error + pages" where
  "bitmap_reset b bit_idx s =
     (let idx = elem_idx bit_idx; msk = bit_mask bit_idx in
      Inr (s\<lparr>pg_r0 := pg_r0 s AND pg_r1 s\<rparr>))"

definition bitmap_size :: "u32 \<Rightarrow> pages \<Rightarrow> error + u32" where
  "bitmap_size b s = load_cell b s"

definition bitmap_set :: "u32 \<Rightarrow> u32 \<Rightarrow> bool \<Rightarrow> pages \<Rightarrow> error + pages" where
  "bitmap_set b idx value s =
     bindE (ASSERT (b \<noteq> 0) ''b != NULL'') (\<lambda>_.
     bindE (load_cell b s) (\<lambda>bit_cnt.
     bindE (ASSERT (idx < bit_cnt) ''idx < b->bit_cnt'') (\<lambda>_.
     if value then bitmap_mark b idx s else bitmap_reset b idx s)))"

text \<open>The loop of \<open>bitmap_set_multiple\<close> from \<open>i\<close> on.\<close>

function bitmap_set_loop :: "u32 \<Rightarrow> u32 \<Rightarrow> u32 \<Rightarrow> u32 \<Rightarrow> bool \<Rightarrow> pages \<Rightarrow> error + pages" where
  "bitmap_set_loop b start i cnt value s =
     (if i < cnt then
        bindE (bitmap_set b (start + i) value s) (\<lambda>s. bitmap_set_loop b start (i + 1) cnt value s)
      else Inr s)"
  by pat_completeness auto
termination
proof (relation "measure (\<lambda>(b, start, i, cnt, value, s). unat cnt - unat i)", goal_cases)
  case (2 b start i cnt v s s')
  then have "unat i < unat cnt" by (simp add: word_less_nat_alt)
  with unat_plus_one [OF 2(1)] show ?case by simp
qed simp

declare bitmap_set_loop.simps [simp del]

definition bitmap_set_multiple :: "u32 \<Rightarrow> u32 \<Rightarrow> u32 \<Rightarrow> bool \<Rightarrow> pages \<Rightarrow> error + pages" where
  "bitmap_set_multiple b start cnt value s =
     bindE (ASSERT (b \<noteq> 0) ''b != NULL'') (\<lambda>_.
     bindE (load_cell b s) (\<lambda>bit_cnt.
     bindE (ASSERT (start \<le> bit_cnt) ''start <= b->bit_cnt'') (\<lambda>_.
     bindE (ASSERT (start + cnt \<le> bit_cnt) ''start + cnt <= b->bit_cnt'') (\<lambda>_.
     bitmap_set_loop b start 0 cnt value s))))"

definition bitmap_set_all :: "u32 \<Rightarrow> bool \<Rightarrow> pages \<Rightarrow> error + pages" where
  "bitmap_set_all b value s =
     bindE (ASSERT (b \<noteq> 0) ''b != NULL'') (\<lambda>_.
     bindE (bitmap_size b s) (\<lambda>n. bitmap_set_multiple b 0 n value s))"

definition bitmap_create_in_buf :: "u32 \<Rightarrow> u32 \<Rightarrow> u32 \<Rightarrow> pages \<Rightarrow> error + (u32 \<times> pages)" where
  "bitmap_create_in_buf bit_cnt block block_size s =
     (let b = block in
      bindE (ASSERT (bitmap_buf_size bit_cnt \<le> block_size) ''block_size >= bitmap_buf_size (bit_cnt)'') (\<lambda>_.
      bindE (store_cell b bit_cnt s) (\<lambda>s.
      bindE (store_cell (b + 4) (b + sizeof_bitmap) s) (\<lambda>s.
      bindE (bitmap_set_all b False s) (\<lambda>s.
      Inr (b, s))))))"

section \<open>Pools\<close>

text \<open>
  \<open>init_pool\<close> on either pool: \<open>upd\<close> updates the pool that \<open>p\<close> points to.  The console keeps the format, the name of the pool and the number of pages.
\<close>

definition init_pool ::
  "((pool \<Rightarrow> pool) \<Rightarrow> pages \<Rightarrow> pages) \<Rightarrow> u32 \<Rightarrow> u32 \<Rightarrow> string \<Rightarrow> pages \<Rightarrow> error + pages" where
  "init_pool upd base page_cnt pname s =
     (let bm_pages = DIV_ROUND_UP (bitmap_buf_size page_cnt) PGSIZE in
      if page_cnt < bm_pages then PANIC ''Not enough memory in %s for bitmap.''
      else
        let page_cnt = page_cnt - bm_pages in
        bindE (Inr (s\<lparr>pg_console := pg_console s @ [(''%zu pages available in %s.\<newline>'', pname, page_cnt)]\<rparr>)) (\<lambda>s.
        bindE (bitmap_create_in_buf page_cnt base (bm_pages * PGSIZE) s) (\<lambda>(m, s).
        bindE (Inr (upd (\<lambda>p. p\<lparr>used_map := m\<rparr>) s)) (\<lambda>s.
        Inr (upd (\<lambda>p. p\<lparr>pool_base := base + bm_pages * PGSIZE\<rparr>) s)))))"

text \<open>
  \<open>(free_end - free_start) / PGSIZE\<close> is a signed division of a pointer difference by an \<open>int\<close>, and its
  result is converted to \<open>size_t\<close>.
\<close>

definition page_difference :: "u32 \<Rightarrow> u32 \<Rightarrow> u32" where
  "page_difference free_end free_start = word_of_int (sint (free_end - free_start) sdiv sint PGSIZE)"

definition palloc_init :: "u32 \<Rightarrow> pages \<Rightarrow> error + pages" where
  "palloc_init user_page_limit s =
     bindE (ptov (1024 * 1024)) (\<lambda>free_start.
     bindE (ptov (40 * PGSIZE)) (\<lambda>free_end.
     let free_pages = page_difference free_end free_start;
         user_pages = free_pages div 2;
         user_pages = (if user_page_limit < user_pages then user_page_limit else user_pages);
         kernel_pages = free_pages - user_pages in
     bindE (init_pool kernel_pool_update free_start kernel_pages ''kernel pool'' s) (\<lambda>s.
     init_pool user_pool_update (free_start + kernel_pages * PGSIZE) user_pages ''user pool'' s)))"

end
