(* ===== verification/Palloc_Spec.thy ===== *)
theory Palloc_Spec
  imports Palloc
begin

text \<open>
  What src/lib/palloc.c does: where a page lies in the bitmap, that setting bits leaves memory as it
  is, that \<open>init_pool\<close> reserves enough pages for its bitmap, and that the constants of
  \<open>palloc_init\<close> make the number of free pages negative.
\<close>

unbundle bit_operations_syntax

named_theorems page_defs

lemmas [page_defs] = PGSIZE_def PGBITS_def PHYS_BASE_def ELEM_BITS_def sizeof_bitmap_def

section \<open>Arithmetic of the set-up\<close>

lemma unat_PGSIZE: "unat PGSIZE = 4096"
  by (simp add: page_defs)

lemma unat_DIV_ROUND_UP:
  assumes "unat x + unat y < 2 ^ 32" "0 < y"
  shows "unat (DIV_ROUND_UP x y) = (unat x + unat y - 1) div unat y"
proof -
  have "unat (x + y) = unat x + unat y" using assms(1) by (simp add: unat_word_ariths(1))
  moreover have "0 < unat y" using assms(2) by (simp add: word_less_nat_alt)
  moreover have "1 \<le> x + y" using calculation by (simp add: word_le_nat_alt)
  ultimately show ?thesis by (simp add: DIV_ROUND_UP_def unat_div unat_sub)
qed

lemma unat_elem_cnt:
  assumes "unat n < 2 ^ 32 - 32"
  shows "unat (elem_cnt n) = (unat n + 31) div 32"
  using unat_DIV_ROUND_UP [of n ELEM_BITS] assms by (simp add: elem_cnt_def page_defs)

lemma unat_bitmap_buf_size:
  assumes "unat n < 2 ^ 32 - 32"
  shows "unat (bitmap_buf_size n) = 8 + 4 * ((unat n + 31) div 32)"
proof -
  have "8 + 4 * ((unat n + 31) div 32) < 2 ^ 32" using assms by simp
  then show ?thesis
    using unat_elem_cnt [OF assms]
    by (simp add: bitmap_buf_size_def byte_cnt_def sizeof_bitmap_def unat_word_ariths)
qed

text \<open>The number of pages \<open>init_pool\<close> takes for the bitmap.\<close>

definition bm_pages_of :: "u32 \<Rightarrow> u32" where
  "bm_pages_of n = DIV_ROUND_UP (bitmap_buf_size n) PGSIZE"

lemma unat_bm_pages:
  assumes "unat n < 2 ^ 32 - 32"
  shows "unat (bm_pages_of n) = (8 + 4 * ((unat n + 31) div 32) + 4095) div 4096"
proof -
  have "8 + 4 * ((unat n + 31) div 32) + 4096 < (2 :: nat) ^ 32" using assms by simp
  then show ?thesis
    using unat_DIV_ROUND_UP [of "bitmap_buf_size n" PGSIZE] unat_bitmap_buf_size [OF assms]
    by (simp add: bm_pages_of_def unat_PGSIZE word_less_nat_alt)
qed

lemma bm_pages_enough:
  assumes "unat n < 2 ^ 32 - 32" "0 < n"
  shows "0 < bm_pages_of n" "bm_pages_of n \<le> n" "unat (bm_pages_of n * PGSIZE) = unat (bm_pages_of n) * 4096"
    "bitmap_buf_size (n - bm_pages_of n) \<le> bm_pages_of n * PGSIZE"
proof -
  note b = unat_bm_pages [OF assms(1)]
  have n: "0 < unat n" using assms(2) by (simp add: word_less_nat_alt)
  have "0 < unat (bm_pages_of n)" using b by simp
  then show "0 < bm_pages_of n" by (simp add: word_less_nat_alt)
  have "(8 + 4 * ((unat n + 31) div 32) + 4095) div 4096 \<le> unat n" using n by (intro div_le_mono2 | simp)+
  then have le: "unat (bm_pages_of n) \<le> unat n" using b by simp
  then show "bm_pages_of n \<le> n" by (simp add: word_le_nat_alt)
  have "unat (bm_pages_of n) * 4096 < 2 ^ 32" using b assms(1) by simp
  then show m: "unat (bm_pages_of n * PGSIZE) = unat (bm_pages_of n) * 4096"
    by (simp add: unat_word_ariths(2) unat_PGSIZE)
  have d: "unat (n - bm_pages_of n) = unat n - unat (bm_pages_of n)"
    using le by (simp add: unat_sub word_le_nat_alt)
  have "8 + 4 * ((unat n - unat (bm_pages_of n) + 31) div 32) \<le> unat (bm_pages_of n) * 4096"
  proof -
    have "(unat n - unat (bm_pages_of n) + 31) div 32 \<le> (unat n + 31) div 32" by (rule div_le_mono) simp
    moreover have "x \<le> (x + 4095) div 4096 * 4096" for x :: nat
      using div_mult_mod_eq [of "x + 4095" 4096] mod_less_divisor [of 4096 "x + 4095"] by linarith
    from this [of "8 + 4 * ((unat n + 31) div 32)"] b
    have "8 + 4 * ((unat n + 31) div 32) \<le> unat (bm_pages_of n) * 4096" by simp
    ultimately show ?thesis by linarith
  qed
  then show "bitmap_buf_size (n - bm_pages_of n) \<le> bm_pages_of n * PGSIZE"
    using unat_bitmap_buf_size [of "n - bm_pages_of n"] d m assms(1) by (simp add: word_le_nat_alt)
qed

section \<open>Bitmaps\<close>

lemma bitmap_set_ok:
  assumes "b \<noteq> 0" "cells s b = Some n" "i < n"
  shows "\<exists>r. bitmap_set b i v s = Inr (s\<lparr>pg_r0 := r\<rparr>)"
  using assms by (auto simp: bitmap_set_def load_cell_def deref_def bitmap_mark_def bitmap_reset_def)

lemma bitmap_set_loop_ok:
  assumes "b \<noteq> 0" "unat start + unat cnt \<le> unat n" "i \<le> cnt"
  shows "cells s b = Some n \<Longrightarrow> \<exists>r. bitmap_set_loop b start i cnt v s = Inr (s\<lparr>pg_r0 := r\<rparr>)"
  using assms(3)
proof (induction "unat cnt - unat i" arbitrary: i s)
  case 0
  then have "i = cnt" by (simp add: word_le_nat_alt word_unat_eq_iff)
  then show ?case by (intro exI [of _ "pg_r0 s"]) (simp add: bitmap_set_loop.simps)
next
  case (Suc k)
  then have lt: "i < cnt" by (simp add: word_less_nat_alt)
  note p = unat_plus_one [OF lt]
  have "unat start + unat i < unat n" using lt assms(2) by (simp add: word_less_nat_alt)
  moreover have "unat n < 2 ^ LENGTH(32)" by (rule unsigned_less)
  ultimately have "unat (start + i) = unat start + unat i" by (simp add: unat_word_ariths(1))
  then have "start + i < n" using lt assms(2) by (simp add: word_less_nat_alt)
  from bitmap_set_ok [OF assms(1) Suc.prems(1) this]
  obtain r where r: "bitmap_set b (start + i) v s = Inr (s\<lparr>pg_r0 := r\<rparr>)" by blast
  have "\<exists>r'. bitmap_set_loop b start (i + 1) cnt v (s\<lparr>pg_r0 := r\<rparr>) = Inr (s\<lparr>pg_r0 := r, pg_r0 := r'\<rparr>)"
    by (rule Suc.hyps(1)) (use Suc p lt in \<open>auto simp: word_le_nat_alt word_less_nat_alt\<close>)
  with lt r show ?case by (subst bitmap_set_loop.simps) simp
qed

lemma bitmap_create_ok:
  assumes "b \<noteq> 0" "cells s b \<noteq> None" "cells s (b + 4) \<noteq> None" "bitmap_buf_size n \<le> sz"
  shows "\<exists>r. bitmap_create_in_buf n b sz s =
    Inr (b, s\<lparr>cells := (cells s)(b \<mapsto> n, b + 4 \<mapsto> b + 8), pg_r0 := r\<rparr>)"
proof -
  define s1 where "s1 = s\<lparr>cells := (cells s)(b \<mapsto> n, b + 4 \<mapsto> b + 8)\<rparr>"
  have "b + 4 \<noteq> b" using add_left_cancel [of b 4 0] by simp
  then have n: "cells s1 b = Some n" by (simp add: s1_def)
  obtain r where "bitmap_set_loop b 0 0 n False s1 = Inr (s1\<lparr>pg_r0 := r\<rparr>)"
    using bitmap_set_loop_ok [where start = 0 and i = 0, OF assms(1) _ _ n] by auto
  then have "bitmap_set_all b False s1 = Inr (s1\<lparr>pg_r0 := r\<rparr>)"
    using assms(1) n by (simp add: bitmap_set_all_def bitmap_set_multiple_def bitmap_size_def load_cell_def deref_def)
  then show ?thesis
    using assms by (auto simp: bitmap_create_in_buf_def store_cell_def deref_def s1_def sizeof_bitmap_def)
qed

section \<open>Pools\<close>

lemma init_pool_ok:
  assumes "unat n < 2 ^ 32 - 32" "0 < n" "b \<noteq> 0" "cells s b \<noteq> None" "cells s (b + 4) \<noteq> None"
    and "\<And>f g x. upd f (upd g x) = upd (\<lambda>p. f (g p)) x"
  shows "\<exists>r. init_pool upd b n nm s = Inr (upd (\<lambda>p. p\<lparr>used_map := b, pool_base := b + bm_pages_of n * PGSIZE\<rparr>)
    (s\<lparr>pg_console := pg_console s @ [(''%zu pages available in %s.\<newline>'', nm, n - bm_pages_of n)],
       cells := (cells s)(b \<mapsto> n - bm_pages_of n, b + 4 \<mapsto> b + 8), pg_r0 := r\<rparr>))"
proof -
  note e = bm_pages_enough [OF assms(1,2)]
  let ?s = "s\<lparr>pg_console := pg_console s @ [(''%zu pages available in %s.\<newline>'', nm, n - bm_pages_of n)]\<rparr>"
  obtain r where "bitmap_create_in_buf (n - bm_pages_of n) b (bm_pages_of n * PGSIZE) ?s =
    Inr (b, ?s\<lparr>cells := (cells s)(b \<mapsto> n - bm_pages_of n, b + 4 \<mapsto> b + 8), pg_r0 := r\<rparr>)"
    using bitmap_create_ok [of b ?s, OF assms(3) _ _ e(4)] assms(4,5) by auto
  with e(2) assms(6) show ?thesis
    by (intro exI [of _ r]) (simp add: init_pool_def Let_def bm_pages_of_def [symmetric] not_less)
qed

lemma init_kernel_pool:
  assumes "unat n < 2 ^ 32 - 32" "0 < n" "b \<noteq> 0" "cells s b \<noteq> None" "cells s (b + 4) \<noteq> None"
  shows "\<exists>s'. init_pool kernel_pool_update b n nm s = Inr s' \<and>
    kernel_pool s' = \<lparr>used_map = b, pool_base = b + bm_pages_of n * PGSIZE\<rparr> \<and> user_pool s' = user_pool s \<and>
    cells s' = (cells s)(b \<mapsto> n - bm_pages_of n, b + 4 \<mapsto> b + 8)"
  using init_pool_ok [OF assms, of kernel_pool_update nm] by auto


lemma init_pool_unmapped:
  assumes "unat n < 2 ^ 32 - 32" "0 < n" "cells s b = None"
  shows "init_pool upd b n nm s = Inl Fault"
  using bm_pages_enough(2,4) [OF assms(1,2)] assms(3)
  by (simp add: init_pool_def bm_pages_of_def [symmetric] not_less bitmap_create_in_buf_def store_cell_def deref_def Let_def)

section \<open>Properties\<close>

lemma bit_bit_mask: "bit (bit_mask i) k \<longleftrightarrow> k = unat i mod 32"
proof -
  have "unat (i mod ELEM_BITS) = unat i mod 32" by (simp add: unat_mod page_defs)
  then show ?thesis by (auto simp: bit_mask_def bit_simps)
qed

text \<open>Where the bit of page \<open>i\<close> lies: the element is inside of the array \<open>bitmap_buf_size\<close> makes room
  for, the mask has exactly the bit \<open>i mod 32\<close>, and no two pages share a bit.\<close>

theorem bitmap_addressing:
  assumes "unat n < 2 ^ 32 - 32" "i < n" "j < n"
  shows "elem_idx i < elem_cnt n \<and> (elem_idx i = elem_idx j \<and> bit_mask i = bit_mask j \<longleftrightarrow> i = j) \<and>
    (\<forall>k. bit (bit_mask i) k \<longleftrightarrow> k = unat i mod 32)"
proof -
  have u: "unat (elem_idx x) = unat x div 32" for x by (simp add: elem_idx_def unat_div page_defs)
  have "unat i div 32 < (unat n + 31) div 32" using assms(2) by (simp add: word_less_nat_alt)
  then have "elem_idx i < elem_cnt n" using u unat_elem_cnt [OF assms(1)] by (simp add: word_less_nat_alt)
  moreover have "i = j" if "elem_idx i = elem_idx j" "bit_mask i = bit_mask j"
  proof -
    have "unat i div 32 = unat j div 32" using that(1) u by metis
    moreover have "unat i mod 32 = unat j mod 32" using that(2) bit_bit_mask by metis
    ultimately have "unat i = unat j" by (metis div_mult_mod_eq)
    then show ?thesis by (simp add: word_unat_eq_iff)
  qed
  ultimately show ?thesis using bit_bit_mask by blast
qed

theorem bitmap_addressing_witness:
  "elem_idx 37 < elem_cnt (40 :: u32) \<and> (\<forall>k. bit (bit_mask 37) k \<longleftrightarrow> k = 5)"
  using bitmap_addressing [of 40 37 38] by (simp add: word_less_nat_alt)

text \<open>C38: Setting bits does not set bits: \<open>bitmap_set_multiple\<close> within the bounds of the bitmap returns, for
  either value, with all of memory as it was, since its inline assembly works on a register only.\<close>

theorem bitmap_set_keeps_memory:
  assumes "b \<noteq> 0" "cells s b = Some n" "unat start + unat cnt \<le> unat n"
  shows "\<exists>s'. bitmap_set_multiple b start cnt v s = Inr s' \<and> cells s' = cells s"
proof -
  have "start \<le> n" using assms(3) by (simp add: word_le_nat_alt)
  moreover have "unat n < 2 ^ LENGTH(32)" by (rule unsigned_less)
  then have "start + cnt \<le> n" using assms(3) by (simp add: word_le_nat_alt unat_word_ariths(1))
  moreover obtain r where "bitmap_set_loop b start 0 cnt v s = Inr (s\<lparr>pg_r0 := r\<rparr>)"
    using bitmap_set_loop_ok [OF assms(1,3) _ assms(2), of 0] by auto
  ultimately show ?thesis using assms(1,2) by (auto simp: bitmap_set_multiple_def load_cell_def deref_def)
qed

definition sample_pages :: pages where
  "sample_pages = \<lparr>cells = (\<lambda>a. if a AND 3 = 0 \<and> a \<noteq> 0 then Some 64 else None), pg_r0 = 0, pg_r1 = 0,
     kernel_pool = \<lparr>used_map = 0, pool_base = 0\<rparr>, user_pool = \<lparr>used_map = 0, pool_base = 0\<rparr>, pg_console = []\<rparr>"

theorem bitmap_set_keeps_memory_witness:
  "\<exists>s'. bitmap_set_multiple 0x20000000 10 20 True sample_pages = Inr s' \<and> cells s' = cells sample_pages"
  by (rule bitmap_set_keeps_memory [of _ _ 64]) (simp_all add: sample_pages_def)

text \<open>\<open>init_pool\<close> on a nonempty range reserves \<open>k\<close> pages at its base for the bitmap of the remaining
  pages: at least one and at most all of them, and enough, so that the assertion of
  \<open>bitmap_create_in_buf\<close> holds; the pool then starts behind them.\<close>

theorem init_pool_reserves:
  assumes "unat n < 2 ^ 32 - 32" "0 < n" "b \<noteq> 0" "cells s b \<noteq> None" "cells s (b + 4) \<noteq> None"
  shows "\<exists>s' k. init_pool kernel_pool_update b n nm s = Inr s' \<and> 0 < k \<and> k \<le> n \<and>
    kernel_pool s' = \<lparr>used_map = b, pool_base = b + k * PGSIZE\<rparr> \<and> user_pool s' = user_pool s \<and>
    cells s' = (cells s)(b \<mapsto> n - k, b + 4 \<mapsto> b + sizeof_bitmap) \<and>
    unat sizeof_bitmap + 4 * unat (elem_cnt (n - k)) \<le> unat k * 4096 \<and> unat (k * PGSIZE) = unat k * 4096"
proof -
  note e = bm_pages_enough [OF assms(1,2)]
  have "unat (n - bm_pages_of n) < 2 ^ 32 - 32"
    using assms(1) e(2) by (simp add: unat_sub word_le_nat_alt)
  then have "unat sizeof_bitmap + 4 * unat (elem_cnt (n - bm_pages_of n)) = unat (bitmap_buf_size (n - bm_pages_of n))"
    using unat_bitmap_buf_size unat_elem_cnt by (simp add: sizeof_bitmap_def)
  also have "\<dots> \<le> unat (bm_pages_of n) * 4096" using e(3,4) by (simp add: word_le_nat_alt)
  finally show ?thesis
    using init_kernel_pool [OF assms(1-5), of nm] e(1-3) unfolding sizeof_bitmap_def by blast
qed

theorem init_pool_reserves_witness:
  "\<exists>s' k. init_pool kernel_pool_update 0x20010000 40 ''kernel pool'' sample_pages = Inr s' \<and> k \<le> (40 :: u32) \<and>
     used_map (kernel_pool s') = 0x20010000"
proof -
  have "\<exists>s' k. init_pool kernel_pool_update 0x20010000 40 ''kernel pool'' sample_pages = Inr s' \<and> 0 < k \<and> k \<le> (40 :: u32) \<and>
    kernel_pool s' = \<lparr>used_map = 0x20010000, pool_base = 0x20010000 + k * PGSIZE\<rparr> \<and> user_pool s' = user_pool sample_pages \<and>
    cells s' = (cells sample_pages)(0x20010000 \<mapsto> 40 - k, 0x20010000 + 4 \<mapsto> 0x20010000 + sizeof_bitmap) \<and>
    unat sizeof_bitmap + 4 * unat (elem_cnt (40 - k)) \<le> unat k * 4096 \<and> unat (k * PGSIZE) = unat k * 4096"
    by (rule init_pool_reserves) (simp_all add: sample_pages_def word_less_nat_alt)
  then show ?thesis by auto
qed

lemma init_pool_no_pages: "init_pool upd b 0 nm s = Inl (Panic ''Not enough memory in %s for bitmap.'')"
proof -
  have "unat (bm_pages_of 0) = 1" using unat_bm_pages [of 0] by simp
  then have "0 < bm_pages_of 0" by (simp add: word_less_nat_alt)
  then show ?thesis by (simp add: init_pool_def bm_pages_of_def [symmetric])
qed

lemma free_pages_value: "page_difference 0x40028000 0x40100000 = - 216"
  by (simp add: page_difference_def page_defs)

lemma kernel_pages_range:
  fixes lim :: u32
  defines "up \<equiv> if lim < - 216 div 2 then lim else - 216 div 2"
  shows "unat (- 216 - up) < 2 ^ 32 - 32" "0 < - 216 - up"
proof -
  have "unat (- 216 div 2 :: u32) = 2147483540" by simp
  then have "unat up \<le> 2147483540" by (auto simp: up_def word_less_nat_alt)
  moreover have m: "unat (- 216 :: u32) = 4294967080" by simp
  ultimately have "up \<le> - 216" by (simp add: word_le_nat_alt)
  then have "unat (- 216 - up) = 4294967080 - unat up" using m by (simp add: unat_sub)
  with \<open>unat up \<le> 2147483540\<close> show "unat (- 216 - up) < 2 ^ 32 - 32" "0 < - 216 - up"
    by (simp_all add: word_less_nat_alt)
qed

text \<open>\<open>palloc_init\<close> cannot work on the board: whatever the limit, its first store goes to address
  0x40100000, and with no memory there it ends in a fault.\<close>

theorem palloc_init_faults:
  assumes "cells s 0x40100000 = None"
  shows "palloc_init user_page_limit s = Inl Fault"
proof -
  have "ptov (1024 * 1024) = Inr 0x40100000" "ptov (40 * PGSIZE) = Inr 0x40028000"
    by (simp_all add: ptov_def page_defs word_less_nat_alt)
  then show ?thesis
    by (simp only: palloc_init_def Let_def bindE_Inr bindE_Inl free_pages_value
        init_pool_unmapped [OF kernel_pages_range assms])
qed

theorem palloc_init_faults_witness:
  "palloc_init 20 (sample_pages\<lparr>cells := (\<lambda>_. None)\<rparr>) = Inl Fault"
  by (rule palloc_init_faults) simp



end
