(* ===== verification/Interrupt.thy ===== *)
theory Interrupt
  imports Thread
begin

text \<open>
  The interrupt system of src/lib/interrupt.c and src/lib/interrupt.h, written for the x86: the
  interrupt flag, the descriptor table, the registration of handlers, the dispatch of an interrupt
  with the protocol of the two 8259A controllers, and the statistics of unexpected interrupts.

  What the file uses from elsewhere is a parameter, the record \<open>platform\<close>: the entry points of
  intr-stubs.S, the port output \<open>outb\<close>, the selector of the kernel code segment, the handlers
  themselves, and the interrupt primitives that \<open>thread_yield\<close> uses.  The state \<open>machine\<close> holds the
  static variables of the file, the registers it touches, and the kernel state.
\<close>

unbundle bit_operations_syntax

section \<open>Data\<close>

datatype intr_level = INTR_OFF | INTR_ON

record intr_frame =
  fr_edi :: u32
  fr_esi :: u32
  fr_ebp :: u32
  fr_esp_dummy :: u32
  fr_ebx :: u32
  fr_edx :: u32
  fr_ecx :: u32
  fr_eax :: u32
  fr_gs :: u16
  fr_fs :: u16
  fr_es :: u16
  fr_ds :: u16
  vec_no :: u32
  error_code :: u32
  frame_pointer :: u32
  fr_eip :: u32
  fr_cs :: u16
  fr_eflags :: u32
  fr_esp :: u32
  fr_ss :: u16

definition PIC0_CTRL :: u16 where "PIC0_CTRL = 0x20"
definition PIC0_DATA :: u16 where "PIC0_DATA = 0x21"
definition PIC1_CTRL :: u16 where "PIC1_CTRL = 0xa0"
definition PIC1_DATA :: u16 where "PIC1_DATA = 0xa1"
definition INTR_CNT :: nat where "INTR_CNT = 256"
definition FLAG_IF :: u32 where "FLAG_IF = 0x00000200"

text \<open>
  The arrays have \<open>INTR_CNT\<close> elements; a null handler is 0 and a null name is \<open>None\<close>.  \<open>ports\<close> is the
  sequence of bytes written to I/O ports.
\<close>

record machine =
  kern :: kernel
  idt :: "u64 list"
  idtr :: u64
  intr_handlers :: "u32 list"
  intr_names :: "string option list"
  unexpected_cnt :: "u32 list"
  in_external_intr :: bool
  intr_yields :: bool           \<comment> \<open>\<open>yield_on_return\<close> of interrupt.c\<close>
  eflags :: u32
  cr2 :: u32
  ports :: "(u16 \<times> u8) list"

record platform =
  intr_stubs :: "nat \<Rightarrow> u32"
  idt_address :: u32
  SEL_KCSEG :: u32
  outb :: "u16 \<Rightarrow> u8 \<Rightarrow> machine \<Rightarrow> machine"
  call_handler :: "u32 \<Rightarrow> intr_frame \<Rightarrow> machine \<Rightarrow> error + machine"
  switch_sync :: sdk

definition fetch :: "'a list \<Rightarrow> nat \<Rightarrow> error + 'a" where
  "fetch xs i = (if i < length xs then Inr (xs ! i) else Inl Fault)"

definition put :: "'a list \<Rightarrow> nat \<Rightarrow> 'a \<Rightarrow> error + 'a list" where
  "put xs i v = (if i < length xs then Inr (xs[i := v]) else Inl Fault)"

section \<open>The interrupt flag\<close>

definition intr_context :: "machine \<Rightarrow> bool" where
  "intr_context m = in_external_intr m"

definition intr_get_level :: "machine \<Rightarrow> intr_level" where
  "intr_get_level m = (if eflags m AND FLAG_IF \<noteq> 0 then INTR_ON else INTR_OFF)"

definition intr_enable :: "machine \<Rightarrow> error + (intr_level \<times> machine)" where
  "intr_enable m =
     (let old_level = intr_get_level m in
      bindE (ASSERT (\<not> intr_context m) ''!intr_context ()'') (\<lambda>_.
      Inr (old_level, m\<lparr>eflags := eflags m OR FLAG_IF\<rparr>)))"

definition intr_disable :: "machine \<Rightarrow> intr_level \<times> machine" where
  "intr_disable m =
     (let old_level = intr_get_level m in
      (old_level, m\<lparr>eflags := eflags m AND NOT FLAG_IF\<rparr>))"

definition intr_set_level :: "intr_level \<Rightarrow> machine \<Rightarrow> error + (intr_level \<times> machine)" where
  "intr_set_level level m = (if level = INTR_ON then intr_enable m else Inr (intr_disable m))"

section \<open>Descriptors\<close>

definition make_gate :: "platform \<Rightarrow> u32 \<Rightarrow> s32 \<Rightarrow> s32 \<Rightarrow> error + u64" where
  "make_gate P func dpl type =
     bindE (ASSERT (func \<noteq> 0) ''function != NULL'') (\<lambda>_.
     bindE (ASSERT (0 \<le> sint dpl \<and> sint dpl \<le> 3) ''dpl >= 0 && dpl <= 3'') (\<lambda>_.
     bindE (ASSERT (0 \<le> sint type \<and> sint type \<le> 15) ''type >= 0 && type <= 15'') (\<lambda>_.
     let e0 = (func AND 0xffff) OR push_bit 16 (SEL_KCSEG P);
         e1 = (func AND 0xffff0000) OR push_bit 15 1 OR push_bit 13 dpl OR push_bit 12 0 OR push_bit 8 type in
     Inr (ucast e0 OR push_bit 32 (ucast e1)))))"

definition make_intr_gate :: "platform \<Rightarrow> u32 \<Rightarrow> s32 \<Rightarrow> error + u64" where
  "make_intr_gate P func dpl = make_gate P func dpl 14"

definition make_trap_gate :: "platform \<Rightarrow> u32 \<Rightarrow> s32 \<Rightarrow> error + u64" where
  "make_trap_gate P func dpl = make_gate P func dpl 15"

definition make_idtr_operand :: "u16 \<Rightarrow> u32 \<Rightarrow> u64" where
  "make_idtr_operand limit base = ucast limit OR push_bit 16 (ucast base)"

section \<open>The interrupt controllers\<close>

definition pic_init :: "platform \<Rightarrow> machine \<Rightarrow> machine" where
  "pic_init P m =
     (let m = outb P PIC0_DATA 0xff m;
          m = outb P PIC1_DATA 0xff m;
          m = outb P PIC0_CTRL 0x11 m;
          m = outb P PIC0_DATA 0x20 m;
          m = outb P PIC0_DATA 0x04 m;
          m = outb P PIC0_DATA 0x01 m;
          m = outb P PIC1_CTRL 0x11 m;
          m = outb P PIC1_DATA 0x28 m;
          m = outb P PIC1_DATA 0x02 m;
          m = outb P PIC1_DATA 0x01 m;
          m = outb P PIC0_DATA 0x00 m in
      outb P PIC1_DATA 0x00 m)"

definition pic_end_of_interrupt :: "platform \<Rightarrow> s32 \<Rightarrow> machine \<Rightarrow> error + machine" where
  "pic_end_of_interrupt P irq_no m =
     bindE (ASSERT (0x20 \<le> sint irq_no \<and> sint irq_no < 0x30) ''irq >= 0x20 && irq < 0x30'') (\<lambda>_.
     let m = outb P 0x20 0x20 m in
     Inr (if 0x28 \<le> sint irq_no then outb P 0xa0 0x20 m else m))"

section \<open>Initialisation and registration\<close>

definition exception_names :: "(nat \<times> string) list" where
  "exception_names =
     [(0, ''#DE Divide Error''), (1, ''#DB Debug Exception''), (2, ''NMI Interrupt''),
      (3, ''#BP Breakpoint Exception''), (4, ''#OF Overflow Exception''),
      (5, ''#BR BOUND Range Exceeded Exception''), (6, ''#UD Invalid Opcode Exception''),
      (7, ''#NM Device Not Available Exception''), (8, ''#DF Double Fault Exception''),
      (9, ''Coprocessor Segment Overrun''), (10, ''#TS Invalid TSS Exception''),
      (11, ''#NP Segment Not Present''), (12, ''#SS Stack Fault Exception''),
      (13, ''#GP General Protection Exception''), (14, ''#PF Page-Fault Exception''),
      (16, ''#MF x87 FPU Floating-Point Error''), (17, ''#AC Alignment Check Exception''),
      (18, ''#MC Machine-Check Exception''), (19, ''#XF SIMD Floating-Point Exception'')]"

text \<open>The loop that fills the table, for the indices in the list.\<close>

fun idt_loop :: "platform \<Rightarrow> nat list \<Rightarrow> machine \<Rightarrow> error + machine" where
  "idt_loop P [] m = Inr m"
| "idt_loop P (i # is) m =
     bindE (make_intr_gate P (intr_stubs P i) 0) (\<lambda>g.
     bindE (put (idt m) i g) (\<lambda>t. idt_loop P is (m\<lparr>idt := t\<rparr>)))"

definition intr_init :: "platform \<Rightarrow> machine \<Rightarrow> error + machine" where
  "intr_init P m =
     (let m = pic_init P m in
      bindE (idt_loop P [0..<INTR_CNT] m) (\<lambda>m.
      let m = m\<lparr>idtr := make_idtr_operand (of_nat (8 * INTR_CNT) - 1) (idt_address P)\<rparr>;
          m = m\<lparr>intr_names := fold (\<lambda>i ns. ns[i := Some ''unknown'']) [0..<INTR_CNT] (intr_names m)\<rparr> in
      Inr (m\<lparr>intr_names := fold (\<lambda>(i, nm) ns. ns[i := Some nm]) exception_names (intr_names m)\<rparr>)))"

definition register_handler ::
  "platform \<Rightarrow> u8 \<Rightarrow> s32 \<Rightarrow> intr_level \<Rightarrow> u32 \<Rightarrow> string \<Rightarrow> machine \<Rightarrow> error + machine" where
  "register_handler P vec dpl level handler nm m =
     (let v = unat vec in
      bindE (fetch (intr_handlers m) v) (\<lambda>h.
      bindE (ASSERT (h = 0) ''intr_handlers[vec_no] == NULL'') (\<lambda>_.
      bindE (if level = INTR_ON then make_trap_gate P (intr_stubs P v) dpl
             else make_intr_gate P (intr_stubs P v) dpl) (\<lambda>g.
      bindE (put (idt m) v g) (\<lambda>t.
      bindE (put (intr_handlers m) v handler) (\<lambda>hs.
      bindE (put (intr_names m) v (Some nm)) (\<lambda>ns.
      Inr (m\<lparr>idt := t, intr_handlers := hs, intr_names := ns\<rparr>))))))))"

definition intr_register_ext :: "platform \<Rightarrow> u8 \<Rightarrow> u32 \<Rightarrow> string \<Rightarrow> machine \<Rightarrow> error + machine" where
  "intr_register_ext P vec handler nm m =
     bindE (ASSERT (0x20 \<le> vec \<and> vec \<le> 0x2f) ''vec_no >= 0x20 && vec_no <= 0x2f'') (\<lambda>_.
     register_handler P vec 0 INTR_OFF handler nm m)"

definition intr_register_int ::
  "platform \<Rightarrow> u8 \<Rightarrow> s32 \<Rightarrow> intr_level \<Rightarrow> u32 \<Rightarrow> string \<Rightarrow> machine \<Rightarrow> error + machine" where
  "intr_register_int P vec dpl level handler nm m =
     bindE (ASSERT (vec < 0x20 \<or> 0x2f < vec) ''vec_no < 0x20 || vec_no > 0x2f'') (\<lambda>_.
     register_handler P vec dpl level handler nm m)"

definition intr_yield_on_return :: "machine \<Rightarrow> error + machine" where
  "intr_yield_on_return m =
     bindE (ASSERT (intr_context m) ''intr_context ()'') (\<lambda>_. Inr (m\<lparr>intr_yields := True\<rparr>))"

section \<open>Handling an interrupt\<close>

definition intr_printf :: "string \<Rightarrow> arg list \<Rightarrow> machine \<Rightarrow> machine" where
  "intr_printf fmt args m = m\<lparr>kern := printf fmt args (kern m)\<rparr>"

definition unexpected_interrupt :: "intr_frame \<Rightarrow> machine \<Rightarrow> error + machine" where
  "unexpected_interrupt f m =
     (let v = unat (vec_no f) in
      bindE (fetch (unexpected_cnt m) v) (\<lambda>c.
      let n = c + 1 in
      bindE (put (unexpected_cnt m) v n) (\<lambda>cs.
      let m = m\<lparr>unexpected_cnt := cs\<rparr> in
      if n AND (n - 1) = 0 then
        bindE (fetch (intr_names m) v) (\<lambda>nm.
        bindE (deref nm) (\<lambda>nm.
        Inr (intr_printf ''Unexpected interrupt %#04x (%s)\<newline>'' [AInt (vec_no f), AStr nm] m)))
      else Inr m)))"

definition intr_handler :: "platform \<Rightarrow> intr_frame \<Rightarrow> machine \<Rightarrow> error + machine" where
  "intr_handler P frame m =
     (let external = (0x20 \<le> vec_no frame \<and> vec_no frame < 0x30) in
      bindE
        (if external then
           bindE (ASSERT (intr_get_level m = INTR_OFF) ''intr_get_level () == INTR_OFF'') (\<lambda>_.
           bindE (ASSERT (\<not> intr_context m) ''!intr_context ()'') (\<lambda>_.
           Inr (m\<lparr>in_external_intr := True, intr_yields := False\<rparr>)))
         else Inr m) (\<lambda>m.
      bindE (fetch (intr_handlers m) (unat (vec_no frame))) (\<lambda>handler.
      bindE
        (if handler \<noteq> 0 then call_handler P handler frame m
         else if vec_no frame = 0x27 \<or> vec_no frame = 0x2f then Inr m
         else unexpected_interrupt frame m) (\<lambda>m.
      if external then
        bindE (ASSERT (intr_get_level m = INTR_OFF) ''intr_get_level () == INTR_OFF'') (\<lambda>_.
        bindE (ASSERT (intr_context m) ''intr_context ()'') (\<lambda>_.
        bindE (pic_end_of_interrupt P (vec_no frame) (m\<lparr>in_external_intr := False\<rparr>)) (\<lambda>m.
        if intr_yields m then
          bindE (thread_yield (switch_sync P) (kern m)) (\<lambda>k. Inr (m\<lparr>kern := k\<rparr>))
        else Inr m)))
      else Inr m))))"

definition intr_dump_frame :: "intr_frame \<Rightarrow> machine \<Rightarrow> error + machine" where
  "intr_dump_frame f m =
     bindE (fetch (intr_names m) (unat (vec_no f))) (\<lambda>nm.
     bindE (deref nm) (\<lambda>nm.
     let m = intr_printf ''Interrupt %#04x (%s) at eip=%p\<newline>'' [AInt (vec_no f), AStr nm, AInt (fr_eip f)] m;
         m = intr_printf '' cr2=%08x error=%08x\<newline>'' [AInt (cr2 m), AInt (error_code f)] m;
         m = intr_printf '' eax=%08x ebx=%08x ecx=%08x edx=%08x\<newline>''
               [AInt (fr_eax f), AInt (fr_ebx f), AInt (fr_ecx f), AInt (fr_edx f)] m;
         m = intr_printf '' esi=%08x edi=%08x esp=%08x ebp=%08x\<newline>''
               [AInt (fr_esi f), AInt (fr_edi f), AInt (fr_esp f), AInt (fr_ebp f)] m in
     Inr (intr_printf '' cs=%04x ds=%04x es=%04x ss=%04x\<newline>''
               [AInt (ucast (fr_cs f)), AInt (ucast (fr_ds f)), AInt (ucast (fr_es f)), AInt (ucast (fr_ss f))] m)))"

definition intr_name :: "u8 \<Rightarrow> machine \<Rightarrow> error + string option" where
  "intr_name vec m = fetch (intr_names m) (unat vec)"

end
