(* ===== verification/Irq_Control.thy ===== *)
theory Irq_Control
  imports Prelude
begin

text \<open>
  The interface of interrupt control that the kernel relies on in two forms, the Pico SDK's
  \<open>save_and_disable_interrupts\<close> and \<open>restore_interrupts\<close> (src/threads/thread.c) and the x86
  \<open>intr_disable\<close> and \<open>intr_set_level\<close> (src/lib/interrupt.c): what is saved is the current level, and
  restoring brings it back where restoring is allowed.  The client is a critical section.
\<close>

definition critical :: "('s \<Rightarrow> 'l \<times> 's) \<Rightarrow> ('l \<Rightarrow> 's \<Rightarrow> error + 's) \<Rightarrow> ('s \<Rightarrow> error + ('a \<times> 's)) \<Rightarrow> 's \<Rightarrow> error + ('a \<times> 's)" where
  "critical save restore body s =
     (case save s of (old, s) \<Rightarrow>
      bindE (body s) (\<lambda>(r, s). bindE (restore old s) (\<lambda>s. Inr (r, s))))"

locale irq_control =
  fixes save :: "'s \<Rightarrow> 'l \<times> 's" and restore :: "'l \<Rightarrow> 's \<Rightarrow> error + 's"
    and level :: "'s \<Rightarrow> 'l" and allowed :: "'s \<Rightarrow> bool"
  assumes save_level: "fst (save s) = level s"
    and save_allowed: "allowed (snd (save s)) = allowed s"
    and restore_level: "allowed s \<Longrightarrow> \<exists>s'. restore l s = Inr s' \<and> level s' = l \<and> allowed s'"
begin

lemma critical_returns:
  assumes "allowed s" and "\<exists>r s1. body (snd (save s)) = Inr (r, s1) \<and> allowed s1 \<and> Q r s1"
  shows "\<exists>r s1 s2. critical save restore body s = Inr (r, s2) \<and> restore (level s) s1 = Inr s2 \<and> Q r s1 \<and>
    level s2 = level s \<and> allowed s2"
proof -
  obtain r s1 where b: "body (snd (save s)) = Inr (r, s1)" "allowed s1" "Q r s1" using assms(2) by blast
  obtain s2 where "restore (level s) s1 = Inr s2" "level s2 = level s" "allowed s2"
    using restore_level [OF b(2)] by blast
  with b save_level [of s] show ?thesis by (auto simp: critical_def case_prod_unfold)
qed

text \<open>Critical sections nest: one inside of another leaves the level of the outer one alone.\<close>

lemma critical_nested:
  assumes "allowed s" and "\<And>s. allowed s \<Longrightarrow> \<exists>r s1. body s = Inr (r, s1) \<and> allowed s1"
  shows "\<exists>r s2. critical save restore (critical save restore body) s = Inr (r, s2) \<and> level s2 = level s \<and> allowed s2"
proof -
  have "\<exists>r s1. critical save restore body s' = Inr (r, s1) \<and> allowed s1 \<and> True" if "allowed s'" for s'
    using critical_returns [OF that, of body "\<lambda>_ _. True"] assms(2) save_allowed that by metis
  then show ?thesis
    using critical_returns [OF assms(1), of "critical save restore body" "\<lambda>_ _. True"] assms(1) save_allowed by metis
qed

end

end
