(* ===== verification/Interrupt_Spec.thy ===== *)
theory Interrupt_Spec
  imports Interrupt Irq_Control
begin

text \<open>
  Properties of src/lib/interrupt.c: the descriptors it builds are the ones the IA-32 format
  prescribes, the interrupt level is restored by critical sections (the interface of \<open>Irq_Control\<close>), and
  \<open>intr_init\<close> sets up the tables and the controllers.
\<close>

unbundle bit_operations_syntax

section \<open>Descriptors\<close>

text \<open>The fields of a gate descriptor in the format of the processor.\<close>

definition gate_offset :: "u64 \<Rightarrow> u32" where
  "gate_offset g = (ucast g AND mask 16) OR (ucast (drop_bit 32 g) AND NOT (mask 16))"

definition gate_selector :: "u64 \<Rightarrow> u16" where
  "gate_selector g = ucast (drop_bit 16 g)"

definition gate_type :: "u64 \<Rightarrow> u32" where
  "gate_type g = ucast (drop_bit 40 g) AND mask 4"

definition gate_dpl :: "u64 \<Rightarrow> u32" where
  "gate_dpl g = ucast (drop_bit 45 g) AND mask 2"

definition gate_system :: "u64 \<Rightarrow> bool" where
  "gate_system g \<longleftrightarrow> \<not> bit g 44"

definition gate_present :: "u64 \<Rightarrow> bool" where
  "gate_present g \<longleftrightarrow> bit g 47"

lemma bit_below: "uint x < 2 ^ k \<Longrightarrow> bit x n \<Longrightarrow> n < k" for x :: u32
proof -
  assume a: "uint x < 2 ^ k" "bit x n"
  have "take_bit k (uint x) = uint x" using a(1) by (simp add: take_bit_int_eq_self)
  moreover have "bit (uint x) n" using a(2) bit_imp_le_length [OF a(2)] by (simp add: bit_uint_iff)
  ultimately show "n < k" by (metis bit_take_bit_iff)
qed

lemma bit_present:
  "bit (0x8000 :: u32) n \<longleftrightarrow> n = 15" "bit (0x8000 :: u64) n \<longleftrightarrow> n = 15"
  "bit (0x8000 :: int) n \<longleftrightarrow> n = 15" "bit (0x8000 :: nat) n \<longleftrightarrow> n = 15"
  using bit_exp_iff [of 15 n, where 'a = "32 word"] bit_exp_iff [of 15 n, where 'a = "64 word"]
    bit_exp_iff [of 15 n, where 'a = int] bit_exp_iff [of 15 n, where 'a = nat] by auto

lemma gate_fields:
  fixes func dpl type :: u32
  assumes "uint (SEL_KCSEG P) < 2 ^ 16" "uint dpl < 2 ^ 2" "uint type < 2 ^ 4"
  defines "e0 \<equiv> (func AND 0xffff) OR push_bit 16 (SEL_KCSEG P)"
    and "e1 \<equiv> (func AND 0xffff0000) OR push_bit 15 1 OR push_bit 13 dpl OR push_bit 12 0 OR push_bit 8 type"
  defines "g \<equiv> (ucast e0 OR push_bit 32 (ucast e1) :: u64)"
  shows "gate_offset g = func" "gate_selector g = ucast (SEL_KCSEG P)" "gate_type g = type" "gate_dpl g = dpl"
    "gate_present g" "gate_system g"
proof -
  note b = bit_below [OF assms(1)] bit_below [OF assms(2)] bit_below [OF assms(3)]
  have m: "(0xffff :: u32) = mask 16" "(0xffff0000 :: u32) = push_bit 16 (mask 16)"
    by (simp_all add: mask_numeral)
  note d = g_def e0_def e1_def m bit_present
  show "gate_offset g = func"
    by (rule bit_word_eqI) (auto simp: gate_offset_def d bit_simps dest: b)
  show "gate_selector g = ucast (SEL_KCSEG P)"
    by (rule bit_word_eqI) (auto simp: gate_selector_def d bit_simps)
  show "gate_type g = type"
    by (rule bit_word_eqI) (auto simp: gate_type_def d bit_simps dest: b)
  show "gate_dpl g = dpl"
    by (rule bit_word_eqI) (auto simp: gate_dpl_def d bit_simps dest: b)
  show "gate_present g" "gate_system g"
    by (auto simp: gate_present_def gate_system_def d bit_simps dest: b)
qed

section \<open>The interrupt level\<close>

definition set_level :: "intr_level \<Rightarrow> machine \<Rightarrow> error + machine" where
  "set_level l m = bindE (intr_set_level l m) (\<lambda>(_, m). Inr m)"

lemma FLAG_IF_nonzero [simp]: "FLAG_IF \<noteq> 0"
  by (simp add: FLAG_IF_def)

lemma flag_simps [simp]:
  "(x OR FLAG_IF) AND FLAG_IF = FLAG_IF" "(x AND NOT FLAG_IF) AND FLAG_IF = 0"
  by (rule bit_word_eqI; auto simp: bit_simps)+

interpretation x86: irq_control intr_disable set_level intr_get_level "\<lambda>m. \<not> intr_context m"
proof
  fix m :: machine
  show "fst (intr_disable m) = intr_get_level m" by (simp add: intr_disable_def)
  show "(\<not> intr_context (snd (intr_disable m))) = (\<not> intr_context m)"
    by (simp add: intr_disable_def intr_context_def)
next
  fix m :: machine and l
  assume "\<not> intr_context m"
  then show "\<exists>m'. set_level l m = Inr m' \<and> intr_get_level m' = l \<and> \<not> intr_context m'"
    by (cases l)
      (simp_all add: set_level_def intr_set_level_def intr_enable_def intr_disable_def intr_get_level_def
        intr_context_def)
qed

section \<open>Registration\<close>

lemma make_gate_ok:
  assumes "func \<noteq> 0" "0 \<le> sint dpl" "sint dpl \<le> 3" "0 \<le> sint type" "sint type \<le> 15" "uint (SEL_KCSEG P) < 2 ^ 16"
  shows "\<exists>g. make_gate P func dpl type = Inr g \<and> gate_offset g = func \<and> gate_selector g = ucast (SEL_KCSEG P) \<and>
    gate_type g = type \<and> gate_dpl g = dpl \<and> gate_present g \<and> gate_system g"
proof -
  have u: "uint x = sint x" if "0 \<le> sint x" for x :: s32
  proof -
    have "uint (word_of_int (sint x) :: s32) = sint x"
      unfolding uint_word_of_int_eq by (rule take_bit_int_eq_self) (use that sint_lt [of x] in auto)
    then show ?thesis by simp
  qed
  have "uint dpl < 2 ^ 2" "uint type < 2 ^ 4" using u assms(2-5) by simp_all
  from gate_fields [OF assms(6) this, of func] assms(1-5) show ?thesis by (simp add: make_gate_def Let_def)
qed

text \<open>What is relied on of the platform: \<open>outb\<close> writes a byte to a port, and the entry points exist.\<close>

definition platform_ok :: "platform \<Rightarrow> bool" where
  "platform_ok P \<longleftrightarrow> (\<forall>p d m. outb P p d m = m\<lparr>ports := ports m @ [(p, d)]\<rparr>) \<and>
     (\<forall>v<INTR_CNT. intr_stubs P v \<noteq> 0) \<and> uint (SEL_KCSEG P) < 2 ^ 16"

lemma platform_okD:
  assumes "platform_ok P"
  shows "outb P p d m = m\<lparr>ports := ports m @ [(p, d)]\<rparr>" "v < INTR_CNT \<Longrightarrow> intr_stubs P v \<noteq> 0" "uint (SEL_KCSEG P) < 2 ^ 16"
  using assms by (auto simp: platform_ok_def)

text \<open>The arrays of the file have \<open>INTR_CNT\<close> elements.\<close>

definition tables_ok :: "machine \<Rightarrow> bool" where
  "tables_ok m \<longleftrightarrow> length (idt m) = INTR_CNT \<and> length (intr_handlers m) = INTR_CNT \<and>
     length (intr_names m) = INTR_CNT \<and> length (unexpected_cnt m) = INTR_CNT"

definition gate_to :: "platform \<Rightarrow> nat \<Rightarrow> u32 \<Rightarrow> u32 \<Rightarrow> u64 \<Rightarrow> bool" where
  "gate_to P v dpl type g \<longleftrightarrow> gate_offset g = intr_stubs P v \<and> gate_selector g = ucast (SEL_KCSEG P) \<and>
     gate_type g = type \<and> gate_dpl g = dpl \<and> gate_present g \<and> gate_system g"

lemma stub_gate:
  assumes "platform_ok P" "v < INTR_CNT" "0 \<le> sint dpl" "sint dpl \<le> 3" "0 \<le> sint type" "sint type \<le> 15"
  shows "\<exists>g. make_gate P (intr_stubs P v) dpl type = Inr g \<and> gate_to P v dpl type g"
  using make_gate_ok [OF platform_okD(2) [OF assms(1,2)] assms(3-6) platform_okD(3) [OF assms(1)]]
  by (simp add: gate_to_def)

lemma idt_loop_ok:
  assumes "platform_ok P"
  shows "set vs \<subseteq> {..<INTR_CNT} \<Longrightarrow> distinct vs \<Longrightarrow> length (idt m) = INTR_CNT \<Longrightarrow>
    \<exists>t. idt_loop P vs m = Inr (m\<lparr>idt := t\<rparr>) \<and> length t = INTR_CNT \<and> (\<forall>v\<in>set vs. gate_to P v 0 14 (t ! v)) \<and>
      (\<forall>v. v \<notin> set vs \<longrightarrow> t ! v = idt m ! v)"
proof (induction vs arbitrary: m)
  case Nil
  then show ?case by (intro exI [of _ "idt m"]) simp
next
  case (Cons v vs)
  obtain g where g: "make_gate P (intr_stubs P v) 0 14 = Inr g" "gate_to P v 0 14 g"
    using stub_gate [OF assms, of v 0 14] Cons.prems(1) by auto
  obtain t where "idt_loop P vs (m\<lparr>idt := (idt m)[v := g]\<rparr>) = Inr (m\<lparr>idt := t\<rparr>)" "length t = INTR_CNT"
    "\<forall>v\<in>set vs. gate_to P v 0 14 (t ! v)" "\<forall>w. w \<notin> set vs \<longrightarrow> t ! w = (idt m)[v := g] ! w"
    using Cons.IH [of "m\<lparr>idt := (idt m)[v := g]\<rparr>"] Cons.prems by auto
  with g Cons.prems show ?case
    by (intro exI [of _ t]) (auto simp: make_intr_gate_def put_def)
qed

lemma fold_update_length [simp]:
  "length (fold (\<lambda>i ns. ns[i := f i]) is ns) = length ns" "length (fold (\<lambda>(i, x) ns. ns[i := g x]) ps ns) = length ns"
  by (induction "is" arbitrary: ns) (simp_all, induction ps arbitrary: ns, auto)

lemma fold_update_nth:
  "j < length ns \<Longrightarrow> fold (\<lambda>i ns. ns[i := c]) is ns ! j = (if j \<in> set is then c else ns ! j)"
  by (induction "is" arbitrary: ns) auto

lemma fold_pairs_nth:
  "j < length ns \<Longrightarrow> distinct (map fst ps) \<Longrightarrow>
   fold (\<lambda>(i, x) ns. ns[i := Some x]) ps ns ! j = (case map_of ps j of Some x \<Rightarrow> Some x | None \<Rightarrow> ns ! j)"
proof (induction ps arbitrary: ns)
  case (Cons p ps)
  obtain i x where p: "p = (i, x)" by (cases p)
  have "map_of ps i = None" using Cons.prems(2) by (simp add: p map_of_eq_None_iff)
  then show ?case using Cons.IH [of "ns[i := Some x]"] Cons.prems by (cases "j = i") (auto simp: p split: option.splits)
qed simp

lemma pic_init_ok:
  assumes "platform_ok P"
  shows "pic_init P m = m\<lparr>ports := ports m @ [(PIC0_DATA, 0xff), (PIC1_DATA, 0xff),
     (PIC0_CTRL, 0x11), (PIC0_DATA, 0x20), (PIC0_DATA, 0x04), (PIC0_DATA, 0x01),
     (PIC1_CTRL, 0x11), (PIC1_DATA, 0x28), (PIC1_DATA, 0x02), (PIC1_DATA, 0x01), (PIC0_DATA, 0), (PIC1_DATA, 0)]\<rparr>"
  by (simp add: pic_init_def platform_okD(1) [OF assms] Let_def)

section \<open>Properties\<close>

text \<open>C36: The gate descriptor \<open>make_gate\<close> builds, read back in the format of the processor, gives the function,
  the code selector, the privilege level and the type it was built from, present and not of a system
  segment; arguments out of range panic.\<close>

theorem gate_round_trip:
  assumes "uint (SEL_KCSEG P) < 2 ^ 16"
  shows "(if func \<noteq> 0 \<and> 0 \<le> sint dpl \<and> sint dpl \<le> 3 \<and> 0 \<le> sint type \<and> sint type \<le> 15 then
      \<exists>g. make_gate P func dpl type = Inr g \<and> gate_offset g = func \<and> gate_selector g = ucast (SEL_KCSEG P) \<and>
        gate_type g = type \<and> gate_dpl g = dpl \<and> gate_present g \<and> gate_system g
    else \<exists>e. make_gate P func dpl type = Inl (Panic e))"
proof (cases "func \<noteq> 0 \<and> 0 \<le> sint dpl \<and> sint dpl \<le> 3 \<and> 0 \<le> sint type \<and> sint type \<le> 15")
  case True
  with make_gate_ok [of func dpl type P] assms show ?thesis by simp
next
  case False
  then show ?thesis by (auto simp: make_gate_def ASSERT_def)
qed

text \<open>A platform for the examples: entry points from 0x1000 on, handlers that do nothing.\<close>

definition pc :: platform where
  "pc = \<lparr>intr_stubs = (\<lambda>v. 0x1000 + of_nat (v mod 256)), idt_address = 0x30000000, SEL_KCSEG = 8,
     outb = (\<lambda>p d m. m\<lparr>ports := ports m @ [(p, d)]\<rparr>), call_handler = (\<lambda>h f m. Inr m),
     switch_sync = \<lparr>save_and_disable_interrupts = (\<lambda>m. (m, 1)), restore_interrupts = (\<lambda>old _. old)\<rparr>\<rparr>"

lemma pc_ok: "platform_ok pc"
proof -
  have "0x1000 + of_nat (v mod 256) \<noteq> (0 :: u32)" for v
  proof -
    have "v mod 256 < 256" by simp
    then have "unat (0x1000 + of_nat (v mod 256) :: u32) = 0x1000 + v mod 256"
      by (simp add: unat_word_ariths unat_of_nat)
    then show ?thesis by (metis unat_0 add_is_0 zero_neq_numeral)
  qed
  then show ?thesis by (simp add: platform_ok_def pc_def)
qed

definition pc_machine :: machine where
  "pc_machine = \<lparr>kern = boot_state \<lparr>cpu_r3 = 0, cpu_r5 = 0, cpu_r6 = 0, cpu_r7 = 0, cpu_sp = 0\<rparr> 0,
     idt = replicate 256 0, idtr = 0, intr_handlers = replicate 256 0, intr_names = replicate 256 None,
     unexpected_cnt = replicate 256 0, in_external_intr = False, intr_yields = False, eflags = 0, cr2 = 0, ports = []\<rparr>"

lemma pc_machine_ok: "tables_ok pc_machine"
  by (simp add: tables_ok_def pc_machine_def INTR_CNT_def)

theorem gate_round_trip_witness:
  "\<exists>g. make_gate pc 0x12345678 3 15 = Inr g \<and> gate_offset g = 0x12345678 \<and> gate_dpl g = 3 \<and> gate_type g = 15"
  using gate_round_trip [of pc "0x12345678" 3 15] by (simp add: pc_def) blast

text \<open>\<open>intr_init\<close> makes every entry of the descriptor table an interrupt gate of level 0 to its stub, loads the
  table register with the address and the last byte of the table, names every vector, and moves the
  interrupts of the controllers to the vectors from 0x20 and 0x28 on.\<close>

theorem intr_init_tables:
  assumes "platform_ok P" "tables_ok m"
  shows "\<exists>m'. intr_init P m = Inr m' \<and> tables_ok m' \<and> (\<forall>v<INTR_CNT. gate_to P v 0 14 (idt m' ! v) \<and>
      intr_names m' ! v = Some (case map_of exception_names v of Some nm \<Rightarrow> nm | None \<Rightarrow> ''unknown'')) \<and>
    take_bit 16 (idtr m') = 8 * 256 - 1 \<and> drop_bit 16 (idtr m') = ucast (idt_address P) \<and>
    intr_handlers m' = intr_handlers m \<and> {(PIC0_DATA, 0x20), (PIC1_DATA, 0x28)} \<subseteq> set (drop (length (ports m)) (ports m'))"
proof -
  obtain t where t: "idt_loop P [0..<INTR_CNT] (pic_init P m) = Inr ((pic_init P m)\<lparr>idt := t\<rparr>)" "length t = INTR_CNT"
    "\<forall>v<INTR_CNT. gate_to P v 0 14 (t ! v)"
  proof -
    have "length (idt (pic_init P m)) = INTR_CNT" using assms(2) by (simp add: tables_ok_def pic_init_ok [OF assms(1)])
    then show thesis
      using idt_loop_ok [OF assms(1), of "[0..<INTR_CNT]" "pic_init P m"] that by (force simp: atLeast0LessThan)
  qed
  have n: "length (intr_names m) = INTR_CNT" using assms(2) by (simp add: tables_ok_def)
  have i: "take_bit 16 (make_idtr_operand 2047 b) = 2047" "drop_bit 16 (make_idtr_operand 2047 b) = ucast b" for b :: u32
    by (rule bit_word_eqI; auto simp: make_idtr_operand_def bit_simps dest: bit_imp_le_length)+
  have "distinct (map fst exception_names)" by (simp add: exception_names_def)
  then show ?thesis
    using t assms(2) n
    by (auto simp: intr_init_def Let_def pic_init_ok [OF assms(1)] tables_ok_def fold_pairs_nth fold_update_nth
        i INTR_CNT_def split: option.splits)
qed

theorem intr_init_tables_witness:
  "\<exists>m'. intr_init pc pc_machine = Inr m' \<and> intr_names m' ! 14 = Some ''#PF Page-Fault Exception'' \<and>
     intr_names m' ! 15 = Some ''unknown'' \<and> gate_offset (idt m' ! 14) = 0x100e"
proof -
  obtain m' where m': "intr_init pc pc_machine = Inr m'" "\<forall>v<INTR_CNT. gate_to pc v 0 14 (idt m' ! v) \<and>
      intr_names m' ! v = Some (case map_of exception_names v of Some nm \<Rightarrow> nm | None \<Rightarrow> ''unknown'')"
    using intr_init_tables [OF pc_ok pc_machine_ok] by blast
  have "14 < INTR_CNT" "15 < INTR_CNT" by (simp_all add: INTR_CNT_def)
  with m'(2) have "gate_to pc 14 0 14 (idt m' ! 14)"
    "intr_names m' ! 14 = Some ''#PF Page-Fault Exception''" "intr_names m' ! 15 = Some ''unknown''"
    by (simp_all add: exception_names_def)
  with m'(1) show ?thesis by (simp add: gate_to_def pc_def)
qed

end
