(* ===== verification/Interrupt_Dispatch.thy ===== *)
theory Interrupt_Dispatch
  imports Interrupt_Spec
begin

text \<open>
  What happens when an interrupt arrives (src/lib/interrupt.c): a registered handler is called once,
  in the context of an external interrupt if the vector belongs to the controllers, which are then
  acknowledged; interrupts without a handler are counted, and reported at a rate that falls off.
\<close>

unbundle bit_operations_syntax

section \<open>Registered handlers\<close>

lemma register_handler_ok:
  assumes "platform_ok P" "tables_ok m" "intr_handlers m ! unat v = 0" "0 \<le> sint dpl" "sint dpl \<le> 3"
  shows "\<exists>g. register_handler P v dpl level h nm m =
      Inr (m\<lparr>idt := (idt m)[unat v := g], intr_handlers := (intr_handlers m)[unat v := h],
             intr_names := (intr_names m)[unat v := Some nm]\<rparr>) \<and>
    gate_to P (unat v) dpl (if level = INTR_ON then 15 else 14) g"
proof -
  have "unat v < 2 ^ LENGTH(8)" by (rule unsigned_less)
  then have v: "unat v < INTR_CNT" by (simp add: INTR_CNT_def)
  obtain g where "make_gate P (intr_stubs P (unat v)) dpl (if level = INTR_ON then 15 else 14) = Inr g"
    "gate_to P (unat v) dpl (if level = INTR_ON then 15 else 14) g"
    using stub_gate [OF assms(1) v assms(4,5), of 15] stub_gate [OF assms(1) v assms(4,5), of 14] by (cases level) auto
  then show ?thesis
    using assms(2,3) v
    by (auto simp: register_handler_def fetch_def put_def tables_ok_def make_trap_gate_def make_intr_gate_def Let_def)
qed

text \<open>\<open>intr_register_ext\<close> accepts a free vector of the controllers: the descriptor becomes an interrupt gate to
  the stub, and the handler and the name are entered; a second registration of the vector and a
  vector outside of 0x20 to 0x2f panic.\<close>

theorem register_ext_once:
  assumes "platform_ok P" "tables_ok m" "intr_handlers m ! unat v = 0" "h \<noteq> 0"
  shows "(if 0x20 \<le> v \<and> v \<le> 0x2f then
      \<exists>m'. intr_register_ext P v h nm m = Inr m' \<and> tables_ok m' \<and> gate_to P (unat v) 0 14 (idt m' ! unat v) \<and>
        intr_handlers m' = (intr_handlers m)[unat v := h] \<and> intr_name v m' = Inr (Some nm) \<and>
        intr_register_ext P v h2 nm2 m' = Inl (Panic ''intr_handlers[vec_no] == NULL'')
    else intr_register_ext P v h nm m = Inl (Panic ''vec_no >= 0x20 && vec_no <= 0x2f''))"
proof -
  have "unat v < 2 ^ LENGTH(8)" by (rule unsigned_less)
  then have v: "unat v < INTR_CNT" by (simp add: INTR_CNT_def)
  obtain g where "register_handler P v 0 INTR_OFF h nm m =
      Inr (m\<lparr>idt := (idt m)[unat v := g], intr_handlers := (intr_handlers m)[unat v := h],
             intr_names := (intr_names m)[unat v := Some nm]\<rparr>)" "gate_to P (unat v) 0 14 g"
    using register_handler_ok [OF assms(1-3), of 0 INTR_OFF h nm] by auto
  with assms(2,4) v show ?thesis
    by (auto simp: intr_register_ext_def tables_ok_def intr_name_def register_handler_def fetch_def Let_def)
qed

theorem register_ext_once_witness:
  "\<exists>m'. intr_register_ext pc 0x20 0x5000 ''8254 Timer'' pc_machine = Inr m' \<and> intr_name 0x20 m' = Inr (Some ''8254 Timer'') \<and>
     intr_register_ext pc 0x20 0x6000 ''again'' m' = Inl (Panic ''intr_handlers[vec_no] == NULL'')"
  using register_ext_once [OF pc_ok pc_machine_ok, of "0x20" "0x5000" "''8254 Timer''" "0x6000" "''again''"]
  by (auto simp: pc_machine_def)

text \<open>
  The bytes that acknowledge an interrupt: the master always, the slave for its own vectors.
\<close>

definition eoi :: "u32 \<Rightarrow> (u16 \<times> u8) list" where
  "eoi v = (0x20, 0x20) # (if 0x28 \<le> v then [(0xa0, 0x20)] else [])"

lemma external_sint:
  assumes "0x20 \<le> v" "v < (0x30 :: u32)"
  shows "0x20 \<le> sint v" "sint v < 0x30" "(0x28 \<le> sint v) = (0x28 \<le> v)"
proof -
  have u: "0x20 \<le> uint v" "uint v < 0x30" using assms by (simp_all add: word_le_def word_less_def)
  then have "signed_take_bit 31 (uint v) = uint v" by (intro signed_take_bit_int_eq_self) auto
  then have "sint v = uint v" by (simp add: sint_uint)
  with u show "0x20 \<le> sint v" "sint v < 0x30" "(0x28 \<le> sint v) = (0x28 \<le> v)" by (simp_all add: word_le_def)
qed

lemma end_of_interrupt_ok:
  assumes "platform_ok P" "0x20 \<le> v" "v < 0x30"
  shows "pic_end_of_interrupt P v m = Inr (m\<lparr>ports := ports m @ eoi v\<rparr>)"
  using external_sint [OF assms(2,3)] by (simp add: pic_end_of_interrupt_def platform_okD(1) [OF assms(1)] eoi_def Let_def)

text \<open>C37: An external interrupt with a registered handler: with interrupts disabled and none in progress, the
  handler runs inside of the interrupt context; if it returns with interrupts still disabled, the
  controllers are acknowledged, the context is left, and the processor is yielded exactly when the
  handler asked for it.\<close>

theorem external_interrupt_protocol:
  assumes "platform_ok P" "tables_ok m" "0x20 \<le> vec_no f" "vec_no f < 0x30"
    and "intr_get_level m = INTR_OFF" "\<not> intr_context m" "intr_handlers m ! unat (vec_no f) = h" "h \<noteq> 0"
    and "call_handler P h f (m\<lparr>in_external_intr := True, intr_yields := False\<rparr>) = Inr m1"
    and "intr_get_level m1 = INTR_OFF" "intr_context m1"
  shows "intr_handler P f m =
    (let m2 = m1\<lparr>in_external_intr := False, ports := ports m1 @ eoi (vec_no f)\<rparr> in
     if intr_yields m1 then bindE (thread_yield (switch_sync P) (kern m1)) (\<lambda>k. Inr (m2\<lparr>kern := k\<rparr>)) else Inr m2)"
proof -
  have "unat (vec_no f) < INTR_CNT" using assms(4) by (simp add: word_less_nat_alt INTR_CNT_def)
  then show ?thesis
    using assms end_of_interrupt_ok [OF assms(1,3,4)]
    by (simp add: intr_handler_def fetch_def tables_ok_def intr_context_def intr_get_level_def Let_def)
qed

definition timer_frame :: intr_frame where
  "timer_frame = \<lparr>fr_edi = 0, fr_esi = 0, fr_ebp = 0, fr_esp_dummy = 0, fr_ebx = 0, fr_edx = 0, fr_ecx = 0, fr_eax = 0,
     fr_gs = 0, fr_fs = 0, fr_es = 0, fr_ds = 0, vec_no = 0x28, error_code = 0, frame_pointer = 0, fr_eip = 0, fr_cs = 8,
     fr_eflags = 0, fr_esp = 0, fr_ss = 0\<rparr>"

theorem external_interrupt_protocol_witness:
  "\<exists>m'. intr_handler pc timer_frame (pc_machine\<lparr>intr_handlers := (replicate 256 0)[0x28 := 0x5000]\<rparr>) = Inr m' \<and>
     ports m' = [(0x20, 0x20), (0xa0, 0x20)] \<and> \<not> intr_context m'"
proof -
  let ?m = "pc_machine\<lparr>intr_handlers := (replicate 256 0)[0x28 := 0x5000]\<rparr>"
  have "tables_ok ?m" using pc_machine_ok by (simp add: tables_ok_def INTR_CNT_def)
  from external_interrupt_protocol [OF pc_ok this, of timer_frame "0x5000" "?m\<lparr>in_external_intr := True, intr_yields := False\<rparr>"]
  show ?thesis
    by (simp add: timer_frame_def pc_machine_def pc_def intr_get_level_def intr_context_def eoi_def Let_def)
qed

text \<open>Without a handler, the two vectors that can arrive spuriously are only acknowledged.\<close>

lemma spurious_ignored:
  assumes "platform_ok P" "tables_ok m" "vec_no f = 0x27 \<or> vec_no f = 0x2f"
    and "intr_get_level m = INTR_OFF" "\<not> intr_context m" "intr_handlers m ! unat (vec_no f) = 0"
  shows "intr_handler P f m = Inr (m\<lparr>intr_yields := False, ports := ports m @ eoi (vec_no f)\<rparr>)"
proof -
  have v: "0x20 \<le> vec_no f" "vec_no f < 0x30" "unat (vec_no f) < INTR_CNT"
    using assms(3) by (auto simp: word_le_nat_alt word_less_nat_alt INTR_CNT_def)
  show ?thesis
    using assms v end_of_interrupt_ok [OF assms(1) v(1,2)]
    by (simp add: intr_handler_def fetch_def tables_ok_def intr_context_def intr_get_level_def Let_def)
qed

section \<open>Unexpected interrupts\<close>

lemma odd_top_bit: "2 ^ k \<le> x \<Longrightarrow> x < 2 ^ (k + 1) \<Longrightarrow> bit x k" for x :: nat
proof -
  assume "2 ^ k \<le> x" "x < 2 ^ (k + 1)"
  then have "x div 2 ^ k = 1" by (simp add: div_nat_eqI)
  then show "bit x k" by (simp add: bit_iff_odd)
qed

text \<open>The test \<open>(n & (n - 1)) == 0\<close> holds of 0 and of the powers of two.\<close>

lemma power_of_two_test: "n AND (n - 1) = 0 \<longleftrightarrow> n = 0 \<or> (\<exists>k. unat n = 2 ^ k)" for n :: u32
proof (cases "n = 0")
  case False
  then have pos: "0 < unat n" by (simp add: unat_gt_0)
  then have m: "unat (n - 1) = unat n - 1" by (simp add: unat_minus_one False)
  have "bit x k = bit (unat x) k" for x :: u32 and k by (simp add: bit_unsigned_iff)
  then have bits: "bit n k = bit (unat n) k" "bit (n - 1) k = bit (unat n - 1) k" if "k < 32" for k
    using m by metis+
  obtain k where k: "2 ^ k \<le> unat n" "unat n < 2 ^ (k + 1)"
    using ex_power_ivl1 [of 2 "unat n"] pos by auto
  have lt: "unat n < 2 ^ LENGTH(32)" by (rule unsigned_less)
  have k32: "k < 32"
  proof (rule ccontr)
    assume "\<not> k < 32"
    then have "(2 :: nat) ^ 32 \<le> 2 ^ k" by (intro power_increasing) auto
    with k(1) lt show False by simp
  qed
  show ?thesis
  proof
    assume z: "n AND (n - 1) = 0"
    have "unat n = 2 ^ k"
    proof (rule ccontr)
      assume "unat n \<noteq> 2 ^ k"
      then have "bit (unat n - 1) k" using k by (intro odd_top_bit) auto
      moreover have "bit (unat n) k" using k by (rule odd_top_bit)
      ultimately have "bit (n AND (n - 1)) k" using bits [OF k32] by (simp add: bit_and_iff)
      with z show False by simp
    qed
    then show "n = 0 \<or> (\<exists>k. unat n = 2 ^ k)" by blast
  next
    assume "n = 0 \<or> (\<exists>k. unat n = 2 ^ k)"
    then obtain j where j: "unat n = 2 ^ j" using False by auto
    show "n AND (n - 1) = 0"
    proof (rule bit_word_eqI)
      fix i assume "i < LENGTH(32)"
      then have i: "i < 32" by simp
      have "\<not> (bit (2 ^ j :: nat) i \<and> bit (2 ^ j - 1 :: nat) i)"
        using bit_mask_iff [of j i, where 'a = nat] by (auto simp: bit_exp_iff mask_eq_exp_minus_1)
      then show "bit (n AND (n - 1)) i = bit (0 :: u32) i" using bits [OF i] j by (simp add: bit_and_iff)
    qed
  qed
qed simp

fun repeatE :: "('s \<Rightarrow> error + 's) \<Rightarrow> nat \<Rightarrow> 's \<Rightarrow> error + 's" where
  "repeatE f 0 s = Inr s"
| "repeatE f (Suc n) s = bindE (repeatE f n s) f"

lemma powers_upto_Suc:
  "card {k. 2 ^ k \<le> Suc n} = card {k :: nat. 2 ^ k \<le> n} + (if \<exists>k :: nat. Suc n = 2 ^ k then 1 else 0)"
proof -
  have fin: "finite {k :: nat. 2 ^ k \<le> n}"
    by (rule finite_subset [of _ "{..n}"]) (auto intro: order_trans [OF less_imp_le [OF less_exp]])
  show ?thesis
  proof (cases "\<exists>k :: nat. Suc n = 2 ^ k")
    case True
    then obtain j :: nat where j: "Suc n = 2 ^ j" by blast
    have "2 ^ k = Suc n \<longleftrightarrow> k = j" for k :: nat unfolding j by simp
    then have "{k :: nat. 2 ^ k \<le> Suc n} = insert j {k. 2 ^ k \<le> n}" by (auto simp: le_Suc_eq)
    moreover have "j \<notin> {k. 2 ^ k \<le> n}" using j by simp
    ultimately show ?thesis using fin True by simp
  next
    case False
    then have "2 ^ k \<noteq> Suc n" for k :: nat by metis
    then have "{k :: nat. 2 ^ k \<le> Suc n} = {k. 2 ^ k \<le> n}" by (auto simp: le_Suc_eq)
    with False show ?thesis by simp
  qed
qed

text \<open>The rate limit: of the first \<open>n\<close> unexpected interrupts on a vector exactly those whose number is a power
  of two are reported, so that there are as many messages as powers of two up to \<open>n\<close>, and all are counted.\<close>

theorem unexpected_messages:
  assumes "tables_ok m" "unat (vec_no f) = v" "v < INTR_CNT" "unexpected_cnt m ! v = 0" "intr_names m ! v = Some nm"
    and "n < 2 ^ 32"
  shows "\<exists>m'. repeatE (unexpected_interrupt f) n m = Inr m' \<and> unexpected_cnt m' = (unexpected_cnt m)[v := of_nat n] \<and>
    console (kern m') = console (kern m) @
      replicate (card {k. 2 ^ k \<le> n}) (''Unexpected interrupt %#04x (%s)\<newline>'', [AInt (vec_no f), AStr nm])"
proof -
  define line where "line = (''Unexpected interrupt %#04x (%s)\<newline>'', [AInt (vec_no f), AStr nm])"
  define st where "st n = m\<lparr>unexpected_cnt := (unexpected_cnt m)[v := of_nat n],
      kern := (kern m)\<lparr>console := console (kern m) @ replicate (card {k. 2 ^ k \<le> n}) line\<rparr>\<rparr>" for n :: nat
  have step: "unexpected_interrupt f (st n) = Inr (st (Suc n))" if "Suc n < 2 ^ 32" for n
  proof -
    have "unat (of_nat n + 1 :: u32) = Suc n" using that by (simp add: unat_word_ariths unat_of_nat)
    then have "(of_nat n + 1 :: u32) AND of_nat n = 0 \<longleftrightarrow> (\<exists>k :: nat. Suc n = 2 ^ k)"
      using power_of_two_test [of "of_nat n + 1"] by (auto simp: unat_eq_0 [symmetric])
    then show ?thesis
      using assms(1-3,5)
      by (auto simp: st_def unexpected_interrupt_def tables_ok_def fetch_def put_def deref_def intr_printf_def
          printf_def powers_upto_Suc line_def replicate_append_same add.commute Let_def)
  qed
  have "(unexpected_cnt m)[v := 0] = unexpected_cnt m" using assms(4) by (metis list_update_id)
  then have "st 0 = m" by (simp add: st_def)
  then have "repeatE (unexpected_interrupt f) n m = Inr (st n)"
    using assms(6) step by (induction n) auto
  then show ?thesis by (simp add: line_def st_def)
qed

theorem unexpected_messages_witness:
  "\<exists>m'. repeatE (unexpected_interrupt timer_frame) 3 (pc_machine\<lparr>intr_names := replicate 256 (Some ''unknown'')\<rparr>) = Inr m' \<and>
     unexpected_cnt m' ! 0x28 = 3"
proof -
  let ?m = "pc_machine\<lparr>intr_names := replicate 256 (Some ''unknown'')\<rparr>"
  have "tables_ok ?m" using pc_machine_ok by (simp add: tables_ok_def INTR_CNT_def)
  from unexpected_messages [OF this, of timer_frame "0x28" "''unknown''" 3] show ?thesis
    by (auto simp: timer_frame_def pc_machine_def INTR_CNT_def)
qed

end
