(* ===== verification/Synch.thy ===== *)
theory Synch
  imports Interrupt
begin

text \<open>
  Semaphores, locks and condition variables: src/lib/synch.c and src/lib/synch.h.

  The state adds the fields of the structures to the machine: the value of the \<open>struct semaphore\<close>
  at an address and the holder of the \<open>struct lock\<close> at an address; their lists of waiters are list
  headers in the memory of list cells of the kernel.  A \<open>struct lock\<close> has its semaphore behind the
  holder (4 bytes), a \<open>struct semaphore_elem\<close> has its semaphore behind the list element (8 bytes).

  The parameter \<open>sd\<close> is the pair of SDK functions that \<open>thread_block\<close> uses.
\<close>

section \<open>Data\<close>

record synch =
  mach :: machine
  sema_values :: "u32 \<Rightarrow> u32 option"
  lock_holders :: "u32 \<Rightarrow> tptr option"

definition sizeof_semaphore :: u32 where
  "sizeof_semaphore = 20"

definition lock_semaphore :: "u32 \<Rightarrow> u32" where
  "lock_semaphore lock = lock + 4"

definition semaphore_of_elem :: "u32 \<Rightarrow> u32" where
  "semaphore_of_elem w = w + 8"

definition list_entry_semaphore_elem :: "laddr ptr \<Rightarrow> error + u32" where
  "list_entry_semaphore_elem e = (case e of Some (Semaphore_elem w) \<Rightarrow> Inr w | _ \<Rightarrow> Inl Fault)"

abbreviation knl :: "synch \<Rightarrow> kernel" where
  "knl s \<equiv> kern (mach s)"

definition set_knl :: "kernel \<Rightarrow> synch \<Rightarrow> synch" where
  "set_knl k s = s\<lparr>mach := (mach s)\<lparr>kern := k\<rparr>\<rparr>"

definition on_knl :: "(kernel \<Rightarrow> error + kernel) \<Rightarrow> synch \<Rightarrow> error + synch" where
  "on_knl f s = bindE (f (knl s)) (\<lambda>k. Inr (set_knl k s))"

definition load_value :: "u32 \<Rightarrow> synch \<Rightarrow> error + u32" where
  "load_value sema s = deref (sema_values s sema)"

definition store_value :: "u32 \<Rightarrow> u32 \<Rightarrow> synch \<Rightarrow> error + synch" where
  "store_value sema v s = bindE (load_value sema s) (\<lambda>_. Inr (s\<lparr>sema_values := (sema_values s)(sema \<mapsto> v)\<rparr>))"

definition load_holder :: "u32 \<Rightarrow> synch \<Rightarrow> error + tptr" where
  "load_holder lock s = deref (lock_holders s lock)"

definition store_holder :: "u32 \<Rightarrow> tptr \<Rightarrow> synch \<Rightarrow> error + synch" where
  "store_holder lock t s = bindE (load_holder lock s) (\<lambda>_. Inr (s\<lparr>lock_holders := (lock_holders s)(lock \<mapsto> t)\<rparr>))"

abbreviation sema_waiters :: "u32 \<Rightarrow> laddr clist ptr" where
  "sema_waiters sema \<equiv> Some (hdr (Sema_waiters sema))"

abbreviation cond_waiters :: "u32 \<Rightarrow> laddr clist ptr" where
  "cond_waiters cond \<equiv> Some (hdr (Cond_waiters cond))"

text \<open>\<open>enum intr_level old_level = intr_disable ()\<close> and \<open>intr_set_level (old_level)\<close>.\<close>

definition disable :: "synch \<Rightarrow> intr_level \<times> synch" where
  "disable s = (case intr_disable (mach s) of (old_level, m) \<Rightarrow> (old_level, s\<lparr>mach := m\<rparr>))"

definition restore_level :: "intr_level \<Rightarrow> synch \<Rightarrow> error + synch" where
  "restore_level level s = bindE (intr_set_level level (mach s)) (\<lambda>(_, m). Inr (s\<lparr>mach := m\<rparr>))"

text \<open>
  Storage for a structure on the stack.  Its contents are written by the \<open>init\<close> functions before
  they are read; the value 0 and the null pointers stand for whatever the stack held.
\<close>

definition stack_semaphore :: "u32 \<Rightarrow> synch \<Rightarrow> synch" where
  "stack_semaphore sema s =
     set_knl ((knl s)\<lparr>links := (links (knl s))(Head (Sema_waiters sema) \<mapsto> null_elem, Tail (Sema_waiters sema) \<mapsto> null_elem)\<rparr>)
       (s\<lparr>sema_values := (sema_values s)(sema \<mapsto> 0)\<rparr>)"

definition stack_semaphore_elem :: "u32 \<Rightarrow> synch \<Rightarrow> synch" where
  "stack_semaphore_elem w s =
     (let s = stack_semaphore (semaphore_of_elem w) s in
      set_knl ((knl s)\<lparr>links := (links (knl s))(Semaphore_elem w \<mapsto> null_elem)\<rparr>) s)"

section \<open>Semaphores\<close>

definition sema_init :: "u32 \<Rightarrow> u32 \<Rightarrow> synch \<Rightarrow> error + synch" where
  "sema_init sema val s =
     bindE (ASSERT (sema \<noteq> 0) ''sema != NULL'') (\<lambda>_.
     bindE (store_value sema val s) (\<lambda>s.
     on_knl (on_links (list_init (sema_waiters sema))) s))"

partial_function (option) sema_down_loop :: "sdk \<Rightarrow> u32 \<Rightarrow> synch \<Rightarrow> (error + synch) option" where
  "sema_down_loop sd sema s =
     bindR (Some (load_value sema s)) (\<lambda>v.
     if v = 0 then
       bindR (Some (thread_current (knl s))) (\<lambda>t.
       bindR (Some (on_knl (on_links (list_push_back (sema_waiters sema) (Some (Elem t)))) s)) (\<lambda>s.
       bindR (Some (on_knl (thread_block sd) s)) (\<lambda>s.
       sema_down_loop sd sema s)))
     else Some (Inr s))"

definition sema_down :: "sdk \<Rightarrow> u32 \<Rightarrow> synch \<Rightarrow> (error + synch) option" where
  "sema_down sd sema s =
     bindR (Some (ASSERT (sema \<noteq> 0) ''sema != NULL'')) (\<lambda>_.
     bindR (Some (ASSERT (\<not> intr_context (mach s)) ''!intr_context ()'')) (\<lambda>_.
     case disable s of (old_level, s) \<Rightarrow>
     bindR (sema_down_loop sd sema s) (\<lambda>s.
     bindR (Some (load_value sema s)) (\<lambda>v.
     bindR (Some (store_value sema (v - 1) s)) (\<lambda>s.
     Some (restore_level old_level s))))))"

definition sema_try_down :: "u32 \<Rightarrow> synch \<Rightarrow> error + (bool \<times> synch)" where
  "sema_try_down sema s =
     bindE (ASSERT (sema \<noteq> 0) ''sema != NULL'') (\<lambda>_.
     case disable s of (old_level, s) \<Rightarrow>
     bindE (load_value sema s) (\<lambda>v.
     bindE (if 0 < v then bindE (store_value sema (v - 1) s) (\<lambda>s. Inr (True, s)) else Inr (False, s)) (\<lambda>(success, s).
     bindE (restore_level old_level s) (\<lambda>s.
     Inr (success, s)))))"

definition sema_up :: "u32 \<Rightarrow> synch \<Rightarrow> error + synch" where
  "sema_up sema s =
     bindE (ASSERT (sema \<noteq> 0) ''sema != NULL'') (\<lambda>_.
     case disable s of (old_level, s) \<Rightarrow>
     bindE (list_empty (sema_waiters sema) (links (knl s))) (\<lambda>e.
     bindE
       (if \<not> e then
          bindE (list_pop_front (sema_waiters sema) (links (knl s))) (\<lambda>(front, h).
          bindE (list_entry_elem front) (\<lambda>t.
          on_knl (thread_unblock t) (set_knl ((knl s)\<lparr>links := h\<rparr>) s)))
        else Inr s) (\<lambda>s.
     bindE (load_value sema s) (\<lambda>v.
     bindE (store_value sema (v + 1) s) (\<lambda>s.
     restore_level old_level s)))))"

text \<open>\<open>for (i = 0; i < n; i++) body\<close>\<close>

fun repeatR :: "('s \<Rightarrow> (error + 's) option) \<Rightarrow> nat \<Rightarrow> 's \<Rightarrow> (error + 's) option" where
  "repeatR body 0 s = Some (Inr s)"
| "repeatR body (Suc n) s = bindR (body s) (repeatR body n)"

definition sema_test_helper :: "sdk \<Rightarrow> u32 \<Rightarrow> synch \<Rightarrow> (error + synch) option" where
  "sema_test_helper sd sema =
     repeatR (\<lambda>s. bindR (sema_down sd sema s) (\<lambda>s. Some (sema_up (sema + sizeof_semaphore) s))) 10"

text \<open>\<open>sema\<close> is the address of the local array, \<open>t\<close> the address \<open>calloc\<close> returns, \<open>helper\<close> the function.\<close>

definition sema_self_test :: "sdk \<Rightarrow> u32 \<Rightarrow> tptr \<Rightarrow> u32 \<Rightarrow> synch \<Rightarrow> (error + synch) option" where
  "sema_self_test sd sema t helper s =
     (let s1 = sema + sizeof_semaphore;
          s = stack_semaphore s1 (stack_semaphore sema s);
          s = set_knl (printf ''Testing semaphores...'' [] (knl s)) s in
      bindR (Some (sema_init sema 0 s)) (\<lambda>s.
      bindR (Some (sema_init s1 0 s)) (\<lambda>s.
      bindR (Some (thread_create sd t (StrLit ''sema-test'') helper sema 11 (knl s))) (\<lambda>(_, k).
      bindR (repeatR (\<lambda>s. bindR (Some (sema_up sema s)) (\<lambda>s. sema_down sd s1 s)) 10 (set_knl k s)) (\<lambda>s.
      Some (Inr (set_knl (printf ''done.\<newline>'' [] (knl s)) s)))))))"

section \<open>Locks\<close>

definition lock_init :: "u32 \<Rightarrow> synch \<Rightarrow> error + synch" where
  "lock_init lock s =
     bindE (ASSERT (lock \<noteq> 0) ''lock != NULL'') (\<lambda>_.
     bindE (store_holder lock 0 s) (\<lambda>s.
     sema_init (lock_semaphore lock) 1 s))"

definition lock_held_by_current_thread :: "u32 \<Rightarrow> synch \<Rightarrow> error + bool" where
  "lock_held_by_current_thread lock s =
     bindE (ASSERT (lock \<noteq> 0) ''lock != NULL'') (\<lambda>_.
     bindE (load_holder lock s) (\<lambda>h.
     bindE (thread_current (knl s)) (\<lambda>t.
     Inr (h = t))))"

definition lock_acquire :: "sdk \<Rightarrow> u32 \<Rightarrow> synch \<Rightarrow> (error + synch) option" where
  "lock_acquire sd lock s =
     bindR (Some (ASSERT (lock \<noteq> 0) ''lock != NULL'')) (\<lambda>_.
     bindR (Some (ASSERT (\<not> intr_context (mach s)) ''!intr_context ()'')) (\<lambda>_.
     bindR (Some (lock_held_by_current_thread lock s)) (\<lambda>c.
     bindR (Some (ASSERT (\<not> c) ''!lock_held_by_current_thread (lock)'')) (\<lambda>_.
     bindR (sema_down sd (lock_semaphore lock) s) (\<lambda>s.
     bindR (Some (thread_current (knl s))) (\<lambda>t.
     Some (store_holder lock t s)))))))"

definition lock_try_acquire :: "u32 \<Rightarrow> synch \<Rightarrow> error + (bool \<times> synch)" where
  "lock_try_acquire lock s =
     bindE (ASSERT (lock \<noteq> 0) ''lock != NULL'') (\<lambda>_.
     bindE (lock_held_by_current_thread lock s) (\<lambda>c.
     bindE (ASSERT (\<not> c) ''!lock_held_by_current_thread (lock)'') (\<lambda>_.
     bindE (sema_try_down (lock_semaphore lock) s) (\<lambda>(success, s).
     if success then
       bindE (thread_current (knl s)) (\<lambda>t.
       bindE (store_holder lock t s) (\<lambda>s.
       Inr (success, s)))
     else Inr (success, s)))))"

definition lock_release :: "u32 \<Rightarrow> synch \<Rightarrow> error + synch" where
  "lock_release lock s =
     bindE (ASSERT (lock \<noteq> 0) ''lock != NULL'') (\<lambda>_.
     bindE (lock_held_by_current_thread lock s) (\<lambda>c.
     bindE (ASSERT c ''lock_held_by_current_thread (lock)'') (\<lambda>_.
     bindE (store_holder lock 0 s) (\<lambda>s.
     sema_up (lock_semaphore lock) s))))"

section \<open>Condition variables\<close>

definition cond_init :: "u32 \<Rightarrow> synch \<Rightarrow> error + synch" where
  "cond_init cond s =
     bindE (ASSERT (cond \<noteq> 0) ''cond != NULL'') (\<lambda>_.
     on_knl (on_links (list_init (cond_waiters cond))) s)"

text \<open>\<open>w\<close> is the address of the local \<open>waiter\<close>.\<close>

definition cond_wait :: "sdk \<Rightarrow> u32 \<Rightarrow> u32 \<Rightarrow> u32 \<Rightarrow> synch \<Rightarrow> (error + synch) option" where
  "cond_wait sd w cond lock s =
     (let s = stack_semaphore_elem w s in
      bindR (Some (ASSERT (cond \<noteq> 0) ''cond != NULL'')) (\<lambda>_.
      bindR (Some (ASSERT (lock \<noteq> 0) ''lock != NULL'')) (\<lambda>_.
      bindR (Some (ASSERT (\<not> intr_context (mach s)) ''!intr_context ()'')) (\<lambda>_.
      bindR (Some (lock_held_by_current_thread lock s)) (\<lambda>c.
      bindR (Some (ASSERT c ''lock_held_by_current_thread (lock)'')) (\<lambda>_.
      bindR (Some (sema_init (semaphore_of_elem w) 0 s)) (\<lambda>s.
      bindR (Some (on_knl (on_links (list_push_back (cond_waiters cond) (Some (Semaphore_elem w)))) s)) (\<lambda>s.
      bindR (Some (lock_release lock s)) (\<lambda>s.
      bindR (sema_down sd (semaphore_of_elem w) s) (\<lambda>s.
      lock_acquire sd lock s))))))))))"

definition cond_signal :: "u32 \<Rightarrow> u32 \<Rightarrow> synch \<Rightarrow> error + synch" where
  "cond_signal cond lock s =
     bindE (ASSERT (cond \<noteq> 0) ''cond != NULL'') (\<lambda>_.
     bindE (ASSERT (lock \<noteq> 0) ''lock != NULL'') (\<lambda>_.
     bindE (ASSERT (\<not> intr_context (mach s)) ''!intr_context ()'') (\<lambda>_.
     bindE (lock_held_by_current_thread lock s) (\<lambda>c.
     bindE (ASSERT c ''lock_held_by_current_thread (lock)'') (\<lambda>_.
     bindE (list_empty (cond_waiters cond) (links (knl s))) (\<lambda>e.
     if \<not> e then
       bindE (list_pop_front (cond_waiters cond) (links (knl s))) (\<lambda>(front, h).
       bindE (list_entry_semaphore_elem front) (\<lambda>w.
       sema_up (semaphore_of_elem w) (set_knl ((knl s)\<lparr>links := h\<rparr>) s)))
     else Inr s))))))"

partial_function (option) cond_broadcast_loop :: "u32 \<Rightarrow> u32 \<Rightarrow> synch \<Rightarrow> (error + synch) option" where
  "cond_broadcast_loop cond lock s =
     bindR (Some (list_empty (cond_waiters cond) (links (knl s)))) (\<lambda>e.
     if \<not> e then bindR (Some (cond_signal cond lock s)) (\<lambda>s. cond_broadcast_loop cond lock s)
     else Some (Inr s))"

definition cond_broadcast :: "u32 \<Rightarrow> u32 \<Rightarrow> synch \<Rightarrow> (error + synch) option" where
  "cond_broadcast cond lock s =
     bindR (Some (ASSERT (cond \<noteq> 0) ''cond != NULL'')) (\<lambda>_.
     bindR (Some (ASSERT (lock \<noteq> 0) ''lock != NULL'')) (\<lambda>_.
     cond_broadcast_loop cond lock s))"

end
