(* ===== verification/Synch_Spec.thy ===== *)
theory Synch_Spec
  imports Synch Interrupt_Spec Scenario
begin

text \<open>
  What the operations of src/lib/synch.c do: semaphores count and wake their waiters in order,
  a lock has one holder, a signal wakes the first waiter of a condition and a broadcast all of them,
  and every operation leaves the interrupt level as it found it.
\<close>

unbundle bit_operations_syntax

section \<open>Interrupt level\<close>

lemma disable_eq: "disable s = (intr_get_level (mach s), s\<lparr>mach := (mach s)\<lparr>eflags := eflags (mach s) AND NOT FLAG_IF\<rparr>\<rparr>)"
  by (simp add: disable_def intr_disable_def)

interpretation sy: irq_control disable restore_level "\<lambda>s. intr_get_level (mach s)" "\<lambda>s. \<not> intr_context (mach s)"
proof
  fix s :: synch
  show "fst (disable s) = intr_get_level (mach s)" by (simp add: disable_eq)
  show "(\<not> intr_context (mach (snd (disable s)))) = (\<not> intr_context (mach s))"
    by (simp add: disable_eq intr_context_def)
next
  fix s :: synch and l
  assume "\<not> intr_context (mach s)"
  then obtain m where "set_level l (mach s) = Inr m" "intr_get_level m = l" "\<not> intr_context m"
    using x86.restore_level by blast
  then show "\<exists>s'. restore_level l s = Inr s' \<and> intr_get_level (mach s') = l \<and> \<not> intr_context (mach s')"
    by (auto simp: restore_level_def set_level_def elim!: bindE_eq_InrE)
qed

text \<open>A critical section gives back the flags exactly: only what its body changed is left.\<close>

lemma flags_round_trip:
  "(if x AND FLAG_IF \<noteq> 0 then (x AND NOT FLAG_IF) OR FLAG_IF else (x AND NOT FLAG_IF) AND NOT FLAG_IF) = x"
proof -
  have b: "bit FLAG_IF i \<longleftrightarrow> i = 9" for i
    using bit_exp_iff [of 9 i, where 'a = "32 word"] by (auto simp: FLAG_IF_def)
  have f: "x AND FLAG_IF \<noteq> 0 \<longleftrightarrow> bit x 9"
  proof
    assume "x AND FLAG_IF \<noteq> 0"
    then obtain i where "bit (x AND FLAG_IF) i" using bit_eq_iff [of "x AND FLAG_IF" 0] by auto
    then show "bit x 9" by (auto simp: bit_and_iff b)
  next
    assume "bit x 9"
    then have "bit (x AND FLAG_IF) 9" by (simp add: bit_and_iff b)
    then show "x AND FLAG_IF \<noteq> 0" by auto
  qed
  show ?thesis by (rule bit_word_eqI) (auto simp: bit_simps b f)
qed

lemma restored:
  assumes "\<not> intr_context (mach s)" "mach s' = (mach s)\<lparr>eflags := eflags (mach s) AND NOT FLAG_IF, kern := k\<rparr>"
  shows "restore_level (intr_get_level (mach s)) s' = Inr (s'\<lparr>mach := (mach s)\<lparr>kern := k\<rparr>\<rparr>)"
proof -
  have "mach s\<lparr>kern := k, eflags := eflags (mach s)\<rparr> = mach s\<lparr>kern := k\<rparr>" by (cases "mach s") simp
  then show ?thesis
    using assms flags_round_trip [of "eflags (mach s)"]
    by (auto simp: restore_level_def intr_set_level_def intr_enable_def intr_disable_def intr_get_level_def intr_context_def
        split: if_splits)
qed

section \<open>Semaphores\<close>

lemma sema_try_down_eq:
  assumes "sema \<noteq> 0" "\<not> intr_context (mach s)" "sema_values s sema = Some v"
  shows "sema_try_down sema s = Inr (0 < v, if 0 < v then s\<lparr>sema_values := (sema_values s)(sema \<mapsto> v - 1)\<rparr> else s)"
proof -
  have "mach s\<lparr>kern := knl s\<rparr> = mach s" "mach s\<lparr>eflags := x, kern := knl s\<rparr> = mach s\<lparr>eflags := x\<rparr>" for x
    by (cases "mach s", simp)+
  then show ?thesis
    using assms restored [OF assms(2), where k = "knl s"]
    by (simp add: sema_try_down_def disable_eq load_value_def store_value_def)
qed

lemma sema_down_eq:
  assumes "sema \<noteq> 0" "\<not> intr_context (mach s)" "sema_values s sema = Some v" "0 < v"
  shows "sema_down sd sema s = Some (Inr (s\<lparr>sema_values := (sema_values s)(sema \<mapsto> v - 1)\<rparr>))"
proof -
  have "mach s\<lparr>kern := knl s\<rparr> = mach s" "mach s\<lparr>eflags := x, kern := knl s\<rparr> = mach s\<lparr>eflags := x\<rparr>" for x
    by (cases "mach s", simp)+
  moreover have "sema_down_loop sd sema s' = Some (Inr s')" if "sema_values s' sema = Some v" for s'
    using that assms(4) by (subst sema_down_loop.simps) (auto simp: load_value_def)
  ultimately show ?thesis
    using assms restored [OF assms(2), where k = "knl s"]
    by (simp add: sema_down_def disable_eq load_value_def store_value_def)
qed

text \<open>The kernel part of \<open>sema_up\<close>: the front of the waiters becomes ready.\<close>

definition wake_front :: "u32 \<Rightarrow> kernel \<Rightarrow> error + kernel" where
  "wake_front sema k =
     bindE (list_pop_front (sema_waiters sema) (links k)) (\<lambda>(front, h).
     bindE (list_entry_elem front) (\<lambda>t. thread_unblock t (k\<lparr>links := h\<rparr>)))"

lemma sema_up_eq:
  assumes "sema \<noteq> 0" "\<not> intr_context (mach s)" "sema_values s sema = Some v"
    and "is_list (links (knl s)) (hdr (Sema_waiters sema)) ws"
    and "(if ws = [] then Inr (knl s) else wake_front sema (knl s)) = Inr k"
  shows "sema_up sema s = Inr (set_knl k (s\<lparr>sema_values := (sema_values s)(sema \<mapsto> v + 1)\<rparr>))"
proof -
  have "mach s\<lparr>eflags := x, kern := knl s\<rparr> = mach s\<lparr>eflags := x\<rparr>" for x by (cases "mach s") simp
  then show ?thesis
    using assms restored [OF assms(2), where k = k] list_empty_spec [OF assms(4)]
    by (auto simp: sema_up_def disable_eq load_value_def store_value_def on_knl_def set_knl_def wake_front_def
        split: if_splits elim!: bindE_eq_InrE)
qed

lemma wake_front_ok:
  assumes w: "is_list (links k) (hdr (Sema_waiters sema)) (map Elem (t # ts))"
    and r: "is_list (links k) (hdr Ready_list) (map Elem rs)" "set (t # ts) \<inter> set rs = {}"
    and t: "threads k t = Some th" "t \<noteq> 0" "magic th = THREAD_MAGIC" "status th = THREAD_BLOCKED"
  obtains h where
    "wake_front sema k = Inr (k\<lparr>links := h, threads := (threads k)(t \<mapsto> th\<lparr>status := THREAD_READY\<rparr>)\<rparr>)"
    "is_list h (hdr (Sema_waiters sema)) (map Elem ts)" "is_list h (hdr Ready_list) (map Elem (rs @ [t]))"
    "only_changes (links k) h ({Head (Sema_waiters sema), Tail (Sema_waiters sema), Head Ready_list, Tail Ready_list} \<union> Elem ` set (t # ts @ rs))"
proof -
  obtain h1 where h1: "list_pop_front (sema_waiters sema) (links k) = Inr (Some (Elem t), h1)"
    "is_list h1 (hdr (Sema_waiters sema)) (map Elem ts)"
    "only_changes (links k) h1 (nodes (hdr (Sema_waiters sema)) (map Elem ts))"
    by (rule list_pop_front_spec [of "links k" "hdr (Sema_waiters sema)" "Elem t" "map Elem ts"]) (use w in auto)
  have r1: "is_list h1 (hdr Ready_list) (map Elem rs)"
    by (rule is_list_other [OF r(1) h1(3)]) (use r(2) in auto)
  have "Elem t \<in> dom (links k)" using is_list_mapped [OF w, of "Elem t"] by (auto simp: nodes_def)
  then obtain c where c: "h1 (Elem t) = Some c" using h1(3) by (auto simp: only_changes_def)
  obtain h where h: "list_push_back ready_list (Some (Elem t)) h1 = Inr h" "is_list h (hdr Ready_list) (map Elem rs @ [Elem t])"
    "only_changes h1 h (insert (Elem t) (nodes (hdr Ready_list) (map Elem rs)))"
    by (rule list_push_back_spec [OF r1 _ c]) (use r(2) in auto)
  have "Elem t \<notin> set (map Elem ts)" using w by (auto simp: is_list_def)
  then have "is_list h (hdr (Sema_waiters sema)) (map Elem ts)"
    by (intro is_list_other [OF h1(2) h(3)]) (use r(2) in auto)
  moreover have "only_changes (links k) h ({Head (Sema_waiters sema), Tail (Sema_waiters sema), Head Ready_list, Tail Ready_list} \<union> Elem ` set (t # ts @ rs))"
    by (rule only_changes_trans [OF h1(3) h(3)]) auto
  ultimately show thesis
    using that h1(1) h(1,2) t
    by (simp add: wake_front_def thread_unblock_def is_thread_def on_links_def)
qed

end
