(* ===== verification/Synch_Block.thy ===== *)
theory Synch_Block
  imports Synch_Spec
begin

text \<open>
  Waiting on a semaphore (src/lib/synch.c).  \<open>thread_block\<close> returns to its caller, with another
  current thread, so that the loop of \<open>sema_down\<close> goes on: it puts one ready thread after the other
  on the list of waiters, then the idle thread again and again, and never ends.
\<close>

section \<open>One turn of the loop\<close>

text \<open>Inserting at the end of a list that need not be well-formed, even of an element already there.\<close>

lemma push_at_tail:
  assumes "h b = Some cb" "prev cb = Some p" "next cb = None" "h p = Some cp" "h e = Some ce" "e \<noteq> b" "p \<noteq> b"
  shows "\<exists>h'. list_insert (Some b) (Some e) h = Inr h' \<and> only_changes h h' {e, p, b} \<and> h' b = Some (cb\<lparr>prev := Some e\<rparr>)"
  using assms
  by (cases "e = p") (auto simp: list_insert_def mem_simps only_changes_def split: if_splits)

lemma sim_links:
  assumes "sim s a D" "only_changes (links s) h S"
    and "S \<inter> {Head Ready_list, Tail Ready_list, Head Lista_espera, Tail Lista_espera, Head All_list, Tail All_list} = {}"
    and "S \<inter> Elem ` (set (a_ready a) \<union> set (a_sleeping a)) = {}" "S \<inter> range AllElem = {}"
  shows "sim (s\<lparr>links := h\<rparr>) a D"
proof -
  note L = simD(1) [OF assms(1)]
  have "is_list h (hdr Ready_list) (map Elem (a_ready a))"
    by (rule is_list_other [OF lists_okD(1) [OF L] assms(2)]) (use assms(3,4) in auto)
  moreover have "is_list h (hdr Lista_espera) (map Elem (a_sleeping a))"
    by (rule is_list_other [OF lists_okD(2) [OF L] assms(2)]) (use assms(3,4) in auto)
  moreover have "is_list h (hdr All_list) (map AllElem (a_all a))"
    by (rule is_list_other [OF lists_okD(3) [OF L] assms(2)]) (use assms(3,5) in auto)
  moreover have "dom h = dom (links s)" using assms(2) by (simp add: only_changes_def)
  ultimately show ?thesis using assms(1) by (simp add: sim_def lists_ok_def)
qed

text \<open>\<open>thread_block\<close> changes list cells of the ready list only.\<close>

lemma next_thread_links:
  assumes "sim s a D" "next_thread_to_run s = Inr (n, s')"
  shows "only_changes (links s) (links s') (nodes (hdr Ready_list) (map Elem (a_ready a)))"
proof (cases "a_ready a")
  case Nil
  then show ?thesis
    using assms lists_ok_list_empty [OF simD(1) [OF assms(1)]] by (simp add: next_thread_to_run_def)
next
  case (Cons t ts)
  have "is_list (links s) (hdr Ready_list) (Elem t # map Elem ts)"
    using lists_okD(1) [OF simD(1) [OF assms(1)]] Cons by simp
  then obtain h where "list_pop_front ready_list (links s) = Inr (Some (Elem t), h)"
    "only_changes (links s) h (nodes (hdr Ready_list) (map Elem ts))"
    by (rule list_pop_front_spec)
  then have "links s' = h" "only_changes (links s) h (nodes (hdr Ready_list) (map Elem (a_ready a)))"
    using assms(2) lists_ok_list_empty [OF simD(1) [OF assms(1)]] Cons
    by (auto simp: next_thread_to_run_def intro: only_changes_mono)
  then show ?thesis by simp
qed

lemma schedule_links:
  assumes "schedule s = Inr s'" "next_thread_to_run s = Inr (n, s1)" "threads s (thread_running_var s) = Some th"
    and "status th \<noteq> THREAD_DYING" "threads s1 = threads s"
  shows "links s' = links s1"
  using assms
  by (auto simp: schedule_def thread_schedule_tail_def switch_threads_c_def set_thread_running_def update_thread_def
      load_thread_def running_thread_def Let_def elim!: bindE_eq_InrE split: if_splits)

lemma thread_current_InrD:
  assumes "thread_current s = Inr t"
  shows "t = thread_running_var s \<and> t \<noteq> 0 \<and> (\<exists>th. threads s t = Some th \<and> magic th = THREAD_MAGIC \<and> status th = THREAD_RUNNING)"
  using assms
  by (auto simp: thread_current_def is_thread_def load_thread_def deref_def running_thread_def ASSERT_def Let_def
      elim!: bindE_eq_InrE split: if_splits option.splits)

lemma thread_block_links:
  assumes "sim s a D" "thread_block sd s = Inr s'"
  shows "only_changes (links s) (links s') (nodes (hdr Ready_list) (map Elem (a_ready a)))"
proof -
  obtain old m where sv: "save_and_disable_interrupts sd (irq s) = (old, m)" by force
  obtain t where tc: "thread_current (s\<lparr>irq := m\<rparr>) = Inr t"
    using assms(2) sv by (auto simp: thread_block_def intr_save_def elim!: bindE_eq_InrE)
  obtain th where t: "threads s t = Some th" "t = thread_running_var s"
    using thread_current_InrD [OF tc] by auto
  define s2 where "s2 = s\<lparr>irq := m, threads := (threads s)(t \<mapsto> th\<lparr>status := THREAD_BLOCKED\<rparr>)\<rparr>"
  have ct: "a_cur a = t" using simD(2) [OF assms(1)] t(2) by simp
  have "t \<in> D" using t(1) lists_okD(4) [OF simD(1) [OF assms(1)]] by auto
  with t(1) ct have sim2: "sim s2 a D"
    unfolding s2_def using sim_cur_status [of "s\<lparr>irq := m\<rparr>" a D th THREAD_BLOCKED] assms(1) by simp
  obtain s3 where s3: "schedule s2 = Inr s3" "s' = intr_restore sd old s3"
    using assms(2) sv tc t by (auto simp: thread_block_def intr_save_def update_thread_def load_thread_def s2_def
        elim!: bindE_eq_InrE split: if_splits)
  obtain h where h: "next_thread_to_run s2 = Inr (hd (a_ready a @ [a_idle a]), s2\<lparr>links := h\<rparr>)"
    by (rule sim_next [OF sim2])
  have "links s3 = h" using schedule_links [OF s3(1) h] t(2) by (simp add: s2_def)
  then show ?thesis using next_thread_links [OF sim2 h] s3(2) by (simp add: intr_restore_def s2_def)
qed

section \<open>The loop\<close>

text \<open>
  What holds before every turn: the value is 0, the scheduler's lists are intact, the current thread
  runs and is on none of them, and the last waiter is the list header or a thread that is on none.
\<close>

definition stuck :: "u32 \<Rightarrow> tptr set \<Rightarrow> sched \<Rightarrow> synch \<Rightarrow> bool" where
  "stuck sema D a s \<longleftrightarrow>
     sema_values s sema = Some 0 \<and> sim (knl s) a D \<and> cur_status (knl s) = Some THREAD_RUNNING \<and>
     a_cur a \<in> D \<and> a_cur a \<notin> set (a_ready a) \<and> a_cur a \<notin> set (a_sleeping a) \<and> a_idle a \<in> D \<and> a_idle a \<notin> set (a_sleeping a) \<and>
     (\<exists>c p. links (knl s) (Tail (Sema_waiters sema)) = Some c \<and> prev c = Some p \<and> next c = None \<and> p \<in> dom (links (knl s)) \<and>
        (p = Head (Sema_waiters sema) \<or> (\<exists>t. p = Elem t \<and> t \<notin> set (a_ready a) \<and> t \<notin> set (a_sleeping a))))"

lemma stuck_step:
  assumes "stuck sema D a s"
  obtains t s1 s2 where "thread_current (knl s) = Inr t"
    "on_knl (on_links (list_push_back (sema_waiters sema) (Some (Elem t)))) s = Inr s1"
    "on_knl (thread_block sd) s1 = Inr s2" "stuck sema D (a_dispatch a) s2"
proof -
  note st = assms [unfolded stuck_def]
  have sim: "sim (knl s) a D" and cu: "a_cur a \<in> D" "a_cur a \<notin> set (a_ready a)" "a_cur a \<notin> set (a_sleeping a)"
    and id: "a_idle a \<in> D" "a_idle a \<notin> set (a_sleeping a)" using st by simp_all
  note L = simD(1) [OF sim]
  obtain c p where c: "links (knl s) (Tail (Sema_waiters sema)) = Some c" "prev c = Some p" "next c = None" "p \<in> dom (links (knl s))"
    "p = Head (Sema_waiters sema) \<or> (\<exists>t. p = Elem t \<and> t \<notin> set (a_ready a) \<and> t \<notin> set (a_sleeping a))"
    using st by auto
  obtain th where th: "threads (knl s) (a_cur a) = Some th" "a_cur a \<noteq> 0" "magic th = THREAD_MAGIC"
    using sim_thread [OF sim cu(1)] by metis
  have run: "status th = THREAD_RUNNING" using st th(1) simD(2) [OF sim] by (simp add: cur_status_def)
  have t: "thread_current (knl s) = Inr (a_cur a)"
    using th run simD(2) [OF sim] by (simp add: thread_current_def running_thread_def is_thread_def)
  obtain ce where ce: "links (knl s) (Elem (a_cur a)) = Some ce" using lists_okD(10) [OF L cu(1)] by auto
  obtain h where h: "list_insert (Some (Tail (Sema_waiters sema))) (Some (Elem (a_cur a))) (links (knl s)) = Inr h"
    "only_changes (links (knl s)) h {Elem (a_cur a), p, Tail (Sema_waiters sema)}"
    "h (Tail (Sema_waiters sema)) = Some (c\<lparr>prev := Some (Elem (a_cur a))\<rparr>)"
    using push_at_tail [of "links (knl s)" _ c p _ "Elem (a_cur a)", OF c(1-3) _ ce] c(4,5) by force
  define k1 where "k1 = (knl s)\<lparr>links := h\<rparr>"
  have push: "on_knl (on_links (list_push_back (sema_waiters sema) (Some (Elem (a_cur a))))) s = Inr (set_knl k1 s)"
    using h(1) by (simp add: on_knl_def on_links_def list_push_back_def list_end_def k1_def)
  have sim1: "sim k1 a D" unfolding k1_def
    by (rule sim_links [OF sim h(2)]) (use c(5) cu(2,3) in auto)
  have nx: "hd (a_ready a @ [a_idle a]) \<in> D" using id(1) lists_okD(6) [OF L] by (cases "a_ready a") auto
  obtain k2 where k2: "thread_block sd k1 = Inr k2" "sim k2 (a_dispatch a) D" "cur_status k2 = Some THREAD_RUNNING"
    by (rule thread_block_sim [OF sim1, where th = th and sd = sd]) (use th run cu nx in \<open>auto simp: k1_def\<close>)
  have o: "only_changes h (links k2) (nodes (hdr Ready_list) (map Elem (a_ready a)))"
    using thread_block_links [OF sim1 k2(1)] by (simp add: k1_def)
  have "links k2 (Tail (Sema_waiters sema)) = Some (c\<lparr>prev := Some (Elem (a_cur a))\<rparr>)"
    using only_changes_outside [OF o, of "Tail (Sema_waiters sema)"] h(3) by auto
  moreover have "Elem (a_cur a) \<in> dom (links k2)" using o h(2) ce by (auto simp: only_changes_def)
  moreover have "distinct (a_ready a)" using lists_okD(1) [OF L] is_list_distinct_map by blast
  moreover have "set (a_ready a) \<inter> set (a_sleeping a) = {}" by (rule lists_okD(9) [OF L])
  moreover have "a_cur (a_dispatch a) = hd (a_ready a @ [a_idle a])" "a_ready (a_dispatch a) = tl (a_ready a)"
    "a_sleeping (a_dispatch a) = a_sleeping a" "a_idle (a_dispatch a) = a_idle a"
    by (simp_all add: a_dispatch_alt)
  ultimately have "stuck sema D (a_dispatch a) (set_knl k2 (set_knl k1 s))"
    using st k2(2,3) nx c(3) cu id
    by (cases "a_ready a") (auto simp: stuck_def set_knl_def)
  moreover have "on_knl (thread_block sd) (set_knl k1 s) = Inr (set_knl k2 (set_knl k1 s))"
    using k2(1) by (simp add: on_knl_def set_knl_def)
  ultimately show thesis using that t push by blast
qed

lemma stuck_forever: "stuck sema D a s \<Longrightarrow> sema_down_loop sd sema s = None"
proof (rule ccontr)
  assume st: "stuck sema D a s" and "sema_down_loop sd sema s \<noteq> None"
  then obtain r where "sema_down_loop sd sema s = Some r" by blast
  then have "\<forall>a. \<not> stuck sema D a s"
  proof (rule sema_down_loop.raw_induct [rotated, where P = "\<lambda>sd sema s r. \<forall>a. \<not> stuck sema D a s"])
    fix f sd sema s and r :: "error + synch"
    assume IH: "\<And>sd sema s r. f sd sema s = Some r \<Longrightarrow> \<forall>a. \<not> stuck sema D a s"
      and r: "bindR (Some (load_value sema s)) (\<lambda>v.
        if v = 0 then
          bindR (Some (thread_current (knl s))) (\<lambda>t.
          bindR (Some (on_knl (on_links (list_push_back (sema_waiters sema) (Some (Elem t)))) s)) (\<lambda>s.
          bindR (Some (on_knl (thread_block sd) s)) (f sd sema)))
        else Some (Inr s)) = Some r"
    show "\<forall>a. \<not> stuck sema D a s"
    proof (intro allI notI)
      fix a assume st: "stuck sema D a s"
      then obtain t s1 s2 where x: "thread_current (knl s) = Inr t"
        "on_knl (on_links (list_push_back (sema_waiters sema) (Some (Elem t)))) s = Inr s1"
        "on_knl (thread_block sd) s1 = Inr s2" "stuck sema D (a_dispatch a) s2"
        by (rule stuck_step)
      have "sema_values s sema = Some 0" using st by (simp add: stuck_def)
      then have "f sd sema s2 = Some r" using r x by (simp add: load_value_def)
      from IH [OF this] x(4) show False by blast
    qed
  qed
  with st show False by blast
qed

end
