(* ===== verification/Synch_Props.thy ===== *)
theory Synch_Props
  imports Synch_Block
begin

unbundle bit_operations_syntax

text \<open>
  The properties of src/lib/synch.c: counting and waking, mutual exclusion, and waiting.
\<close>

section \<open>A state for the examples\<close>

text \<open>
  One thread runs and another is blocked on the semaphore at 0x30000000; the lock at 0x30000100 is
  free and nobody waits for it.
\<close>

definition demo_thread :: "thread_status \<Rightarrow> thread" where
  "demo_thread st = zero_thread\<lparr>status := st, magic := THREAD_MAGIC\<rparr>"

definition demo_links :: "laddr heap" where
  "demo_links = [
     Head (Sema_waiters 0x30000000) \<mapsto> \<lparr>prev = None, next = Some (Elem 0x20004000)\<rparr>,
     Elem 0x20004000 \<mapsto> \<lparr>prev = Some (Head (Sema_waiters 0x30000000)), next = Some (Tail (Sema_waiters 0x30000000))\<rparr>,
     Tail (Sema_waiters 0x30000000) \<mapsto> \<lparr>prev = Some (Elem 0x20004000), next = None\<rparr>,
     Head Ready_list \<mapsto> \<lparr>prev = None, next = Some (Tail Ready_list)\<rparr>,
     Tail Ready_list \<mapsto> \<lparr>prev = Some (Head Ready_list), next = None\<rparr>,
     Head (Sema_waiters 0x30000104) \<mapsto> \<lparr>prev = None, next = Some (Tail (Sema_waiters 0x30000104))\<rparr>,
     Tail (Sema_waiters 0x30000104) \<mapsto> \<lparr>prev = Some (Head (Sema_waiters 0x30000104)), next = None\<rparr>]"

definition demo_kernel :: kernel where
  "demo_kernel = reset\<lparr>links := demo_links, thread_running_var := 0x20003000,
     threads := [0x20003000 \<mapsto> demo_thread THREAD_RUNNING, 0x20004000 \<mapsto> demo_thread THREAD_BLOCKED]\<rparr>"

definition demo :: synch where
  "demo = \<lparr>mach = pc_machine\<lparr>kern := demo_kernel\<rparr>, sema_values = [0x30000000 \<mapsto> 0, 0x30000104 \<mapsto> 1],
     lock_holders = [0x30000100 \<mapsto> 0]\<rparr>"

lemma demo_simps [simp]:
  "knl demo = demo_kernel" "\<not> intr_context (mach demo)" "sema_values demo = [0x30000000 \<mapsto> 0, 0x30000104 \<mapsto> 1]"
  "lock_holders demo = [0x30000100 \<mapsto> 0]" "links demo_kernel = demo_links"
  "threads demo_kernel = [0x20003000 \<mapsto> demo_thread THREAD_RUNNING, 0x20004000 \<mapsto> demo_thread THREAD_BLOCKED]"
  "thread_running_var demo_kernel = 0x20003000"
  "status (demo_thread st) = st" "magic (demo_thread st) = THREAD_MAGIC"
  by (simp_all add: demo_def demo_kernel_def intr_context_def pc_machine_def demo_thread_def)

lemma demo_lists:
  "is_list demo_links (hdr (Sema_waiters 0x30000000)) (map Elem [0x20004000])"
  "is_list demo_links (hdr (Sema_waiters 0x30000104)) (map Elem [])"
  "is_list demo_links (hdr Ready_list) (map Elem [])"
  by (simp_all add: is_list_def demo_links_def nxt_def prv_def)

section \<open>Counting\<close>

text \<open>A semaphore counts: \<open>sema_try_down\<close> decrements a positive value and reports success, and fails on 0;
  \<open>sema_down\<close> on a positive value returns having decremented it.  Nothing else changes, and the
  processor flags are as before.\<close>

theorem sema_counts:
  assumes "sema \<noteq> 0" "\<not> intr_context (mach s)" "sema_values s sema = Some v"
  shows "sema_try_down sema s = Inr (if v = 0 then (False, s) else (True, s\<lparr>sema_values := (sema_values s)(sema \<mapsto> v - 1)\<rparr>)) \<and>
    (v \<noteq> 0 \<longrightarrow> sema_down sd sema s = Some (Inr (s\<lparr>sema_values := (sema_values s)(sema \<mapsto> v - 1)\<rparr>)))"
  using sema_try_down_eq [OF assms] sema_down_eq [OF assms, of sd] by (auto simp: word_neq_0_conv)

theorem sema_counts_witness:
  "sema_try_down 0x30000000 demo = Inr (False, demo) \<and>
     sema_down pico_sync 0x30000104 demo = Some (Inr (demo\<lparr>sema_values := [0x30000000 \<mapsto> 0, 0x30000104 \<mapsto> 0]\<rparr>))"
  using sema_counts [of "0x30000000" demo 0] sema_counts [of "0x30000104" demo 1 pico_sync] by simp

text \<open>C30: \<open>sema_up\<close> with threads waiting wakes the first of them: it leaves the list of waiters and is ready behind
  the other ready threads; with nobody waiting only the value changes.  The value grows by one, and
  the processor flags are as before.\<close>

theorem sema_up_wakes_first:
  assumes "sema \<noteq> 0" "\<not> intr_context (mach s)" "sema_values s sema = Some v"
    and "is_list (links (knl s)) (hdr (Sema_waiters sema)) (map Elem ws)"
    and "is_list (links (knl s)) (hdr Ready_list) (map Elem rs)" "set ws \<inter> set rs = {}"
    and "\<forall>t\<in>set ws. \<exists>th. threads (knl s) t = Some th \<and> t \<noteq> 0 \<and> magic th = THREAD_MAGIC \<and> status th = THREAD_BLOCKED"
  shows "\<exists>k. sema_up sema s = Inr (set_knl k (s\<lparr>sema_values := (sema_values s)(sema \<mapsto> v + 1)\<rparr>)) \<and>
    (case ws of [] \<Rightarrow> k = knl s
     | t # ts \<Rightarrow> is_list (links k) (hdr (Sema_waiters sema)) (map Elem ts) \<and>
         is_list (links k) (hdr Ready_list) (map Elem (rs @ [t])) \<and>
         map_option status (threads k t) = Some THREAD_READY \<and> thread_running_var k = thread_running_var (knl s) \<and>
         (\<forall>u. u \<noteq> t \<longrightarrow> threads k u = threads (knl s) u))"
proof (cases ws)
  case Nil
  then show ?thesis using sema_up_eq [OF assms(1-4), of "knl s"] by auto
next
  case (Cons t ts)
  obtain th where th: "threads (knl s) t = Some th" "t \<noteq> 0" "magic th = THREAD_MAGIC" "status th = THREAD_BLOCKED"
    using assms(7) Cons by auto
  obtain h where h: "wake_front sema (knl s) =
      Inr ((knl s)\<lparr>links := h, threads := (threads (knl s))(t \<mapsto> th\<lparr>status := THREAD_READY\<rparr>)\<rparr>)"
    "is_list h (hdr (Sema_waiters sema)) (map Elem ts)" "is_list h (hdr Ready_list) (map Elem (rs @ [t]))"
    by (rule wake_front_ok [OF _ assms(5) _ th, of sema ts]) (use assms(4,6) Cons in auto)
  have "sema_up sema s = Inr (set_knl ((knl s)\<lparr>links := h, threads := (threads (knl s))(t \<mapsto> th\<lparr>status := THREAD_READY\<rparr>)\<rparr>)
      (s\<lparr>sema_values := (sema_values s)(sema \<mapsto> v + 1)\<rparr>))"
    by (rule sema_up_eq [OF assms(1-4)]) (use h(1) Cons in simp)
  with h(2,3) Cons show ?thesis by auto
qed

theorem sema_up_wakes_first_witness:
  "\<exists>s k. sema_up 0x30000000 demo = Inr s \<and> k = knl s \<and> sema_values s 0x30000000 = Some 1 \<and>
     is_list (links k) (hdr Ready_list) (map Elem [0x20004000]) \<and> map_option status (threads k 0x20004000) = Some THREAD_READY"
proof -
  obtain k where "sema_up 0x30000000 demo = Inr (set_knl k (demo\<lparr>sema_values := (sema_values demo)(0x30000000 \<mapsto> 0 + 1)\<rparr>))"
    "is_list (links k) (hdr Ready_list) (map Elem ([] @ [0x20004000]))"
    "map_option status (threads k 0x20004000) = Some THREAD_READY"
    using sema_up_wakes_first [of "0x30000000" demo 0 "[0x20004000]" "[]"] demo_lists by auto
  then show ?thesis by (auto simp: set_knl_def)
qed

section \<open>Mutual exclusion\<close>

text \<open>A lock: free with the value 1, or held with the value 0.\<close>

definition lock_ok :: "u32 \<Rightarrow> tptr \<Rightarrow> synch \<Rightarrow> bool" where
  "lock_ok lock h s \<longleftrightarrow> lock \<noteq> 0 \<and> lock_semaphore lock \<noteq> 0 \<and> lock_holders s lock = Some h \<and>
     sema_values s (lock_semaphore lock) = Some (if h = 0 then 1 else 0)"

text \<open>C31: At most one thread holds a lock: \<open>lock_try_acquire\<close> takes a free lock for the calling thread, fails on a
  lock of another thread without changing anything, and panics on one the thread has already;
  \<open>lock_release\<close> by any thread but the holder panics.\<close>

theorem lock_exclusive:
  assumes "lock_ok lock h s" "\<not> intr_context (mach s)" "thread_current (knl s) = Inr t"
  shows "(if h = t then lock_try_acquire lock s = Inl (Panic ''!lock_held_by_current_thread (lock)'')
      else if h = 0 then \<exists>s'. lock_try_acquire lock s = Inr (True, s') \<and> lock_ok lock t s' \<and> mach s' = mach s
      else lock_try_acquire lock s = Inr (False, s)) \<and>
    (h \<noteq> t \<longrightarrow> lock_release lock s = Inl (Panic ''lock_held_by_current_thread (lock)''))"
proof -
  have t: "t \<noteq> 0" using thread_current_InrD [OF assms(3)] by blast
  have l: "lock \<noteq> 0" "lock_holders s lock = Some h" "lock_semaphore lock \<noteq> 0"
    "sema_values s (lock_semaphore lock) = Some (if h = 0 then 1 else 0)"
    using assms(1) by (simp_all add: lock_ok_def)
  show ?thesis
    using l t assms(3) sema_try_down_eq [OF l(3) assms(2) l(4)]
    by (auto simp: lock_try_acquire_def lock_release_def lock_held_by_current_thread_def load_holder_def store_holder_def
        lock_ok_def)
qed

lemma demo_current: "thread_current demo_kernel = Inr 0x20003000"
  by (simp add: thread_current_def running_thread_def is_thread_def)

lemma demo_lock: "lock_ok 0x30000100 0 demo"
  by (simp add: lock_ok_def lock_semaphore_def)

theorem lock_exclusive_witness:
  "\<exists>s'. lock_try_acquire 0x30000100 demo = Inr (True, s') \<and> lock_ok 0x30000100 0x20003000 s' \<and>
     lock_release 0x30000100 demo = Inl (Panic ''lock_held_by_current_thread (lock)'')"
  using lock_exclusive [OF demo_lock, of "0x20003000"] demo_current by auto

text \<open>Acquiring a free lock that nobody waits for returns with the calling thread as its holder, and releasing
  it again gives back the state as it was before.\<close>

theorem lock_round_trip:
  assumes "lock_ok lock 0 s" "\<not> intr_context (mach s)" "thread_current (knl s) = Inr t"
    and "is_list (links (knl s)) (hdr (Sema_waiters (lock_semaphore lock))) []"
  shows "\<exists>s1. lock_acquire sd lock s = Some (Inr s1) \<and> lock_ok lock t s1 \<and> mach s1 = mach s \<and>
    lock_acquire sd lock s1 = Some (Inl (Panic ''!lock_held_by_current_thread (lock)'')) \<and> lock_release lock s1 = Inr s"
proof -
  have t: "t \<noteq> 0" using thread_current_InrD [OF assms(3)] by blast
  have l: "lock \<noteq> 0" "lock_holders s lock = Some 0" "lock_semaphore lock \<noteq> 0"
    "sema_values s (lock_semaphore lock) = Some 1"
    using assms(1) by (simp_all add: lock_ok_def)
  define s1 where "s1 = s\<lparr>sema_values := (sema_values s)(lock_semaphore lock \<mapsto> 0), lock_holders := (lock_holders s)(lock \<mapsto> t)\<rparr>"
  have "lock_acquire sd lock s = Some (Inr s1)"
    using l t assms(2,3) sema_down_eq [OF l(3) assms(2) l(4), of sd]
    by (simp add: lock_acquire_def lock_held_by_current_thread_def load_holder_def store_holder_def s1_def)
  moreover have "lock_ok lock t s1" using l t by (simp add: lock_ok_def s1_def)
  moreover have "lock_acquire sd lock s1 = Some (Inl (Panic ''!lock_held_by_current_thread (lock)''))"
    using l assms(2,3) by (simp add: lock_acquire_def lock_held_by_current_thread_def load_holder_def s1_def)
  moreover have "lock_release lock s1 = Inr s"
  proof -
    let ?s = "s\<lparr>sema_values := (sema_values s)(lock_semaphore lock \<mapsto> 0), lock_holders := (lock_holders s)(lock \<mapsto> 0)\<rparr>"
    have "lock_release lock s1 = sema_up (lock_semaphore lock) ?s"
      using l assms(3)
      by (simp add: lock_release_def lock_held_by_current_thread_def load_holder_def store_holder_def s1_def)
    also have "\<dots> = Inr (set_knl (knl s) (?s\<lparr>sema_values := (sema_values ?s)(lock_semaphore lock \<mapsto> 0 + 1)\<rparr>))"
      by (rule sema_up_eq [OF l(3), where ws = "[]"]) (use assms(2,4) in simp_all)
    also have "set_knl (knl s) (?s\<lparr>sema_values := (sema_values ?s)(lock_semaphore lock \<mapsto> 0 + 1)\<rparr>) = s"
      using l by (cases s; cases "mach s") (auto simp: set_knl_def fun_upd_idem)
    finally show ?thesis .
  qed
  ultimately show ?thesis by (auto simp: s1_def)
qed

theorem lock_round_trip_witness:
  "\<exists>s1. lock_acquire pico_sync 0x30000100 demo = Some (Inr s1) \<and> lock_holders s1 0x30000100 = Some 0x20003000 \<and>
     lock_release 0x30000100 s1 = Inr demo"
proof -
  have "is_list demo_links (hdr (Sema_waiters (lock_semaphore 0x30000100))) []"
    using demo_lists(2) by (simp add: lock_semaphore_def)
  with lock_round_trip [OF demo_lock, of "0x20003000" pico_sync] demo_current show ?thesis
    by (auto simp: lock_ok_def)
qed

section \<open>Waiting\<close>

lemma refines_stuck:
  assumes "refines (knl s) a" "sema_values s sema = Some 0"
    and "is_list (links (knl s)) (hdr (Sema_waiters sema)) (map Elem ws)" "set ws \<inter> (set (a_ready a) \<union> set (a_sleeping a)) = {}"
  shows "stuck sema (set (a_all a)) a s"
proof -
  let ?h = "links (knl s)" and ?p = "last (Head (Sema_waiters sema) # map Elem ws)"
  note l = is_listD [OF assms(3)]
  have "prv ?h (Tail (Sema_waiters sema)) = Some ?p" using chain_last [OF l(1)] by simp
  then obtain c where c: "?h (Tail (Sema_waiters sema)) = Some c" "prev c = Some ?p" by (auto dest: prv_SomeD)
  have "next c = None" using assms(3) c(1) by (simp add: is_list_def nxt_def)
  moreover have "?p \<in> dom ?h"
    using is_list_mapped [OF assms(3), of ?p] last_in_Cons [of "Head (Sema_waiters sema)" "map Elem ws"] by auto
  moreover have "?p = Head (Sema_waiters sema) \<or> (\<exists>t. ?p = Elem t \<and> t \<notin> set (a_ready a) \<and> t \<notin> set (a_sleeping a))"
    using assms(4) by (cases ws rule: rev_cases) auto
  ultimately show ?thesis
    using refinesD [OF assms(1)] assms(2) c by (auto simp: stuck_def sched_wf_def)
qed

text \<open>C33: Waiting does not work: \<open>sema_down\<close> on a semaphore of value 0, whatever threads there are, never returns,
  although \<open>thread_block\<close> does; the loop turns for ever with interrupts disabled.\<close>

theorem sema_down_never_returns:
  assumes "refines (knl s) a" "sema \<noteq> 0" "\<not> intr_context (mach s)" "sema_values s sema = Some 0"
    and "is_list (links (knl s)) (hdr (Sema_waiters sema)) (map Elem ws)" "set ws \<inter> (set (a_ready a) \<union> set (a_sleeping a)) = {}"
  shows "sema_down sd sema s = None"
proof -
  let ?s = "s\<lparr>mach := (mach s)\<lparr>eflags := eflags (mach s) AND NOT FLAG_IF\<rparr>\<rparr>"
  have "stuck sema (set (a_all a)) a ?s" by (rule refines_stuck [of _ _ _ ws]) (use assms in simp_all)
  from stuck_forever [OF this, of sd] assms(2,3) show ?thesis by (simp add: sema_down_def disable_eq)
qed

text \<open>
  The state of the scheduler examples with a semaphore in memory that nobody waits for.
\<close>

lemma refines_links:
  assumes "refines k a" "\<And>x. x \<notin> S \<Longrightarrow> h x = links k x" "dom (links k) \<subseteq> dom h"
    and "S \<inter> {Head Ready_list, Tail Ready_list, Head Lista_espera, Tail Lista_espera, Head All_list, Tail All_list} = {}"
    and "S \<inter> range Elem = {}" "S \<inter> range AllElem = {}"
  shows "refines (k\<lparr>links := h\<rparr>) a"
proof -
  note R = refinesD [OF assms(1)]
  note L = simD(1) [OF R(1)]
  have "is_list h (hdr Ready_list) (map Elem (a_ready a))"
    by (rule is_list_frame [OF lists_okD(1) [OF L]]) (use assms(2,4,5) in auto)
  moreover have "is_list h (hdr Lista_espera) (map Elem (a_sleeping a))"
    by (rule is_list_frame [OF lists_okD(2) [OF L]]) (use assms(2,4,5) in auto)
  moreover have "is_list h (hdr All_list) (map AllElem (a_all a))"
    by (rule is_list_frame [OF lists_okD(3) [OF L]]) (use assms(2,4,6) in auto)
  moreover have "\<forall>t\<in>set (a_all a). Elem t \<in> dom h \<and> AllElem t \<in> dom h"
    using lists_okD(10,11) [OF L] assms(3) by blast
  ultimately show ?thesis using assms(1) by (simp add: refines_def sim_def lists_ok_def)
qed

lemma semaphore_in_memory:
  fixes q :: u32
  assumes "refines k a"
  defines "h \<equiv> (links k)(Head (Sema_waiters q) \<mapsto> \<lparr>prev = None, next = Some (Tail (Sema_waiters q))\<rparr>,
    Tail (Sema_waiters q) \<mapsto> \<lparr>prev = Some (Head (Sema_waiters q)), next = None\<rparr>)"
  shows "refines (k\<lparr>links := h\<rparr>) a" "is_list h (hdr (Sema_waiters q)) []"
proof -
  show "refines (k\<lparr>links := h\<rparr>) a"
    by (rule refines_links [OF assms(1), of "{Head (Sema_waiters q), Tail (Sema_waiters q)}"]) (auto simp: h_def)
  show "is_list h (hdr (Sema_waiters q)) []" by (simp add: h_def is_list_def nxt_def prv_def)
qed

theorem sema_down_never_returns_witness:
  "\<exists>s. refines (knl s) rr_sched \<and> sema_values s 0x30000000 = Some 0 \<and> sema_down pico_sync 0x30000000 s = None"
proof -
  obtain k where k: "refines k rr_sched" using rr_scenario by blast
  note m = semaphore_in_memory [OF k, of "0x30000000"]
  define s where "s = demo\<lparr>mach := (mach demo)\<lparr>kern := k\<lparr>links := (links k)(Head (Sema_waiters 0x30000000) \<mapsto> \<lparr>prev = None, next = Some (Tail (Sema_waiters 0x30000000))\<rparr>,
    Tail (Sema_waiters 0x30000000) \<mapsto> \<lparr>prev = Some (Head (Sema_waiters 0x30000000)), next = None\<rparr>)\<rparr>\<rparr>\<rparr>"
  have "refines (knl s) rr_sched" "\<not> intr_context (mach s)" "sema_values s 0x30000000 = Some 0"
    "is_list (links (knl s)) (hdr (Sema_waiters 0x30000000)) (map Elem [])"
    using m demo_simps(2) by (simp_all add: s_def intr_context_def)
  with sema_down_never_returns [of s rr_sched "0x30000000" "[]" pico_sync] show ?thesis by auto
qed

end
