(* ===== verification/Synch_Cond.thy ===== *)
theory Synch_Cond
  imports Synch_Props
begin

text \<open>
  Condition variables (src/lib/synch.c): a signal wakes the thread that has waited longest, a
  broadcast wakes all in the order of their arrival, and \<open>cond_wait\<close> itself never returns.
\<close>

section \<open>Signals\<close>

text \<open>
  The threads waiting on a condition: each is blocked on the semaphore of its own element of the
  list of waiters.
\<close>

definition blocked :: "kernel \<Rightarrow> tptr \<Rightarrow> bool" where
  "blocked k t \<longleftrightarrow> t \<noteq> 0 \<and> (\<exists>th. threads k t = Some th \<and> magic th = THREAD_MAGIC \<and> status th = THREAD_BLOCKED)"

definition waits :: "u32 \<Rightarrow> tptr \<Rightarrow> synch \<Rightarrow> bool" where
  "waits w t s \<longleftrightarrow> semaphore_of_elem w \<noteq> 0 \<and> sema_values s (semaphore_of_elem w) = Some 0 \<and>
     is_list (links (knl s)) (hdr (Sema_waiters (semaphore_of_elem w))) (map Elem [t]) \<and> blocked (knl s) t"

definition cond_queue :: "u32 \<Rightarrow> (u32 \<times> tptr) list \<Rightarrow> tptr list \<Rightarrow> synch \<Rightarrow> bool" where
  "cond_queue cond ps rs s \<longleftrightarrow>
     is_list (links (knl s)) (hdr (Cond_waiters cond)) (map (Semaphore_elem \<circ> fst) ps) \<and>
     is_list (links (knl s)) (hdr Ready_list) (map Elem rs) \<and>
     distinct (map snd ps) \<and> snd ` set ps \<inter> set rs = {} \<and> (\<forall>(w, t)\<in>set ps. waits w t s)"

text \<open>The calling thread may signal: it holds the lock, outside of an interrupt.\<close>

definition may_signal :: "u32 \<Rightarrow> u32 \<Rightarrow> tptr \<Rightarrow> synch \<Rightarrow> bool" where
  "may_signal cond lock t s \<longleftrightarrow> cond \<noteq> 0 \<and> lock \<noteq> 0 \<and> \<not> intr_context (mach s) \<and>
     lock_holders s lock = Some t \<and> thread_current (knl s) = Inr t"

lemma sema_of_inj [simp]: "semaphore_of_elem v = semaphore_of_elem w \<longleftrightarrow> v = w"
  by (simp add: semaphore_of_elem_def)

lemma cond_queue_distinct: "cond_queue cond ps rs s \<Longrightarrow> distinct (map fst ps)"
  by (auto simp: cond_queue_def is_list_def distinct_map comp_def inj_on_def)

lemma thread_current_other:
  assumes "thread_current k = Inr u" "u \<noteq> t" "threads k' = (threads k)(t := x)" "thread_running_var k' = thread_running_var k"
  shows "thread_current k' = Inr u"
proof -
  have "u = thread_running_var k" "u \<noteq> 0" and "\<exists>th. threads k u = Some th \<and> magic th = THREAD_MAGIC \<and> status th = THREAD_RUNNING"
    using thread_current_InrD [OF assms(1)] by blast+
  then show ?thesis using assms(2-4) by (auto simp: thread_current_def running_thread_def is_thread_def)
qed

lemma pop_cond:
  assumes "is_list h (hdr (Cond_waiters cond)) (Semaphore_elem w # map (Semaphore_elem \<circ> fst) ps)"
  obtains h1 where "list_pop_front (cond_waiters cond) h = Inr (Some (Semaphore_elem w), h1)"
    "is_list h1 (hdr (Cond_waiters cond)) (map (Semaphore_elem \<circ> fst) ps)"
    "\<And>i ts. is_list h (hdr i) (map Elem ts) \<Longrightarrow> i \<noteq> Cond_waiters cond \<Longrightarrow> is_list h1 (hdr i) (map Elem ts)"
proof -
  obtain h1 where h1: "list_pop_front (cond_waiters cond) h = Inr (Some (Semaphore_elem w), h1)"
    "is_list h1 (hdr (Cond_waiters cond)) (map (Semaphore_elem \<circ> fst) ps)"
    "only_changes h h1 (nodes (hdr (Cond_waiters cond)) (map (Semaphore_elem \<circ> fst) ps))"
    by (rule list_pop_front_spec [OF assms])
  have "is_list h1 (hdr i) (map Elem ts)" if "is_list h (hdr i) (map Elem ts)" "i \<noteq> Cond_waiters cond" for i ts
    by (rule is_list_other [OF that(1) h1(3)]) (use that(2) in auto)
  with h1(1,2) that show thesis by blast
qed

text \<open>The kernel part of a signal: the thread leaves both lists of waiters and is ready; the others wait on.\<close>

lemma signal_kernel:
  assumes q: "cond_queue cond ((w, t) # ps) rs s"
  obtains h1 h2 th where "list_pop_front (cond_waiters cond) (links (knl s)) = Inr (Some (Semaphore_elem w), h1)"
    "is_list h1 (hdr (Sema_waiters (semaphore_of_elem w))) (map Elem [t])"
    "wake_front (semaphore_of_elem w) ((knl s)\<lparr>links := h1\<rparr>) =
       Inr ((knl s)\<lparr>links := h2, threads := (threads (knl s))(t \<mapsto> th)\<rparr>)"
    "status th = THREAD_READY"
    "is_list h2 (hdr (Cond_waiters cond)) (map (Semaphore_elem \<circ> fst) ps)" "is_list h2 (hdr Ready_list) (map Elem (rs @ [t]))"
    "\<And>v x. (v, x) \<in> set ps \<Longrightarrow> is_list h2 (hdr (Sema_waiters (semaphore_of_elem v))) (map Elem [x])"
proof -
  let ?q = "semaphore_of_elem w" and ?h = "links (knl s)"
  have c: "is_list ?h (hdr (Cond_waiters cond)) (Semaphore_elem w # map (Semaphore_elem \<circ> fst) ps)"
    and r: "is_list ?h (hdr Ready_list) (map Elem rs)" and d: "distinct (t # map snd ps)" "snd ` set ((w, t) # ps) \<inter> set rs = {}"
    and wt: "waits w t s" and ws: "\<And>v x. (v, x) \<in> set ps \<Longrightarrow> waits v x s" using q by (auto simp: cond_queue_def)
  have dw: "w \<notin> fst ` set ps" using cond_queue_distinct [OF q] by auto
  obtain th where th: "threads (knl s) t = Some th" "t \<noteq> 0" "magic th = THREAD_MAGIC" "status th = THREAD_BLOCKED"
    using wt by (auto simp: waits_def blocked_def)
  obtain h1 where h1: "list_pop_front (cond_waiters cond) ?h = Inr (Some (Semaphore_elem w), h1)"
    "is_list h1 (hdr (Cond_waiters cond)) (map (Semaphore_elem \<circ> fst) ps)"
    and keep: "\<And>i ts. is_list ?h (hdr i) (map Elem ts) \<Longrightarrow> i \<noteq> Cond_waiters cond \<Longrightarrow> is_list h1 (hdr i) (map Elem ts)"
    by (rule pop_cond [OF c]) blast
  have l: "is_list h1 (hdr (Sema_waiters ?q)) (map Elem [t])" "is_list h1 (hdr Ready_list) (map Elem rs)"
    using keep [of "Sema_waiters ?q" "[t]"] keep [OF r] wt by (simp_all add: waits_def)
  obtain h2 where h2: "wake_front ?q ((knl s)\<lparr>links := h1\<rparr>) =
      Inr ((knl s)\<lparr>links := h2, threads := (threads (knl s))(t \<mapsto> th\<lparr>status := THREAD_READY\<rparr>)\<rparr>)"
    "is_list h2 (hdr Ready_list) (map Elem (rs @ [t]))"
    "only_changes h1 h2 ({Head (Sema_waiters ?q), Tail (Sema_waiters ?q), Head Ready_list, Tail Ready_list} \<union> Elem ` set (t # [] @ rs))"
    by (rule wake_front_ok [of "(knl s)\<lparr>links := h1\<rparr>" ?q t "[]" rs th]) (use l d(2) th in auto)
  have "is_list h2 (hdr (Sema_waiters (semaphore_of_elem v))) (map Elem [x])" if "(v, x) \<in> set ps" for v x
  proof -
    have v: "v \<noteq> w" "x \<noteq> t" "x \<notin> set rs" using that dw d by force+
    have "is_list h1 (hdr (Sema_waiters (semaphore_of_elem v))) (map Elem [x])"
      using keep [of "Sema_waiters (semaphore_of_elem v)" "[x]"] ws [OF that] by (simp add: waits_def)
    then show ?thesis by (rule is_list_other [OF _ h2(3)]) (use v in auto)
  qed
  moreover have "is_list h2 (hdr (Cond_waiters cond)) (map (Semaphore_elem \<circ> fst) ps)"
    by (rule is_list_other [OF h1(2) h2(3)]) auto
  ultimately show thesis
    by (intro that [OF h1(1) l(1) h2(1) _ _ h2(2)]) simp_all
qed

lemma thread_current_links [simp]: "thread_current (k\<lparr>links := h\<rparr>) = thread_current k"
  by (simp add: thread_current_def is_thread_def load_thread_def running_thread_def Let_def)

lemma cond_signal_step:
  assumes q: "cond_queue cond ((w, t) # ps) rs s" and m: "may_signal cond lock u s"
  obtains s' th where "cond_signal cond lock s = Inr s'" "cond_queue cond ps (rs @ [t]) s'" "may_signal cond lock u s'"
    "sema_values s' = (sema_values s)(semaphore_of_elem w \<mapsto> 1)"
    "threads (knl s') = (threads (knl s))(t \<mapsto> th)" "status th = THREAD_READY"
proof -
  let ?q = "semaphore_of_elem w"
  obtain h1 h2 th where h1: "list_pop_front (cond_waiters cond) (links (knl s)) = Inr (Some (Semaphore_elem w), h1)"
    "is_list h1 (hdr (Sema_waiters ?q)) (map Elem [t])"
    and h2: "wake_front ?q ((knl s)\<lparr>links := h1\<rparr>) = Inr ((knl s)\<lparr>links := h2, threads := (threads (knl s))(t \<mapsto> th)\<rparr>)"
    "status th = THREAD_READY"
    "is_list h2 (hdr (Cond_waiters cond)) (map (Semaphore_elem \<circ> fst) ps)" "is_list h2 (hdr Ready_list) (map Elem (rs @ [t]))"
    "\<And>v x. (v, x) \<in> set ps \<Longrightarrow> is_list h2 (hdr (Sema_waiters (semaphore_of_elem v))) (map Elem [x])"
    by (rule signal_kernel [OF q]) blast
  have c: "is_list (links (knl s)) (hdr (Cond_waiters cond)) (Semaphore_elem w # map (Semaphore_elem \<circ> fst) ps)"
    and d: "distinct (t # map snd ps)" "snd ` set ((w, t) # ps) \<inter> set rs = {}"
    and wt: "waits w t s" and ws: "\<And>v x. (v, x) \<in> set ps \<Longrightarrow> waits v x s" using q by (auto simp: cond_queue_def)
  define s' where "s' = set_knl ((knl s)\<lparr>links := h2, threads := (threads (knl s))(t \<mapsto> th)\<rparr>)
    (s\<lparr>sema_values := (sema_values s)(?q \<mapsto> 1)\<rparr>)"
  have "sema_up ?q (set_knl ((knl s)\<lparr>links := h1\<rparr>) s) = Inr s'"
    using sema_up_eq [of ?q "set_knl ((knl s)\<lparr>links := h1\<rparr>) s" 0 "map Elem [t]"] wt m h1(2) h2(1)
    by (simp add: s'_def waits_def may_signal_def set_knl_def intr_context_def)
  then have "cond_signal cond lock s = Inr s'"
    using m h1(1) list_empty_spec [OF c]
    by (simp add: cond_signal_def may_signal_def lock_held_by_current_thread_def load_holder_def
        list_entry_semaphore_elem_def)
  moreover have "waits v x s'" if "(v, x) \<in> set ps" for v x
  proof -
    have "v \<noteq> w" "x \<noteq> t" using that cond_queue_distinct [OF q] d(1) by force+
    then show ?thesis using ws [OF that] h2(5) [OF that] by (simp add: waits_def blocked_def s'_def set_knl_def)
  qed
  then have "\<forall>(v, x)\<in>set ps. waits v x s'" by blast
  moreover have "links (knl s') = h2" by (simp add: s'_def set_knl_def)
  moreover have "snd ` set ps \<inter> set (rs @ [t]) = {}" using d by auto
  ultimately have "cond_queue cond ps (rs @ [t]) s'" using h2(3,4) d(1) by (simp add: cond_queue_def)
  moreover have "u \<noteq> t"
    using thread_current_InrD [of "knl s" u] m wt by (auto simp: may_signal_def waits_def blocked_def)
  then have "thread_current (knl s') = Inr u"
    using m thread_current_other [of "knl s" u t "knl s'" "Some th"] by (simp add: may_signal_def s'_def set_knl_def)
  then have "may_signal cond lock u s'"
    using m by (simp add: may_signal_def s'_def set_knl_def intr_context_def)
  moreover have "sema_values s' = (sema_values s)(?q \<mapsto> 1)" "threads (knl s') = (threads (knl s))(t \<mapsto> th)"
    by (simp_all add: s'_def set_knl_def)
  ultimately show thesis using that \<open>cond_signal cond lock s = Inr s'\<close> h2(2) by blast
qed

text \<open>C32: \<open>cond_broadcast\<close> by the holder of the lock ends and wakes every waiting thread: all become ready, behind the
  threads that were ready before and in the order in which they had begun to wait, each of their
  semaphores has been raised once, and nobody is left on the condition.\<close>

theorem cond_broadcast_wakes_all:
  assumes "cond_queue cond ps rs s" "may_signal cond lock u s"
  shows "\<exists>s'. cond_broadcast cond lock s = Some (Inr s') \<and> cond_queue cond [] (rs @ map snd ps) s' \<and> may_signal cond lock u s' \<and>
    (\<forall>(w, t)\<in>set ps. sema_values s' (semaphore_of_elem w) = Some 1 \<and> map_option status (threads (knl s') t) = Some THREAD_READY)"
proof -
  have "\<exists>s'. cond_broadcast_loop cond lock s = Some (Inr s') \<and> cond_queue cond [] (rs @ map snd ps) s' \<and> may_signal cond lock u s' \<and>
    (\<forall>(w, t)\<in>set ps. sema_values s' (semaphore_of_elem w) = Some 1 \<and> map_option status (threads (knl s') t) = Some THREAD_READY) \<and>
    (\<forall>v. v \<notin> (semaphore_of_elem \<circ> fst) ` set ps \<longrightarrow> sema_values s' v = sema_values s v) \<and>
    (\<forall>t. t \<notin> snd ` set ps \<longrightarrow> threads (knl s') t = threads (knl s) t)"
    using assms
  proof (induction ps arbitrary: rs s)
    case Nil
    then have "list_empty (cond_waiters cond) (links (knl s)) = Inr True"
      using list_empty_spec [of "links (knl s)" "hdr (Cond_waiters cond)" "[]"] by (simp add: cond_queue_def)
    with Nil show ?case by (subst cond_broadcast_loop.simps) simp
  next
    case (Cons p ps)
    obtain w t where p: "p = (w, t)" by (cases p)
    obtain s1 th where s1: "cond_signal cond lock s = Inr s1" "cond_queue cond ps (rs @ [t]) s1" "may_signal cond lock u s1"
      "sema_values s1 = (sema_values s)(semaphore_of_elem w \<mapsto> 1)"
      "threads (knl s1) = (threads (knl s))(t \<mapsto> th)" "status th = THREAD_READY"
      by (rule cond_signal_step [OF Cons.prems(1) [unfolded p] Cons.prems(2)])
    have "list_empty (cond_waiters cond) (links (knl s)) = Inr False"
      using list_empty_spec [of "links (knl s)" "hdr (Cond_waiters cond)"] Cons.prems(1) by (force simp: cond_queue_def)
    then have l: "cond_broadcast_loop cond lock s = cond_broadcast_loop cond lock s1"
      using s1(1) by (subst cond_broadcast_loop.simps) simp
    have n: "w \<notin> fst ` set ps" "t \<notin> snd ` set ps"
      using cond_queue_distinct [OF Cons.prems(1)] Cons.prems(1) by (auto simp: p cond_queue_def)
    from Cons.IH [OF s1(2,3)] obtain s' where s': "cond_broadcast_loop cond lock s1 = Some (Inr s')"
      "cond_queue cond [] ((rs @ [t]) @ map snd ps) s'" "may_signal cond lock u s'"
      "\<forall>(w, t)\<in>set ps. sema_values s' (semaphore_of_elem w) = Some 1 \<and> map_option status (threads (knl s') t) = Some THREAD_READY"
      "\<forall>v. v \<notin> (semaphore_of_elem \<circ> fst) ` set ps \<longrightarrow> sema_values s' v = sema_values s1 v"
      "\<forall>t. t \<notin> snd ` set ps \<longrightarrow> threads (knl s') t = threads (knl s1) t" by blast
    have "semaphore_of_elem w \<notin> (semaphore_of_elem \<circ> fst) ` set ps" using n(1) by force
    with n(2) s'(5,6) s1(4-6)
    have "sema_values s' (semaphore_of_elem w) = Some 1" "map_option status (threads (knl s') t) = Some THREAD_READY" by simp_all
    with s' s1(4,5) l show ?case by (intro exI [of _ s']) (simp add: p)
  qed
  then show ?thesis using assms(2) by (auto simp: cond_broadcast_def may_signal_def)
qed

text \<open>The example: the thread blocked in \<open>demo\<close> waits on the condition at 0x30000200, and the lock is held.\<close>

definition demo_cond :: synch where
  "demo_cond = set_knl (demo_kernel\<lparr>links := demo_links(
       Head (Cond_waiters 0x30000200) \<mapsto> \<lparr>prev = None, next = Some (Semaphore_elem 0x2ffffff8)\<rparr>,
       Semaphore_elem 0x2ffffff8 \<mapsto> \<lparr>prev = Some (Head (Cond_waiters 0x30000200)), next = Some (Tail (Cond_waiters 0x30000200))\<rparr>,
       Tail (Cond_waiters 0x30000200) \<mapsto> \<lparr>prev = Some (Semaphore_elem 0x2ffffff8), next = None\<rparr>)\<rparr>)
     (demo\<lparr>lock_holders := [0x30000100 \<mapsto> 0x20003000]\<rparr>)"

lemma demo_cond_ok:
  "cond_queue 0x30000200 [(0x2ffffff8, 0x20004000)] [] demo_cond" "may_signal 0x30000200 0x30000100 0x20003000 demo_cond"
proof -
  let ?k = "knl demo_cond"
  have l: "links ?k = demo_links(
       Head (Cond_waiters 0x30000200) \<mapsto> \<lparr>prev = None, next = Some (Semaphore_elem 0x2ffffff8)\<rparr>,
       Semaphore_elem 0x2ffffff8 \<mapsto> \<lparr>prev = Some (Head (Cond_waiters 0x30000200)), next = Some (Tail (Cond_waiters 0x30000200))\<rparr>,
       Tail (Cond_waiters 0x30000200) \<mapsto> \<lparr>prev = Some (Semaphore_elem 0x2ffffff8), next = None\<rparr>)"
    "threads ?k = threads demo_kernel" "thread_running_var ?k = thread_running_var demo_kernel"
    "sema_values demo_cond = sema_values demo" "lock_holders demo_cond = [0x30000100 \<mapsto> 0x20003000]"
    by (simp_all add: demo_cond_def set_knl_def)
  have "is_list (links ?k) (hdr Ready_list) (map Elem [])"
    by (rule is_list_frame [OF demo_lists(3)]) (auto simp: l(1))
  moreover have "is_list (links ?k) (hdr (Sema_waiters 0x30000000)) (map Elem [0x20004000])"
    by (rule is_list_frame [OF demo_lists(1)]) (auto simp: l(1))
  moreover have "is_list (links ?k) (hdr (Cond_waiters 0x30000200)) [Semaphore_elem 0x2ffffff8]"
    by (simp add: is_list_def nxt_def prv_def l(1))
  ultimately show "cond_queue 0x30000200 [(0x2ffffff8, 0x20004000)] [] demo_cond"
    by (simp add: cond_queue_def waits_def blocked_def semaphore_of_elem_def l)
  have "\<not> intr_context (mach demo_cond)" using demo_simps(2) by (simp add: demo_cond_def set_knl_def intr_context_def)
  then show "may_signal 0x30000200 0x30000100 0x20003000 demo_cond"
    by (simp add: may_signal_def thread_current_def running_thread_def is_thread_def l)
qed

theorem cond_broadcast_wakes_all_witness:
  "\<exists>s'. cond_broadcast 0x30000200 0x30000100 demo_cond = Some (Inr s') \<and>
     map_option status (threads (knl s') 0x20004000) = Some THREAD_READY \<and> cond_queue 0x30000200 [] [0x20004000] s'"
  using cond_broadcast_wakes_all [OF demo_cond_ok] by auto

section \<open>Waiting on a condition\<close>

text \<open>The first half of \<open>cond_wait\<close>: the new element is the last of the waiters and its semaphore is 0.\<close>

lemma wait_prepared:
  fixes w cond :: u32
  defines "q \<equiv> semaphore_of_elem w"
  defines "S \<equiv> {Head (Sema_waiters q), Tail (Sema_waiters q), Head (Cond_waiters cond), Tail (Cond_waiters cond)} \<union> range Semaphore_elem"
  assumes "q \<noteq> 0" "is_list (links (knl s)) (hdr (Cond_waiters cond)) (map Semaphore_elem cs)" "w \<notin> set cs"
  obtains s1 h where "sema_init q 0 (stack_semaphore_elem w s) = Inr s1"
    "on_knl (on_links (list_push_back (cond_waiters cond) (Some (Semaphore_elem w)))) s1 =
       Inr (set_knl ((knl s)\<lparr>links := h\<rparr>) (s\<lparr>sema_values := (sema_values s)(q \<mapsto> 0)\<rparr>))"
    "is_list h (hdr (Sema_waiters q)) []" "\<And>x. x \<notin> S \<Longrightarrow> h x = links (knl s) x" "dom (links (knl s)) \<subseteq> dom h"
proof -
  let ?v = "s\<lparr>sema_values := (sema_values s)(q \<mapsto> 0)\<rparr>"
  define h0 where "h0 = (links (knl s))(Head (Sema_waiters q) \<mapsto> null_elem, Tail (Sema_waiters q) \<mapsto> null_elem, Semaphore_elem w \<mapsto> null_elem)"
  have st: "stack_semaphore_elem w s = set_knl ((knl s)\<lparr>links := h0\<rparr>) ?v"
    by (simp add: stack_semaphore_elem_def stack_semaphore_def set_knl_def h0_def q_def)
  obtain h1 where h1: "list_init (sema_waiters q) h0 = Inr h1" "is_list h1 (hdr (Sema_waiters q)) []"
    "only_changes h0 h1 {Head (Sema_waiters q), Tail (Sema_waiters q)}"
    using list_init_spec [of h0 "hdr (Sema_waiters q)"] by (auto simp: h0_def)
  have i: "sema_init q 0 (stack_semaphore_elem w s) = Inr (set_knl ((knl s)\<lparr>links := h1\<rparr>) ?v)"
    using assms(3) h1(1)
    by (simp add: sema_init_def st store_value_def load_value_def on_knl_def on_links_def set_knl_def)
  have "is_list h0 (hdr (Cond_waiters cond)) (map Semaphore_elem cs)"
    by (rule is_list_frame [OF assms(4)]) (use assms(5) in \<open>auto simp: h0_def\<close>)
  then have c1: "is_list h1 (hdr (Cond_waiters cond)) (map Semaphore_elem cs)"
    by (rule is_list_other [OF _ h1(3)]) auto
  have "h1 (Semaphore_elem w) = Some null_elem" using h1(3) by (simp add: only_changes_def h0_def)
  then obtain h where h: "list_push_back (cond_waiters cond) (Some (Semaphore_elem w)) h1 = Inr h"
    "only_changes h1 h (insert (Semaphore_elem w) (nodes (hdr (Cond_waiters cond)) (map Semaphore_elem cs)))"
    using list_push_back_spec [OF c1, of "Semaphore_elem w" null_elem] assms(5) by auto
  show thesis
  proof (rule that [OF i])
    show "on_knl (on_links (list_push_back (cond_waiters cond) (Some (Semaphore_elem w)))) (set_knl ((knl s)\<lparr>links := h1\<rparr>) ?v) =
       Inr (set_knl ((knl s)\<lparr>links := h\<rparr>) ?v)"
      using h(1) by (simp add: on_knl_def on_links_def set_knl_def)
    show "is_list h (hdr (Sema_waiters q)) []" by (rule is_list_other [OF h1(2) h(2)]) auto
    show "h x = links (knl s) x" if "x \<notin> S" for x
    proof -
      have "h x = h1 x" by (rule only_changes_outside [OF h(2)]) (use that in \<open>auto simp: S_def\<close>)
      also have "\<dots> = h0 x" by (rule only_changes_outside [OF h1(3)]) (use that in \<open>auto simp: S_def\<close>)
      finally show ?thesis using that by (auto simp: h0_def S_def split: if_splits)
    qed
    have "dom h = dom h0" using h1(3) h(2) by (simp add: only_changes_def)
    then show "dom (links (knl s)) \<subseteq> dom h" by (auto simp: h0_def)
  qed
qed

text \<open>\<open>cond_wait\<close> by the holder of the lock releases the lock and then never returns, since the semaphore it waits
  on is 0.\<close>

theorem cond_wait_never_returns:
  assumes "refines (knl s) a" "lock_ok lock (a_cur a) s" "cond \<noteq> 0" "\<not> intr_context (mach s)"
    and "is_list (links (knl s)) (hdr (Sema_waiters (lock_semaphore lock))) []"
    and "is_list (links (knl s)) (hdr (Cond_waiters cond)) (map Semaphore_elem cs)" "w \<notin> set cs"
    and "semaphore_of_elem w \<noteq> 0" "semaphore_of_elem w \<noteq> lock_semaphore lock"
  shows "cond_wait sd w cond lock s = None"
proof -
  let ?q = "semaphore_of_elem w" and ?l = "lock_semaphore lock"
  let ?S = "{Head (Sema_waiters ?q), Tail (Sema_waiters ?q), Head (Cond_waiters cond), Tail (Cond_waiters cond)} \<union> range Semaphore_elem"
  obtain s1 h where s1: "sema_init ?q 0 (stack_semaphore_elem w s) = Inr s1"
    "on_knl (on_links (list_push_back (cond_waiters cond) (Some (Semaphore_elem w)))) s1 =
       Inr (set_knl ((knl s)\<lparr>links := h\<rparr>) (s\<lparr>sema_values := (sema_values s)(?q \<mapsto> 0)\<rparr>))"
    and h: "is_list h (hdr (Sema_waiters ?q)) []" "\<And>x. x \<notin> ?S \<Longrightarrow> h x = links (knl s) x" "dom (links (knl s)) \<subseteq> dom h"
    by (rule wait_prepared [OF assms(8,6,7)]) blast
  define k where "k = (knl s)\<lparr>links := h\<rparr>"
  have k: "refines k a" unfolding k_def by (rule refines_links [OF assms(1), of ?S]) (use h(2,3) in auto)
  have cur: "thread_current k = Inr (a_cur a)" "thread_current (knl s) = Inr (a_cur a)"
    using thread_current_ok [OF k] thread_current_ok [OF assms(1)] by simp_all
  have l: "is_list h (hdr (Sema_waiters ?l)) []"
  proof (rule is_list_frame [OF assms(5)])
    fix x assume "x \<in> nodes (hdr (Sema_waiters ?l)) []"
    then have "x \<notin> ?S" using assms(9) by auto
    then show "h x = links (knl s) x" by (rule h(2))
  qed
  note L = assms(2) [unfolded lock_ok_def]
  have c0: "a_cur a \<noteq> 0" using refines_cur [OF k] by blast
  define s2 where "s2 = set_knl k (s\<lparr>sema_values := (sema_values s)(?q \<mapsto> 0, ?l \<mapsto> 1), lock_holders := (lock_holders s)(lock \<mapsto> 0)\<rparr>)"
  have "lock_release lock (set_knl k (s\<lparr>sema_values := (sema_values s)(?q \<mapsto> 0)\<rparr>)) = Inr s2"
  proof -
    let ?t = "set_knl k (s\<lparr>sema_values := (sema_values s)(?q \<mapsto> 0), lock_holders := (lock_holders s)(lock \<mapsto> 0)\<rparr>)"
    have "sema_up ?l ?t = Inr (set_knl k (?t\<lparr>sema_values := (sema_values ?t)(?l \<mapsto> 0 + 1)\<rparr>))"
      by (rule sema_up_eq [where ws = "[]"])
        (use L c0 l assms(4,9) in \<open>simp_all add: set_knl_def intr_context_def k_def\<close>)
    then show ?thesis
      using L cur(1)
      by (cases s) (simp add: lock_release_def lock_held_by_current_thread_def load_holder_def store_holder_def set_knl_def s2_def)
  qed
  moreover have "sema_down sd ?q s2 = None"
    by (rule sema_down_never_returns [of _ a _ "[]"])
      (use k assms(4,8,9) h(1) in \<open>simp_all add: s2_def set_knl_def intr_context_def k_def\<close>)
  ultimately show ?thesis
    using assms(3,4) L s1 cur(2)
    by (simp add: cond_wait_def lock_held_by_current_thread_def load_holder_def k_def Let_def
        stack_semaphore_elem_def stack_semaphore_def set_knl_def intr_context_def)
qed

theorem cond_wait_never_returns_witness:
  "\<exists>s. refines (knl s) rr_sched \<and> lock_ok 0x30000100 0x20003000 s \<and> cond_wait pico_sync 0x20040f00 0x30000200 0x30000100 s = None"
proof -
  obtain k where k: "refines k rr_sched" using rr_scenario by blast
  define h where "h = (links k)(Head (Sema_waiters 0x30000104) \<mapsto> \<lparr>prev = None, next = Some (Tail (Sema_waiters 0x30000104))\<rparr>,
    Tail (Sema_waiters 0x30000104) \<mapsto> \<lparr>prev = Some (Head (Sema_waiters 0x30000104)), next = None\<rparr>)"
  define g where "g = h(Head (Cond_waiters 0x30000200) \<mapsto> \<lparr>prev = None, next = Some (Tail (Cond_waiters 0x30000200))\<rparr>,
    Tail (Cond_waiters 0x30000200) \<mapsto> \<lparr>prev = Some (Head (Cond_waiters 0x30000200)), next = None\<rparr>)"
  define s where "s = demo\<lparr>mach := (mach demo)\<lparr>kern := k\<lparr>links := g\<rparr>\<rparr>, sema_values := [0x30000104 \<mapsto> 0],
    lock_holders := [0x30000100 \<mapsto> 0x20003000]\<rparr>"
  have "refines (k\<lparr>links := h\<rparr>) rr_sched" unfolding h_def by (rule semaphore_in_memory(1) [OF k])
  then have "refines ((k\<lparr>links := h\<rparr>)\<lparr>links := g\<rparr>) rr_sched"
    by (rule refines_links [of _ _ "{Head (Cond_waiters 0x30000200), Tail (Cond_waiters 0x30000200)}"]) (auto simp: g_def)
  then have r: "refines (knl s) rr_sched" by (simp add: s_def)
  have o: "lock_ok 0x30000100 (a_cur rr_sched) s" by (simp add: s_def lock_ok_def lock_semaphore_def rr_sched_def)
  have "is_list g (hdr (Sema_waiters 0x30000104)) []" "is_list g (hdr (Cond_waiters 0x30000200)) (map Semaphore_elem [])"
    by (simp_all add: is_list_def nxt_def prv_def g_def h_def)
  then have "cond_wait pico_sync 0x20040f00 0x30000200 0x30000100 s = None"
    using demo_simps(2)
    by (intro cond_wait_never_returns [OF r o, where cs = "[]"])
      (simp_all add: s_def lock_semaphore_def semaphore_of_elem_def intr_context_def)
  with r o show ?thesis by (auto simp: rr_sched_def)
qed

end
