(* ===== verification/Debug.thy ===== *)
theory Debug
  imports Prelude
begin

text \<open>
  The debugging aids of src/lib/debug.c beyond \<open>ASSERT\<close> and \<open>PANIC\<close>: the walk over the stack
  frames.  A frame is two words of memory, the address of the frame of the caller and the return
  address; memory outside of the map is not there and reading it is a fault.
\<close>

record stack_memory =
  words :: "u32 \<Rightarrow> u32 option"
  explained :: bool                 \<comment> \<open>the static variable of \<open>debug_backtrace\<close>\<close>
  dbg_console :: "(string \<times> u32 list) list"

definition load_word :: "u32 \<Rightarrow> stack_memory \<Rightarrow> error + u32" where
  "load_word a s = (case words s a of None \<Rightarrow> Inl Fault | Some v \<Rightarrow> Inr v)"

definition dbg_printf :: "string \<Rightarrow> u32 list \<Rightarrow> stack_memory \<Rightarrow> stack_memory" where
  "dbg_printf fmt args s = s\<lparr>dbg_console := dbg_console s @ [(fmt, args)]\<rparr>"

text \<open>The loop over the frames; a cycle of frames makes it run for ever.\<close>

partial_function (option) backtrace_loop :: "u32 \<Rightarrow> stack_memory \<Rightarrow> (error + stack_memory) option" where
  "backtrace_loop frame s =
     bindR (Some (andE (Inr (0x1000 \<le> frame)) (bindE (load_word frame s) (\<lambda>v. Inr (v \<noteq> 0))))) (\<lambda>c.
     if c then
       bindR (Some (load_word (frame + 4) s)) (\<lambda>r.
       bindR (Some (load_word frame s)) (\<lambda>nxt.
       backtrace_loop nxt (dbg_printf '' %p'' [r] s)))
     else Some (Inr s))"

text \<open>\<open>ret\<close> and \<open>frame1\<close> are \<open>__builtin_return_address (0)\<close> and \<open>__builtin_frame_address (1)\<close>.\<close>

definition backtrace_hint :: string where
  "backtrace_hint = ''The `backtrace' program can make call stacks useful.\<newline>Read \"Backtraces\" in the \"Debugging Tools\" chapter\<newline>of the Pintos documentation for more information.\<newline>''"

definition debug_backtrace :: "u32 \<Rightarrow> u32 \<Rightarrow> stack_memory \<Rightarrow> (error + stack_memory) option" where
  "debug_backtrace ret frame1 s =
     bindR (backtrace_loop frame1 (dbg_printf ''Call stack: %p'' [ret] s)) (\<lambda>s.
     let s = dbg_printf ''.\<newline>'' [] s in
     Some (Inr (if \<not> explained s then dbg_printf backtrace_hint [] (s\<lparr>explained := True\<rparr>) else s)))"

section \<open>Chains of frames\<close>

text \<open>The frames with the return addresses \<open>rs\<close>, up to one whose link is null or which is below 0x1000.\<close>

fun frame_chain :: "(u32 \<Rightarrow> u32 option) \<Rightarrow> u32 \<Rightarrow> u32 list \<Rightarrow> bool" where
  "frame_chain m f [] \<longleftrightarrow> f < 0x1000 \<or> m f = Some 0"
| "frame_chain m f (r # rs) \<longleftrightarrow>
     0x1000 \<le> f \<and> m (f + 4) = Some r \<and> (\<exists>g. m f = Some g \<and> g \<noteq> 0 \<and> frame_chain m g rs)"

lemma backtrace_loop_chain:
  "frame_chain (words s) f rs \<Longrightarrow>
   backtrace_loop f s = Some (Inr (s\<lparr>dbg_console := dbg_console s @ map (\<lambda>r. ('' %p'', [r])) rs\<rparr>))"
proof (induction rs arbitrary: f s)
  case Nil
  then show ?case by (subst backtrace_loop.simps) (auto simp: load_word_def not_le [symmetric])
next
  case (Cons r rs)
  then obtain g where g: "words s f = Some g" "g \<noteq> 0" "frame_chain (words s) g rs" by auto
  then show ?case
    using Cons by (subst backtrace_loop.simps) (simp add: load_word_def dbg_printf_def)
qed

text \<open>On a stack whose frames form a chain \<open>debug_backtrace\<close> ends and prints the return addresses from the
  innermost frame outwards, and explains itself the first time only.\<close>

theorem backtrace_prints_chain:
  assumes "frame_chain (words s) f rs"
  shows "debug_backtrace ret f s = Some (Inr (s\<lparr>explained := True,
    dbg_console := dbg_console s @ (''Call stack: %p'', [ret]) # map (\<lambda>r. ('' %p'', [r])) rs @ (''.\<newline>'', []) #
      (if explained s then [] else [(backtrace_hint, [])])\<rparr>))"
proof -
  have "backtrace_loop f (dbg_printf ''Call stack: %p'' [ret] s) =
    Some (Inr (s\<lparr>dbg_console := dbg_console s @ (''Call stack: %p'', [ret]) # map (\<lambda>r. ('' %p'', [r])) rs\<rparr>))"
    using backtrace_loop_chain [of "dbg_printf ''Call stack: %p'' [ret] s" f rs] assms by (simp add: dbg_printf_def)
  then show ?thesis by (cases s) (simp add: debug_backtrace_def dbg_printf_def Let_def)
qed

theorem backtrace_prints_chain_witness:
  "debug_backtrace 7 0x2000 \<lparr>words = [0x2000 \<mapsto> 0x2010, 0x2004 \<mapsto> 77, 0x2010 \<mapsto> 0], explained = True, dbg_console = []\<rparr> =
     Some (Inr \<lparr>words = [0x2000 \<mapsto> 0x2010, 0x2004 \<mapsto> 77, 0x2010 \<mapsto> 0], explained = True,
       dbg_console = [(''Call stack: %p'', [7]), ('' %p'', [77]), (''.\<newline>'', [])]\<rparr>)"
  using backtrace_prints_chain [of "\<lparr>words = [0x2000 \<mapsto> 0x2010, 0x2004 \<mapsto> 77, 0x2010 \<mapsto> 0], explained = True, dbg_console = []\<rparr>" "0x2000" "[77]" 7]
  by (simp add: word_le_nat_alt)

end
