(* ===== verification/Tests.thy ===== *)
theory Tests
  imports Print_Lists Main_Loop "HOL-Library.Signed_Division"
begin

text \<open>
  The test driver (src/tests/tests.c), the fifteen tests it lists, and \<open>main\<close> (src/main.c) with
  its endless loop and the interrupts between its rounds.

  The functions of the Pico SDK and of the C library that these files call are the fields of a
  record \<open>board\<close>: what each does to the state of the kernel.  Bytes that \<open>sprintf\<close> and \<open>scanf\<close>
  write beyond the end of an array are the business of \<open>past_end\<close>.
\<close>

section \<open>The board\<close>

text \<open>
  The interrupt handlers the program installs: the repeating timer and the alarms of four tests, with
  the value of the static counter of the callback.
\<close>

datatype handler = Timer | Fifo_create s32 | Rr_create s32 | Fifo_exit s32 | Rr_exit s32

record board =
  sync :: sdk
  stdio_init_all :: "kernel \<Rightarrow> kernel"
  gpio_init :: "nat \<Rightarrow> kernel \<Rightarrow> kernel"
  gpio_set_dir :: "nat \<Rightarrow> bool \<Rightarrow> kernel \<Rightarrow> kernel"
  gpio_put :: "nat \<Rightarrow> nat \<Rightarrow> kernel \<Rightarrow> kernel"
  sleep_ms :: "nat \<Rightarrow> kernel \<Rightarrow> (error + kernel) option"
  add_alarm_in_ms :: "nat \<Rightarrow> kernel \<Rightarrow> kernel"
  add_repeating_timer_ms :: "nat \<Rightarrow> kernel \<Rightarrow> kernel"
  calloc :: "kernel \<Rightarrow> tptr"              \<comment> \<open>the address of the next block, 0 if there is none\<close>
  rand :: "nat \<Rightarrow> s32"                   \<comment> \<open>the value of the n-th call\<close>
  past_end :: "string \<Rightarrow> kernel \<Rightarrow> kernel" \<comment> \<open>storing these bytes beyond the end of an array\<close>
  arrivals :: "nat \<Rightarrow> handler list"       \<comment> \<open>the interrupts before the i-th round of the endless loop\<close>

section \<open>Strings\<close>

fun decimal :: "nat \<Rightarrow> string" where
  "decimal n = (if n < 10 then [char_of (48 + n)] else decimal (n div 10) @ [char_of (48 + n mod 10)])"

definition show_int :: "s32 \<Rightarrow> string" where
  "show_int i = (if sint i < 0 then ''-'' @ decimal (nat (- sint i)) else decimal (nat (sint i)))"

text \<open>Storing a string and its terminator in an array of \<open>n\<close> bytes.\<close>

definition store_string :: "board \<Rightarrow> nat \<Rightarrow> string \<Rightarrow> kernel \<Rightarrow> kernel" where
  "store_string bd n str s =
     (if length str + 1 \<le> n then s else past_end bd (drop n (str @ [CHR 0x00])) s)"

text \<open>\<open>atoi\<close> of a word without white space: a sign and the digits up to the first other character.\<close>

definition is_digit :: "char \<Rightarrow> bool" where
  "is_digit c \<longleftrightarrow> (of_char c :: nat) \<in> {48..57}"

definition digits_value :: "string \<Rightarrow> int" where
  "digits_value str = fold (\<lambda>c n. 10 * n + (of_char c - 48)) (takeWhile is_digit str) 0"

definition atoi :: "string \<Rightarrow> s32" where
  "atoi str = word_of_int (
     if take 1 str = ''-'' then - digits_value (drop 1 str)
     else if take 1 str = ''+'' then digits_value (drop 1 str)
     else digits_value str)"

section \<open>Test output (src/tests/tests.c)\<close>

definition msg :: "string \<Rightarrow> string \<Rightarrow> arg list \<Rightarrow> kernel \<Rightarrow> kernel" where
  "msg test_name fmt args s =
     printf ''\<newline>'' [] (printf fmt args (printf ''(%s) '' [AStr test_name] s))"

text \<open>\<open>fail\<close> prints and panics; the state that was printed to is lost with the panic.\<close>

definition fail :: "string \<Rightarrow> string \<Rightarrow> arg list \<Rightarrow> kernel \<Rightarrow> error + kernel" where
  "fail test_name fmt args s =
     bindE (Inr (printf ''\<newline>'' [] (printf fmt args (printf ''(%s) FAIL: '' [AStr test_name] s)))) (\<lambda>_.
     PANIC ''test failed'')"

definition pass :: "string \<Rightarrow> kernel \<Rightarrow> kernel" where
  "pass test_name s = printf ''(%s) PASS\<newline>'' [AStr test_name] s"

section \<open>The tests\<close>

text \<open>\<open>for (int i = 0; i < n; i++) body\<close>\<close>

fun for_each :: "nat list \<Rightarrow> (nat \<Rightarrow> kernel \<Rightarrow> (error + kernel) option) \<Rightarrow> kernel \<Rightarrow> (error + kernel) option" where
  "for_each [] body s = Some (Inr s)"
| "for_each (i # is) body s = bindR (body i s) (for_each is body)"

text \<open>\<open>sprintf (nombre, "thread%d", i)\<close> into an array of \<open>n\<close> bytes, then \<open>thread_create\<close>.\<close>

definition create_named :: "board \<Rightarrow> nat \<Rightarrow> string \<Rightarrow> s32 \<Rightarrow> u32 \<Rightarrow> s32 \<Rightarrow> kernel \<Rightarrow> (error + kernel) option" where
  "create_named bd n prefix i func duration s =
     (let str = prefix @ show_int i;
          s = store_string bd n str s in
      Some (bindE (thread_create (sync bd) (calloc bd s) (CharBuf str) func 0 duration s) (\<lambda>(_, s). Inr s)))"

definition test_hello_world :: "board \<Rightarrow> string \<Rightarrow> kernel \<Rightarrow> (error + kernel) option" where
  "test_hello_world bd test_name s = Some (Inr (msg test_name ''Hello world from test!!\<newline>'' [] s))"

definition test_fifo_simple :: "board \<Rightarrow> string \<Rightarrow> kernel \<Rightarrow> (error + kernel) option" where
  "test_fifo_simple bd test_name s =
     bindR (sleep_ms bd 1000 (gpio_put bd 25 1 s)) (\<lambda>s.
     bindR (Some (Inr (schedule_set_quantum 0 0 s))) (\<lambda>s.
     bindR (for_each [0..<5] (\<lambda>i. create_named bd 7 ''thread'' (of_nat i) 0 10) s) (\<lambda>s.
     print_lists s)))"

definition test_round_robin_simple :: "board \<Rightarrow> string \<Rightarrow> kernel \<Rightarrow> (error + kernel) option" where
  "test_round_robin_simple bd test_name s =
     bindR (sleep_ms bd 1000 (gpio_put bd 25 1 s)) (\<lambda>s.
     bindR (Some (Inr (schedule_set_quantum 1 5 s))) (\<lambda>s.
     bindR (for_each [0..<5] (\<lambda>i. create_named bd 7 ''thread'' (of_nat i) 0 10) s) (\<lambda>s.
     print_lists s)))"

definition test_round_robin_1tick :: "board \<Rightarrow> string \<Rightarrow> kernel \<Rightarrow> (error + kernel) option" where
  "test_round_robin_1tick bd test_name s =
     bindR (sleep_ms bd 1000 (gpio_put bd 25 1 s)) (\<lambda>s.
     bindR (Some (Inr (schedule_set_quantum 1 1 s))) (\<lambda>s.
     bindR (for_each [0..<5] (\<lambda>i. create_named bd 7 ''thread'' (of_nat i) 0 10) s) (\<lambda>s.
     print_lists s)))"

text \<open>\<open>rand() % 25+5\<close>; the remainder of a C division has the sign of the dividend.\<close>

definition random_duration :: "s32 \<Rightarrow> s32" where
  "random_duration r = word_of_int (sint r smod 25 + 5)"

definition test_fifo_random_duration :: "board \<Rightarrow> string \<Rightarrow> kernel \<Rightarrow> (error + kernel) option" where
  "test_fifo_random_duration bd test_name s =
     bindR (sleep_ms bd 1000 (gpio_put bd 25 1 s)) (\<lambda>s.
     bindR (Some (Inr (schedule_set_quantum 0 0 s))) (\<lambda>s.
     bindR (for_each [0..<5] (\<lambda>i. create_named bd 7 ''thread'' (of_nat i) 0 (random_duration (rand bd i))) s) (\<lambda>s.
     print_lists s)))"

definition test_round_robin_random_duration :: "board \<Rightarrow> string \<Rightarrow> kernel \<Rightarrow> (error + kernel) option" where
  "test_round_robin_random_duration bd test_name s =
     bindR (sleep_ms bd 1000 (gpio_put bd 25 1 s)) (\<lambda>s.
     bindR (Some (Inr (schedule_set_quantum 1 5 s))) (\<lambda>s.
     bindR (for_each [0..<5] (\<lambda>i. create_named bd 7 ''thread'' (of_nat i) 0 (random_duration (rand bd i))) s) (\<lambda>s.
     print_lists s)))"

text \<open>
  The alarm callbacks: the static \<open>count\<close> is an argument and part of the result, after the value
  returned to the SDK (the delay to the next alarm in microseconds, 0 for none).  The loops of the tests
  below count it up too, so that the first alarm of a delayed creation sees 3; nothing else reads it.
\<close>

definition fifo_thread_create_alarm_callback ::
  "board \<Rightarrow> s32 \<Rightarrow> kernel \<Rightarrow> (error + (int \<times> s32 \<times> kernel)) option" where
  "fifo_thread_create_alarm_callback bd count s =
     bindR (create_named bd 7 ''thread'' count 0 10
       (printf ''\<newline>====================================\<newline>\<newline>INTERRUPT! Create thread %d\<newline>'' [AInt count] s)) (\<lambda>s.
     bindR (print_lists s) (\<lambda>s.
     Some (Inr (98765 * 100, count + 1, printf ''\<newline>====================================\<newline>'' [] s))))"

definition rr_thread_create_alarm_callback ::
  "board \<Rightarrow> s32 \<Rightarrow> kernel \<Rightarrow> (error + (int \<times> s32 \<times> kernel)) option" where
  "rr_thread_create_alarm_callback bd count s =
     bindR (create_named bd 7 ''thread'' count 0 10
       (printf ''\<newline>====================================\<newline>\<newline>INTERRUPT! Create thread %d\<newline>'' [AInt count] s)) (\<lambda>s.
     bindR (print_lists s) (\<lambda>s.
     Some (Inr (98765 * 100, count + 1, printf ''\<newline>====================================\<newline>'' [] s))))"

definition test_fifo_delayed_create :: "board \<Rightarrow> string \<Rightarrow> kernel \<Rightarrow> (error + kernel) option" where
  "test_fifo_delayed_create bd test_name s =
     bindR (sleep_ms bd 1000 (gpio_put bd 25 1 s)) (\<lambda>s.
     bindR (Some (Inr (schedule_set_quantum 0 4 s))) (\<lambda>s.
     bindR (for_each [0..<3] (\<lambda>i. create_named bd 7 ''thread'' (of_nat i) 0 10) s) (\<lambda>s.
     print_lists (add_alarm_in_ms bd 9876 s))))"

definition test_round_robin_delayed_create :: "board \<Rightarrow> string \<Rightarrow> kernel \<Rightarrow> (error + kernel) option" where
  "test_round_robin_delayed_create bd test_name s =
     bindR (sleep_ms bd 1000 (gpio_put bd 25 1 s)) (\<lambda>s.
     bindR (Some (Inr (schedule_set_quantum 1 4 s))) (\<lambda>s.
     bindR (for_each [0..<3] (\<lambda>i. create_named bd 7 ''thread'' (of_nat i) 0 10) s) (\<lambda>s.
     print_lists (add_alarm_in_ms bd 9876 s))))"

text \<open>The sleep tests with one thread use an array that already holds the name \<open>thread1\<close>.\<close>

definition test_sleep_single :: "board \<Rightarrow> string \<Rightarrow> kernel \<Rightarrow> (error + kernel) option" where
  "test_sleep_single bd test_name s =
     bindR (sleep_ms bd 1000 (gpio_put bd 25 1 s)) (\<lambda>s.
     bindR (Some (Inr (schedule_set_quantum 0 5 s))) (\<lambda>s.
     bindR (Some (thread_create (sync bd) (calloc bd s) (CharBuf ''thread1'') 0 0 15 s)) (\<lambda>r.
     bindR (print_lists (snd r)) (\<lambda>s.
     bindR (Some (thread_sleep (sync bd) 25 s)) (\<lambda>s.
     print_lists s)))))"

definition test_sleep_multiple_fifo :: "board \<Rightarrow> string \<Rightarrow> kernel \<Rightarrow> (error + kernel) option" where
  "test_sleep_multiple_fifo bd test_name s =
     bindR (sleep_ms bd 1000 (gpio_put bd 25 1 s)) (\<lambda>s.
     bindR (Some (Inr (schedule_set_quantum 0 5 s))) (\<lambda>s.
     bindR (for_each [0..<5] (\<lambda>i s.
       bindR (create_named bd 7 ''thread'' (of_nat i) 0 (3 * (of_nat i + 1)) s) (\<lambda>s.
       Some (thread_sleep (sync bd) (5 * (of_nat i + 1)) s))) s) (\<lambda>s.
     print_lists s)))"

definition test_sleep_multiple_rr :: "board \<Rightarrow> string \<Rightarrow> kernel \<Rightarrow> (error + kernel) option" where
  "test_sleep_multiple_rr bd test_name s =
     bindR (sleep_ms bd 1000 (gpio_put bd 25 1 s)) (\<lambda>s.
     bindR (Some (Inr (schedule_set_quantum 1 4 s))) (\<lambda>s.
     bindR (for_each [0..<5] (\<lambda>i s.
       bindR (create_named bd 7 ''thread'' (of_nat i) 0 (3 * (of_nat i + 1)) s) (\<lambda>s.
       Some (thread_sleep (sync bd) (5 * (of_nat i + 1)) s))) s) (\<lambda>s.
     print_lists s)))"

definition test_sleep_negative :: "board \<Rightarrow> string \<Rightarrow> kernel \<Rightarrow> (error + kernel) option" where
  "test_sleep_negative bd test_name s =
     bindR (sleep_ms bd 1000 (gpio_put bd 25 1 s)) (\<lambda>s.
     bindR (Some (Inr (schedule_set_quantum 0 5 s))) (\<lambda>s.
     bindR (Some (thread_create (sync bd) (calloc bd s) (CharBuf ''thread1'') 0 0 15 s)) (\<lambda>r.
     bindR (print_lists (snd r)) (\<lambda>s.
     bindR (Some (thread_sleep (sync bd) (- 10) s)) (\<lambda>s.
     print_lists s)))))"

definition fifo_force_thread_exit_callback :: "s32 \<Rightarrow> kernel \<Rightarrow> int \<times> kernel" where
  "fifo_force_thread_exit_callback count s =
     (0, printf ''\<newline>====================================\<newline>'' []
        (set_thread_exit_on_return
          (printf ''\<newline>====================================\<newline>\<newline>Interrupt! thread exit \<newline>'' [AInt count] s)))"

definition rr_force_thread_exit_callback :: "s32 \<Rightarrow> kernel \<Rightarrow> int \<times> kernel" where
  "rr_force_thread_exit_callback count s =
     (0, printf ''\<newline>====================================\<newline>'' []
        (set_thread_exit_on_return
          (printf ''\<newline>====================================\<newline>\<newline>Interrupt! thread exit \<newline>'' [AInt count] s)))"

definition test_fifo_force_exit :: "board \<Rightarrow> string \<Rightarrow> kernel \<Rightarrow> (error + kernel) option" where
  "test_fifo_force_exit bd test_name s =
     bindR (sleep_ms bd 1000 (gpio_put bd 25 1 s)) (\<lambda>s.
     bindR (Some (Inr (schedule_set_quantum 0 4 s))) (\<lambda>s.
     bindR (for_each [0..<5] (\<lambda>i. create_named bd 7 ''thread'' (of_nat i) 0 5) s) (\<lambda>s.
     print_lists (add_alarm_in_ms bd 8000 s))))"

definition test_round_robin_force_exit :: "board \<Rightarrow> string \<Rightarrow> kernel \<Rightarrow> (error + kernel) option" where
  "test_round_robin_force_exit bd test_name s =
     bindR (sleep_ms bd 1000 (gpio_put bd 25 1 s)) (\<lambda>s.
     bindR (Some (Inr (schedule_set_quantum 1 6 s))) (\<lambda>s.
     bindR (for_each [0..<5] (\<lambda>i. create_named bd 7 ''thread'' (of_nat i) 0 15) s) (\<lambda>s.
     print_lists (add_alarm_in_ms bd 8000 s))))"

definition test_manual_set_round_robin :: "board \<Rightarrow> string \<Rightarrow> kernel \<Rightarrow> (error + kernel) option" where
  "test_manual_set_round_robin bd test_name s =
     bindR (sleep_ms bd 1000 (gpio_put bd 25 1 s)) (\<lambda>s.
     bindR (for_each [0..<5] (\<lambda>i. create_named bd 7 ''thread'' (of_nat i) 0 15) s) (\<lambda>s.
     print_lists s))"

text \<open>
  The test of temp-test.c, which is not in the table below.  \<open>hello_fn\<close> is the address of its thread function
  \<open>hello_world\<close>; like all thread functions it is stored in the frames and never called.
\<close>

definition hello_world :: "string \<Rightarrow> kernel \<Rightarrow> kernel" where
  "hello_world test_name s = msg test_name ''Hello World from thread!\<newline>'' [] s"

definition test_temp_test :: "u32 \<Rightarrow> board \<Rightarrow> string \<Rightarrow> kernel \<Rightarrow> (error + kernel) option" where
  "test_temp_test hello_fn bd test_name s =
     bindR (sleep_ms bd 3000 (gpio_put bd 25 1 s)) (\<lambda>s.
     bindR (Some (Inr (schedule_set_quantum 0 5 s))) (\<lambda>s.
     bindR (for_each [0..<5] (\<lambda>i. create_named bd 5 ''hola'' (of_nat i) hello_fn (10 * (of_nat i + 1))) s) (\<lambda>s.
     bindR (print_lists s) (\<lambda>s.
     Some (Inr (gpio_put bd 25 1 s))))))"

section \<open>The driver\<close>

record test =
  test_title :: string
  test_function :: "board \<Rightarrow> string \<Rightarrow> kernel \<Rightarrow> (error + kernel) option"

definition tests :: "test list" where
  "tests =
     [\<lparr>test_title = ''hello-world'', test_function = test_hello_world\<rparr>,
      \<lparr>test_title = ''fifo-simple'', test_function = test_fifo_simple\<rparr>,
      \<lparr>test_title = ''round-robin-simple'', test_function = test_round_robin_simple\<rparr>,
      \<lparr>test_title = ''round-robin-1tick'', test_function = test_round_robin_1tick\<rparr>,
      \<lparr>test_title = ''fifo-random-duration'', test_function = test_fifo_random_duration\<rparr>,
      \<lparr>test_title = ''round-robin-random-duration'', test_function = test_round_robin_random_duration\<rparr>,
      \<lparr>test_title = ''fifo-delayed-create'', test_function = test_fifo_delayed_create\<rparr>,
      \<lparr>test_title = ''round-robin-delayed-create'', test_function = test_round_robin_delayed_create\<rparr>,
      \<lparr>test_title = ''sleep-single'', test_function = test_sleep_single\<rparr>,
      \<lparr>test_title = ''sleep-multiple-fifo'', test_function = test_sleep_multiple_fifo\<rparr>,
      \<lparr>test_title = ''sleep-multiple-rr'', test_function = test_sleep_multiple_rr\<rparr>,
      \<lparr>test_title = ''sleep-negative'', test_function = test_sleep_negative\<rparr>,
      \<lparr>test_title = ''fifo-force-exit'', test_function = test_fifo_force_exit\<rparr>,
      \<lparr>test_title = ''round-robin-force-exit'', test_function = test_round_robin_force_exit\<rparr>,
      \<lparr>test_title = ''manual-set-round-robin'', test_function = test_manual_set_round_robin\<rparr>]"

definition print_test_names :: "kernel \<Rightarrow> kernel" where
  "print_test_names s =
     fold (\<lambda>(i, t) s. printf ''Test %d: %s\<newline>'' [AInt (of_nat i + 1), AStr (test_title t)] s) (enumerate 0 tests) s"

definition getNumberOfTests :: s32 where
  "getNumberOfTests = of_nat (length tests)"

text \<open>An index outside of the table reads memory that is not the table's.\<close>

definition getTestName :: "s32 \<Rightarrow> error + string" where
  "getTestName testN =
     (if 0 \<le> sint testN \<and> nat (sint testN) < length tests then Inr (test_title (tests ! nat (sint testN)))
      else Inl Fault)"

text \<open>The loop of \<open>run_test\<close> over the table, from the entry \<open>ts\<close> starts with.\<close>

fun run_test_from :: "test list \<Rightarrow> board \<Rightarrow> string \<Rightarrow> kernel \<Rightarrow> (error + kernel) option" where
  "run_test_from [] bd nm s = Some (PANIC ''no test named \"%s\"'')"
| "run_test_from (t # ts) bd nm s =
     (if nm = test_title t then
        test_function t bd nm (msg nm ''INICIANDO TEST %s'' [AStr nm] s)
      else run_test_from ts bd nm s)"

definition run_test :: "board \<Rightarrow> string \<Rightarrow> kernel \<Rightarrow> (error + kernel) option" where
  "run_test bd nm s = run_test_from tests bd nm s"

section \<open>main (src/main.c)\<close>

text \<open>
  The words the user types are a list; a \<open>scanf\<close> with no word left waits for ever, which is
  \<open>None\<close>.  \<open>userInput\<close> has room for five characters.
\<close>

fun choose_test :: "board \<Rightarrow> string list \<Rightarrow> kernel \<Rightarrow> (s32 \<times> string list \<times> kernel) option" where
  "choose_test bd [] s = None"
| "choose_test bd (w # ws) s =
     (let testSelected = atoi w;
          s = store_string bd 5 w s in
      if sint getNumberOfTests < sint testSelected \<or> sint testSelected \<le> 0
      then choose_test bd ws (printf ''VALOR INCORRECTO. Seleccione test: '' [] s)
      else Some (testSelected, ws, s))"

text \<open>The loop that asks for the number of cycles again tests \<open>testSelected\<close>.\<close>

fun choose_cycles :: "board \<Rightarrow> s32 \<Rightarrow> s32 \<Rightarrow> string list \<Rightarrow> kernel \<Rightarrow> (s32 \<times> string list \<times> kernel) option" where
  "choose_cycles bd testSelected rrCountSelected ws s =
     (if sint testSelected \<le> 0 then
        case ws of
          [] \<Rightarrow> None
        | w # ws \<Rightarrow>
            choose_cycles bd testSelected (atoi w) ws
              (store_string bd 5 w (printf ''Debe ser mayor a 0. Ingrese ciclos para round robin: '' [] s))
      else Some (rrCountSelected, ws, s))"

declare choose_cycles.simps [simp del]

definition configure_cycles :: "board \<Rightarrow> s32 \<Rightarrow> string list \<Rightarrow> kernel \<Rightarrow> kernel option" where
  "configure_cycles bd testSelected ws s =
     (if testSelected = 14 then
        let s = printf ''Ingrese ciclos para round robin (>0): '' [] s in
        case ws of
          [] \<Rightarrow> None
        | w # ws \<Rightarrow>
            Option.bind (choose_cycles bd testSelected (atoi w) ws (store_string bd 5 w s)) (\<lambda>(rrCountSelected, ws, s).
            Some (schedule_set_quantum 1 rrCountSelected
              (printf ''--------------------Configurando round robin para %d ciclos.\<newline>--------------------\<newline>''
                 [AInt rrCountSelected] s)))
      else Some s)"

text \<open>From \<open>thread_init\<close> to the start of the test; \<open>idle_fn\<close> is the address of \<open>idle\<close>.\<close>

definition start_kernel :: "board \<Rightarrow> u32 \<Rightarrow> kernel \<Rightarrow> (error + kernel) option" where
  "start_kernel bd idle_fn s =
     bindR (Some (thread_init s)) (\<lambda>s.
     bindR (Some (thread_start (sync bd) (calloc bd s) idle_fn s)) (\<lambda>s.
     bindR (Some (Inr (add_repeating_timer_ms bd 500 s))) (\<lambda>s.
     bindR (Some (thread_current s)) (\<lambda>current.
     bindR (Some (load_thread current s)) (\<lambda>th.
     bindR (print_all_list (printf ''current thread: %s\<newline>'' [AStr (name th)] s)) (\<lambda>s.
     bindR (Some (thread_yield (sync bd) s)) (\<lambda>s.
     bindR (Some (ASSERT ((1 :: int) < 2) ''1 < 2'')) (\<lambda>_.
     Some (Inr s)))))))))"

text \<open>
  Everything \<open>main\<close> does before \<open>while (1) after_interrupt ();\<close>, and whether it gets there or takes
  the branch that returns.
\<close>

definition main_setup :: "board \<Rightarrow> u32 \<Rightarrow> string list \<Rightarrow> kernel \<Rightarrow> (error + (bool \<times> kernel)) option" where
  "main_setup bd idle_fn ws s =
     (let s = gpio_set_dir bd 25 True (gpio_init bd 25 (stdio_init_all bd s));
          s = printf ''=================INICIANDO=================\<newline>'' [] s;
          s = printf ''Elija un test a ejecutar:\<newline>'' [] s;
          s = printf ''test: '' [] (print_test_names s) in
      Option.bind (choose_test bd ws s) (\<lambda>(testSelected, ws, s).
      let s = printf (''Se seleccion'' @ [CHR 0xC3, CHR 0xB3] @ '' el test %d\<newline>\<newline>'') [AInt testSelected] s in
      if sint testSelected \<le> sint getNumberOfTests \<and> 0 < sint testSelected then
        let testSelected = testSelected - 1 in
        Option.bind (configure_cycles bd testSelected ws s) (\<lambda>s.
        bindR (start_kernel bd idle_fn s) (\<lambda>s.
        bindR (Some (getTestName testSelected)) (\<lambda>test_name.
        bindR (run_test bd test_name s) (\<lambda>s.
        Some (Inr (True, s))))))
      else Some (Inr (False, printf (''Test no v'' @ [CHR 0xC3, CHR 0xA1] @ ''lido. Saliendo...'') [] s))))"

text \<open>What an interrupt does, and the interrupts that arrive in a row.\<close>

fun run_handler :: "board \<Rightarrow> handler \<Rightarrow> kernel \<Rightarrow> (error + kernel) option" where
  "run_handler bd Timer s = bindR (timer_interrupt s) (\<lambda>(_, s). Some (Inr s))"
| "run_handler bd (Fifo_create count) s =
     bindR (fifo_thread_create_alarm_callback bd count s) (\<lambda>(_, _, s). Some (Inr s))"
| "run_handler bd (Rr_create count) s =
     bindR (rr_thread_create_alarm_callback bd count s) (\<lambda>(_, _, s). Some (Inr s))"
| "run_handler bd (Fifo_exit count) s = Some (Inr (snd (fifo_force_thread_exit_callback count s)))"
| "run_handler bd (Rr_exit count) s = Some (Inr (snd (rr_force_thread_exit_callback count s)))"

fun run_handlers :: "board \<Rightarrow> handler list \<Rightarrow> kernel \<Rightarrow> (error + kernel) option" where
  "run_handlers bd [] s = Some (Inr s)"
| "run_handlers bd (h # hs) s = bindR (run_handler bd h s) (run_handlers bd hs)"

text \<open>
  \<open>while (1) after_interrupt ();\<close> from the \<open>i\<close>-th round on, with the interrupts that arrive between
  the rounds.  \<open>main\<close> never returns unless the kernel panics: \<open>None\<close>.
\<close>

partial_function (option) main_loop :: "board \<Rightarrow> nat \<Rightarrow> kernel \<Rightarrow> (error + unit) option" where
  "main_loop bd i s =
     bindR (run_handlers bd (arrivals bd i) s) (\<lambda>s.
     bindR (Some (after_interrupt (sync bd) s)) (\<lambda>s.
     main_loop bd (i + 1) s))"

definition main :: "board \<Rightarrow> u32 \<Rightarrow> string list \<Rightarrow> kernel \<Rightarrow> (error + unit) option" where
  "main bd idle_fn ws s = 
     bindR (main_setup bd idle_fn ws s) (\<lambda>r. if fst r then main_loop bd 0 (snd r) else Some (Inr ()))"

end
