(* ===== verification/Tests_Spec.thy ===== *)
theory Tests_Spec
  imports Tests
begin

text \<open>
  What the tests and \<open>main\<close> rely on, a board whose SDK and C library do what their documentation says
  (\<open>board_ok\<close>) and which has memory for a few threads (\<open>roomy\<close>), and the steps they are made of: each
  returns, from a state the kernel can reach, in such a state.
\<close>

section \<open>What the code relies on\<close>

text \<open>
  The I/O functions do not touch the data of the kernel; a sleep of the board lets timer interrupts
  in; \<open>calloc\<close> returns null or memory that is not in use; what is written beyond an array hits
  nothing the kernel uses.
\<close>

definition board_ok :: "board \<Rightarrow> bool" where
  "board_ok bd \<longleftrightarrow>
     (\<forall>s. stdio_init_all bd s = s) \<and> (\<forall>p s. gpio_init bd p s = s) \<and> (\<forall>p d s. gpio_set_dir bd p d s = s) \<and>
     (\<forall>p v s. gpio_put bd p v s = s) \<and> (\<forall>ms s. add_alarm_in_ms bd ms s = s) \<and>
     (\<forall>ms s. add_repeating_timer_ms bd ms s = s) \<and> (\<forall>str s. past_end bd str s = s) \<and>
     (\<forall>ms s. \<exists>k. sleep_ms bd ms s = run_events (kernel_event (sync bd)) (replicate k Tick) s) \<and>
     (\<forall>s. calloc bd s = 0 \<or> threads s (calloc bd s) = None)"

definition roomy :: "board \<Rightarrow> bool" where
  "roomy bd \<longleftrightarrow> (\<forall>s. finite (dom (threads s)) \<and> card (dom (threads s)) \<le> 8 \<longrightarrow> calloc bd s \<noteq> 0)"

lemma board_okD:
  assumes "board_ok bd"
  shows "stdio_init_all bd s = s" "gpio_init bd p s = s" "gpio_set_dir bd p d s = s" "gpio_put bd p v s = s"
    "add_alarm_in_ms bd ms s = s" "add_repeating_timer_ms bd ms s = s" "store_string bd n str s = s"
    "calloc bd s = 0 \<or> threads s (calloc bd s) = None"
  using assms by (simp_all add: board_ok_def store_string_def)

section \<open>Steps\<close>

lemma reachable_prints: "reachable sd n s \<Longrightarrow> reachable sd n (prints out s)"
proof (induction out arbitrary: s)
  case (Cons x out)
  have "reachable sd n (printf (fst x) (snd x) s)" by (rule reachable.prints [OF Cons.prems])
  from Cons.IH [OF this] show ?case by simp
qed simp

text \<open>A reachable state with \<open>n\<close> identifiers handed out has at most \<open>n\<close> threads.\<close>

lemma reachable_finite: "reachable sd n s \<Longrightarrow> finite (dom (threads s))"
  using reachable_refines simD(1) [OF refinesD(1)] lists_okD(4) by (metis List.finite_set)

lemma same_ids_dom: "same_ids s s' \<Longrightarrow> dom (threads s') \<subseteq> dom (threads s)"
  unfolding same_ids_def by blast

lemma event_dom:
  assumes "refines s a" "admissible e a" "kernel_event sd e s = Some (Inr s')"
  shows "\<exists>T. dom (threads s') \<subseteq> dom (threads s) \<union> T \<and> finite T \<and> card T \<le> creates e"
proof (cases e rule: creates_cases)
  case (new t nm f ax d)
  have "same_ids (s\<lparr>next_tid := next_tid s + 1, threads := (threads s)(t \<mapsto> created_record t nm (next_tid s) d)\<rparr>) s'"
    by (rule create_event(1) [OF assms(1) _ new(2)]) (use assms(2,3) new(1) in auto)
  from same_ids_dom [OF this] have "dom (threads s') \<subseteq> dom (threads s) \<union> {t}" by auto
  with new(3) show ?thesis by (intro exI [of _ "{t}"]) auto
next
  case old
  have "same_ids s s'"
    using timer_interrupt_refines [OF assms(1)] assms(3) event_frame [OF assms _ old]
    by (cases "e = Tick") (auto simp: frame_same_ids)
  then show ?thesis using same_ids_dom by (intro exI [of _ "{}"]) auto
qed

lemma reachable_card: "reachable sd n s \<Longrightarrow> card (dom (threads s)) \<le> n"
proof (induction rule: reachable.induct)
  case (start s0 t s1 f s)
  obtain s0' s' where s': "thread_init s0 = Inr s0'" "thread_start sd t f s0' = Inr s'"
    "refines s' (a_boot (running_thread_init s0) t s0)"
    by (rule boot_refines [OF start(1-3)])
  have "dom (threads s') = {running_thread_init s0, t}"
    using lists_okD(4) [OF simD(1) [OF refinesD(1) [OF s'(3)]]] by (simp add: a_boot_def)
  moreover have "s' = s" using s'(1,2) start(4,5) by simp
  ultimately show ?case by (simp add: card_insert_if)
next
  case (event n s e s')
  obtain a where a: "refines s a" using reachable_refines [OF event(1)] by blast
  obtain T where T: "dom (threads s') \<subseteq> dom (threads s) \<union> T" "finite T" "card T \<le> creates e"
    using event_dom [OF a _ event(3)] admissible_iff [OF a] event(2) by blast
  have "card (dom (threads s')) \<le> card (dom (threads s) \<union> T)"
    by (rule card_mono) (use T reachable_finite [OF event(1)] in auto)
  also have "\<dots> \<le> card (dom (threads s)) + card T" by (rule card_Un_le)
  finally show ?case using event.IH T(3) by simp
qed simp

lemma print_lists_step:
  assumes "reachable sd n s"
  shows "\<exists>s'. print_lists s = Some (Inr s') \<and> reachable sd n s' \<and>
    thread_running_var s' = thread_running_var s \<and> idle_thread s' = idle_thread s"
proof -
  obtain a where a: "refines s a" using reachable_refines [OF assms] by blast
  note L = lists_okD(1,2,4-7) [OF simD(1) [OF refinesD(1) [OF a]]]
  have "0 \<notin> set (a_ready a)" "0 \<notin> set (a_sleeping a)" using L(4-6) by auto
  with L(3,5,6) obtain out where "print_lists s = Some (Inr (prints out s))"
    using print_lists_spec [OF L(1) _ _ L(2)] by blast
  then show ?thesis using reachable_prints [OF assms, of out] by (simp add: prints_def)
qed

lemma sleep_ms_step:
  assumes "board_ok bd" "reachable (sync bd) n s"
  shows "\<exists>s'. sleep_ms bd ms s = Some (Inr s') \<and> reachable (sync bd) n s'"
proof -
  obtain a where a: "refines s a" using reachable_refines [OF assms(2)] by blast
  obtain k where k: "sleep_ms bd ms s = run_events (kernel_event (sync bd)) (replicate k Tick) s"
    using assms(1) unfolding board_ok_def by blast
  have "guarded admissible sched_event (replicate k Tick) a" for a
    by (induction k arbitrary: a) auto
  then have "kernel_guarded (sync bd) (replicate k Tick) s" using kernel_guarded_iff [OF a] by blast
  moreover have "sum_list (map creates (replicate k Tick)) = 0" by (induction k) auto
  ultimately show ?thesis using reachable_run [OF assms(2), of "replicate k Tick"] unfolding k by (metis add_0_right)
qed

lemma quantum_step: "reachable sd n s \<Longrightarrow> reachable sd n (schedule_set_quantum m q s)"
  using reachable.event [of sd n s "Set_quantum m q"] by simp

lemma exit_request_step: "reachable sd n s \<Longrightarrow> reachable sd n (set_thread_exit_on_return s)"
  using reachable.event [of sd n s Exit_request] by simp

text \<open>A creation; if it succeeds the running thread is not the idle thread afterwards.\<close>

lemma a_create_not_idle:
  assumes "sched_wf a" "t \<notin> set (a_all a)"
  shows "a_cur (a_create t d a) \<noteq> a_idle (a_create t d a)"
proof (cases "a_cur a = a_idle a")
  case True
  have "a_idle a \<notin> set (a_ready a)" "t \<noteq> a_idle a" using assms True by (auto simp: sched_wf_def)
  then show ?thesis
    by (cases "a_ready a") (auto simp: a_create_def a_block_if_idle_def a_dispatch_def)
next
  case False
  then show ?thesis by (simp add: a_create_def a_block_if_idle_def)
qed

lemma create_step:
  assumes "reachable sd n s" "threads s t = None" "t \<noteq> 0"
  shows "\<exists>s'. thread_create sd t (CharBuf str) f ax d s = Inr (next_tid s, s') \<and> reachable sd (n + 1) s' \<and>
    thread_running_var s' \<noteq> idle_thread s'"
proof -
  obtain a where a: "refines s a" using reachable_refines [OF assms(1)] by blast
  have adm: "kernel_admissible (Create t (CharBuf str) f ax d) s" using assms(2) by simp
  then have adm': "admissible (Create t (CharBuf str) f ax d) a" using admissible_iff [OF a] by blast
  obtain s' where s': "thread_create sd t (CharBuf str) f ax d s = Inr (next_tid s, s')" "refines s' (a_create t d a)"
    by (rule thread_create_refines [OF a assms(3), where sd = sd and nm = "CharBuf str" and f = f and ax = ax and d = d])
      (use adm' in auto)
  have "reachable sd (n + creates (Create t (CharBuf str) f ax d)) s'"
    by (rule reachable.event [OF assms(1) adm]) (simp add: s'(1))
  moreover have "thread_running_var s' \<noteq> idle_thread s'"
    using a_create_not_idle [OF refinesD(2) [OF a], of t d] adm' simD(2,3) [OF refinesD(1) [OF s'(2)]] by simp
  ultimately show ?thesis using s'(1) assms(3) by simp
qed

lemma create_named_step:
  assumes "board_ok bd" "reachable (sync bd) n s"
  shows "\<exists>s' m. create_named bd k prefix i f d s = Some (Inr s') \<and> reachable (sync bd) m s' \<and> m \<le> n + 1 \<and>
    (calloc bd s \<noteq> 0 \<longrightarrow> thread_running_var s' \<noteq> idle_thread s')"
proof (cases "calloc bd s = 0")
  case True
  then show ?thesis
    using assms(2) board_okD(7) [OF assms(1)]
    by (intro exI [of _ s] exI [of _ n]) (simp add: create_named_def thread_create_def calloc_thread_def Let_def)
next
  case False
  then have "threads s (calloc bd s) = None" using board_okD(8) [OF assms(1), of s] by simp
  from create_step [OF assms(2) this False, of "prefix @ show_int i" f 0 d] show ?thesis
    using board_okD(7) [OF assms(1)] by (auto simp: create_named_def Let_def)
qed

lemma sleep_step:
  assumes "reachable sd n s" "thread_running_var s \<noteq> idle_thread s"
  shows "\<exists>s'. thread_sleep sd k s = Inr s' \<and> reachable sd n s'"
proof -
  obtain a where a: "refines s a" using reachable_refines [OF assms(1)] by blast
  have "kernel_admissible (Sleep k) s" using assms(2) by simp
  moreover obtain s' where "kernel_event sd (Sleep k) s = Some (Inr s')"
    using event_refines [OF a, of "Sleep k" sd] admissible_iff [OF a, of "Sleep k"] assms(2) by auto
  ultimately show ?thesis using reachable.event [OF assms(1), of "Sleep k" s'] by simp
qed

lemma for_each_step:
  assumes "\<And>i n s. reachable sd n s \<Longrightarrow> n \<le> N + i \<Longrightarrow> i < M \<Longrightarrow> \<exists>s' m. body i s = Some (Inr s') \<and> reachable sd m s' \<and> m \<le> n + 1"
  shows "reachable sd n s \<Longrightarrow> n \<le> N + i \<Longrightarrow> i \<le> M \<Longrightarrow>
    \<exists>s' m. for_each [i..<M] body s = Some (Inr s') \<and> reachable sd m s' \<and> m \<le> N + M"
proof (induction "M - i" arbitrary: i n s)
  case 0
  then show ?case by auto
next
  case (Suc x)
  then have "[i..<M] = i # [Suc i..<M]" "i < M" by (simp_all add: upt_conv_Cons)
  moreover obtain s' m where "body i s = Some (Inr s')" "reachable sd m s'" "m \<le> n + 1"
    using assms [OF Suc.prems(1,2)] \<open>i < M\<close> by blast
  moreover from this(2) have "\<exists>s'' k. for_each [Suc i..<M] body s' = Some (Inr s'') \<and> reachable sd k s'' \<and> k \<le> N + M"
    by (rule Suc.hyps(1) [rotated]) (use Suc.hyps(2) Suc.prems \<open>m \<le> n + 1\<close> \<open>i < M\<close> in auto)
  ultimately show ?case by auto
qed

end
