(* ===== verification/Tests_Run.thy ===== *)
theory Tests_Run
  imports Tests_Spec Scenario
begin

text \<open>
  Every test of the table and every interrupt handler returns without a failure, in a state that the
  kernel can reach; the endless loop of \<open>main\<close> goes on for ever.
\<close>

section \<open>Runs that return in a reachable state\<close>

text \<open>The call returns, and the state has at most \<open>N\<close> thread identifiers handed out.\<close>

definition returns :: "sdk \<Rightarrow> nat \<Rightarrow> (error + kernel) option \<Rightarrow> bool" where
  "returns sd N r \<longleftrightarrow> (\<exists>s m. r = Some (Inr s) \<and> reachable sd m s \<and> m \<le> N)"

lemma returnsI: "reachable sd m s \<Longrightarrow> m \<le> N \<Longrightarrow> returns sd N (Some (Inr s))"
  by (auto simp: returns_def)

lemma returns_mono: "returns sd N r \<Longrightarrow> N \<le> M \<Longrightarrow> returns sd M r"
  by (auto simp: returns_def intro: order_trans)

lemma returns_bind:
  assumes "returns sd N r" "\<And>s m. reachable sd m s \<Longrightarrow> m \<le> N \<Longrightarrow> returns sd M (f s)"
  shows "returns sd M (bindR r f)"
  using assms by (force simp: returns_def)

lemma returns_prints: "reachable sd m s \<Longrightarrow> m \<le> N \<Longrightarrow> returns sd N (Some (Inr (prints out s)))"
  by (rule returnsI [OF reachable_prints])

lemma returns_print_lists:
  assumes "reachable sd m s" "m \<le> N"
  shows "returns sd N (print_lists s)"
  using print_lists_step [OF assms(1)] assms(2) by (auto simp: returns_def)

lemma returns_sleep_ms:
  assumes "board_ok bd" "reachable (sync bd) m s" "m \<le> N"
  shows "returns (sync bd) N (sleep_ms bd ms s)"
  using sleep_ms_step [OF assms(1,2), of ms] assms(3) by (auto simp: returns_def)

lemma returns_create_named:
  assumes "board_ok bd" "reachable (sync bd) m s" "m \<le> N"
  shows "returns (sync bd) (N + 1) (create_named bd k prefix i f d s)"
  using create_named_step [OF assms(1,2), of k prefix i f d] assms(3) unfolding returns_def by (meson add_le_mono1 order_trans)

lemma returns_creates:
  assumes "board_ok bd" "reachable (sync bd) m s" "m \<le> N"
  shows "returns (sync bd) (N + M) (for_each [0..<M] (\<lambda>i. create_named bd k prefix (c i) (f i) (d i)) s)"
proof -
  have "\<exists>s' m. for_each [0..<M] (\<lambda>i. create_named bd k prefix (c i) (f i) (d i)) s = Some (Inr s') \<and>
    reachable (sync bd) m s' \<and> m \<le> N + M"
    by (rule for_each_step [OF _ assms(2)]) (use create_named_step [OF assms(1)] assms(3) in \<open>blast, auto\<close>)
  then show ?thesis by (auto simp: returns_def)
qed

text \<open>Memory for a ninth thread: the thread that runs after a creation is not the idle thread.\<close>

lemma roomyD:
  assumes "roomy bd" "reachable (sync bd) m s" "m \<le> 8"
  shows "calloc bd s \<noteq> 0"
  using assms reachable_card [OF assms(2)] reachable_finite [OF assms(2)] by (auto simp: roomy_def)

lemma returns_create_sleep:
  assumes "board_ok bd" "roomy bd" "reachable (sync bd) m s" "m \<le> N" "N \<le> 8"
  shows "returns (sync bd) (N + 1) (bindR (create_named bd k prefix i f d s) (\<lambda>s. Some (thread_sleep (sync bd) q s)))"
proof -
  have "calloc bd s \<noteq> 0" using roomyD [OF assms(2,3)] assms(4,5) by simp
  then obtain s' m' where s': "create_named bd k prefix i f d s = Some (Inr s')" "reachable (sync bd) m' s'" "m' \<le> m + 1"
    "thread_running_var s' \<noteq> idle_thread s'"
    using create_named_step [OF assms(1,3), of k prefix i f d] by blast
  have "m' \<le> N + 1" using s'(3) assms(4) by simp
  with s'(1) sleep_step [OF s'(2,4), of q] show ?thesis by (auto simp: returns_def)
qed

lemma returns_creates_sleep:
  assumes "board_ok bd" "roomy bd" "reachable (sync bd) m s" "m \<le> N" "N + M \<le> 9"
  shows "returns (sync bd) (N + M) (for_each [0..<M] (\<lambda>i s.
    bindR (create_named bd k prefix (c i) (f i) (d i) s) (\<lambda>s. Some (thread_sleep (sync bd) (q i) s))) s)"
proof -
  have "\<exists>s' m. bindR (create_named bd k prefix (c i) (f i) (d i) s) (\<lambda>s. Some (thread_sleep (sync bd) (q i) s)) = Some (Inr s') \<and>
      reachable (sync bd) m s' \<and> m \<le> n + 1" if "reachable (sync bd) n s" "n \<le> N + i" "i < M" for i n s
    using returns_create_sleep [OF assms(1,2) that(1) order_refl] that assms(5) by (fastforce simp: returns_def)
  then have "\<exists>s' m. for_each [0..<M] (\<lambda>i s.
    bindR (create_named bd k prefix (c i) (f i) (d i) s) (\<lambda>s. Some (thread_sleep (sync bd) (q i) s))) s = Some (Inr s') \<and>
    reachable (sync bd) m s' \<and> m \<le> N + M"
    by (rule for_each_step [OF _ assms(3)]) (use assms(4) in auto)
  then show ?thesis by (auto simp: returns_def)
qed

section \<open>The tests\<close>

lemma returns_start:
  assumes "board_ok bd" "reachable (sync bd) m s" "m \<le> N"
    and "\<And>s m. reachable (sync bd) m s \<Longrightarrow> m \<le> N \<Longrightarrow> returns (sync bd) M (f s)"
  shows "returns (sync bd) M (bindR (sleep_ms bd ms (gpio_put bd p v s)) f)"
  using returns_bind [OF returns_sleep_ms [OF assms(1-3)] assms(4)] board_okD(4) [OF assms(1)] by simp

lemma returns_create_all:
  assumes "board_ok bd" "reachable (sync bd) m s" "m \<le> N" "K + N \<le> M"
    and "\<And>s m. reachable (sync bd) m s \<Longrightarrow> m \<le> M \<Longrightarrow> returns (sync bd) M (f s)"
  shows "returns (sync bd) M (bindR (for_each [0..<K] (\<lambda>i. create_named bd k prefix (c i) (g i) (d i)) s) f)"
  by (rule returns_bind [OF returns_creates [OF assms(1-3)]]) (use assms(4,5) in \<open>simp add: add.commute\<close>)

lemma returns_alarm:
  assumes "board_ok bd" "reachable (sync bd) m s" "m \<le> N"
  shows "returns (sync bd) N (print_lists (add_alarm_in_ms bd ms s))"
  using returns_print_lists [OF assms(2,3)] board_okD(5) [OF assms(1)] by simp

lemma returns_create_all_sleep:
  assumes "board_ok bd" "roomy bd" "reachable (sync bd) m s" "m \<le> N" "K + N \<le> M" "M \<le> 9"
    and "\<And>s m. reachable (sync bd) m s \<Longrightarrow> m \<le> M \<Longrightarrow> returns (sync bd) M (f s)"
  shows "returns (sync bd) M (bindR (for_each [0..<K] (\<lambda>i s.
    bindR (create_named bd k prefix (c i) (g i) (d i) s) (\<lambda>s. Some (thread_sleep (sync bd) (q i) s))) s) f)"
  by (rule returns_bind [OF returns_creates_sleep [OF assms(1-4)]]) (use assms(5-7) in \<open>simp_all add: add.commute\<close>)

text \<open>The tests with one sleeping thread print between the creation and the sleep.\<close>

lemma returns_single:
  assumes "board_ok bd" "roomy bd" "reachable (sync bd) m s" "m \<le> N" "N \<le> 8"
  shows "returns (sync bd) (N + 1)
    (bindR (Some (thread_create (sync bd) (calloc bd s) (CharBuf nm) f 0 d s)) (\<lambda>r.
     bindR (print_lists (snd r)) (\<lambda>s.
     bindR (Some (thread_sleep (sync bd) q s)) (\<lambda>s.
     print_lists s))))"
proof -
  have c: "calloc bd s \<noteq> 0" using roomyD [OF assms(2,3)] assms(4,5) by simp
  then have "threads s (calloc bd s) = None" using board_okD(8) [OF assms(1), of s] by simp
  from create_step [OF assms(3) this c, of nm f 0 d] obtain s1 where
    s1: "thread_create (sync bd) (calloc bd s) (CharBuf nm) f 0 d s = Inr (next_tid s, s1)"
    "reachable (sync bd) (m + 1) s1" "thread_running_var s1 \<noteq> idle_thread s1" by blast
  from print_lists_step [OF s1(2)] s1(3) obtain s2 where s2: "print_lists s1 = Some (Inr s2)"
    "reachable (sync bd) (m + 1) s2" "thread_running_var s2 \<noteq> idle_thread s2" by auto
  from sleep_step [OF s2(2,3)] obtain s3 where "thread_sleep (sync bd) q s2 = Inr s3" "reachable (sync bd) (m + 1) s3" by blast
  with s1(1) s2(1) returns_print_lists [of "sync bd" "m + 1" s3 "N + 1"] assms(4) show ?thesis by simp
qed

lemmas test_defs = test_hello_world_def test_fifo_simple_def test_round_robin_simple_def test_round_robin_1tick_def
  test_fifo_random_duration_def test_round_robin_random_duration_def test_fifo_delayed_create_def
  test_round_robin_delayed_create_def test_sleep_single_def test_sleep_multiple_fifo_def test_sleep_multiple_rr_def
  test_sleep_negative_def test_fifo_force_exit_def test_round_robin_force_exit_def test_manual_set_round_robin_def

lemma plain_tests_return:
  assumes "board_ok bd" "reachable (sync bd) n s"
  shows "returns (sync bd) (n + 5) (test_hello_world bd nm s)"
    "returns (sync bd) (n + 5) (test_fifo_simple bd nm s)"
    "returns (sync bd) (n + 5) (test_round_robin_simple bd nm s)"
    "returns (sync bd) (n + 5) (test_round_robin_1tick bd nm s)"
    "returns (sync bd) (n + 5) (test_fifo_random_duration bd nm s)"
    "returns (sync bd) (n + 5) (test_round_robin_random_duration bd nm s)"
    "returns (sync bd) (n + 5) (test_fifo_delayed_create bd nm s)"
    "returns (sync bd) (n + 5) (test_round_robin_delayed_create bd nm s)"
    "returns (sync bd) (n + 5) (test_fifo_force_exit bd nm s)"
    "returns (sync bd) (n + 5) (test_round_robin_force_exit bd nm s)"
    "returns (sync bd) (n + 5) (test_manual_set_round_robin bd nm s)"
  using returns_prints [OF assms(2)]
  by (auto simp: test_defs msg_def
      intro!: returns_start [OF assms order_refl] quantum_step returns_create_all [OF assms(1)]
        returns_print_lists returns_alarm [OF assms(1)])

lemma temp_test_returns:
  assumes "board_ok bd" "reachable (sync bd) n s"
  shows "returns (sync bd) (n + 5) (test_temp_test hello_fn bd nm s)"
proof -
  have "returns (sync bd) (n + 5) (bindR (print_lists s) (\<lambda>s. Some (Inr (gpio_put bd 25 1 s))))"
    if "reachable (sync bd) m s" "m \<le> n + 5" for s m
    by (rule returns_bind [OF returns_print_lists [OF that]]) (auto simp: returns_def board_okD(4) [OF assms(1)])
  then show ?thesis
    unfolding test_temp_test_def
    by (intro returns_start [OF assms order_refl] quantum_step) (auto intro!: returns_create_all [OF assms(1)] quantum_step)
qed

lemma sleep_tests_return:
  assumes "board_ok bd" "roomy bd" "reachable (sync bd) n s" "n \<le> 4"
  shows "returns (sync bd) (n + 5) (test_sleep_single bd nm s)"
    "returns (sync bd) (n + 5) (test_sleep_negative bd nm s)"
    "returns (sync bd) (n + 5) (test_sleep_multiple_fifo bd nm s)"
    "returns (sync bd) (n + 5) (test_sleep_multiple_rr bd nm s)"
proof -
  show "returns (sync bd) (n + 5) (test_sleep_multiple_fifo bd nm s)" "returns (sync bd) (n + 5) (test_sleep_multiple_rr bd nm s)"
    using assms(4)
    by (auto simp: test_defs intro!: returns_start [OF assms(1,3) order_refl] quantum_step
        returns_create_all_sleep [OF assms(1,2)] returns_print_lists)
  have one: "returns (sync bd) (n + 5)
    (bindR (Some (thread_create (sync bd) (calloc bd s) (CharBuf nm) f 0 d s)) (\<lambda>r.
     bindR (print_lists (snd r)) (\<lambda>s.
     bindR (Some (thread_sleep (sync bd) q s)) (\<lambda>s.
     print_lists s))))" if "reachable (sync bd) m s" "m \<le> n" for m s nm f d q
    by (rule returns_mono [OF returns_single [OF assms(1,2) that]]) (use assms(4) in auto)
  show "returns (sync bd) (n + 5) (test_sleep_single bd nm s)" "returns (sync bd) (n + 5) (test_sleep_negative bd nm s)"
    by (auto simp: test_defs intro!: returns_start [OF assms(1,3) order_refl] one quantum_step)
qed

lemma run_test_from_spec:
  "run_test_from ts bd nm s = (case find (\<lambda>t. nm = test_title t) ts of
     None \<Rightarrow> Some (PANIC ''no test named \"%s\"'')
   | Some t \<Rightarrow> test_function t bd nm (msg nm ''INICIANDO TEST %s'' [AStr nm] s))"
  by (induction ts) auto

lemma table_tests_return:
  assumes "board_ok bd" "roomy bd" "reachable (sync bd) n s" "n \<le> 4" "t \<in> set tests"
  shows "returns (sync bd) (n + 5) (test_function t bd nm s)"
  using assms(5) plain_tests_return [OF assms(1,3), of nm] sleep_tests_return [OF assms(1-4), of nm]
  unfolding tests_def by auto

lemma find_test:
  assumes "i < length tests"
  shows "\<exists>t \<in> set tests. find (\<lambda>t. test_title (tests ! i) = test_title t) tests = Some t"
proof -
  have "find (\<lambda>t. test_title (tests ! i) = test_title t) tests \<noteq> None"
    using nth_mem [OF assms] unfolding find_None_iff by blast
  then show ?thesis by (auto simp: find_Some_iff intro: nth_mem)
qed

lemma run_test_returns:
  assumes "board_ok bd" "roomy bd" "reachable (sync bd) n s" "n \<le> 4" "getTestName i = Inr nm"
  shows "returns (sync bd) (n + 5) (run_test bd nm s)"
proof -
  have i: "nat (sint i) < length tests" "nm = test_title (tests ! nat (sint i))"
    using assms(5) by (auto simp: getTestName_def split: if_splits)
  from find_test [OF i(1)] obtain t where t: "t \<in> set tests" "find (\<lambda>t. nm = test_title t) tests = Some t"
    unfolding i(2) by blast
  have "reachable (sync bd) n (msg nm ''INICIANDO TEST %s'' [AStr nm] s)"
    unfolding msg_def by (intro reachable.prints assms(3))
  from table_tests_return [OF assms(1,2) this assms(4) t(1)] t(2) show ?thesis
    by (simp add: run_test_def run_test_from_spec)
qed

section \<open>Interrupts between the rounds of the endless loop\<close>

lemma create_alarm_returns:
  assumes "board_ok bd" "reachable (sync bd) n s"
  shows "\<exists>s' m. fifo_thread_create_alarm_callback bd c s = Some (Inr (9876500, c + 1, s')) \<and> reachable (sync bd) m s'"
proof -
  define s0 where "s0 = printf ''\<newline>====================================\<newline>\<newline>INTERRUPT! Create thread %d\<newline>'' [AInt c] s"
  have "reachable (sync bd) n s0" unfolding s0_def by (rule reachable.prints [OF assms(2)])
  from create_named_step [OF assms(1) this, of 7 "''thread''" c 0 10] obtain s1 m
    where s1: "create_named bd 7 ''thread'' c 0 10 s0 = Some (Inr s1)" "reachable (sync bd) m s1" by blast
  from print_lists_step [OF s1(2)] obtain s2 where s2: "print_lists s1 = Some (Inr s2)" "reachable (sync bd) m s2" by blast
  have "fifo_thread_create_alarm_callback bd c s =
      Some (Inr (9876500, c + 1, printf ''\<newline>====================================\<newline>'' [] s2))"
    using s1(1) s2(1) unfolding s0_def by (simp add: fifo_thread_create_alarm_callback_def)
  with reachable.prints [OF s2(2)] show ?thesis by blast
qed

lemma rr_create_alarm: "rr_thread_create_alarm_callback = fifo_thread_create_alarm_callback"
  by (simp add: rr_thread_create_alarm_callback_def fifo_thread_create_alarm_callback_def fun_eq_iff)

lemma handler_returns:
  assumes "board_ok bd" "reachable (sync bd) n s"
  shows "\<exists>s' m. run_handler bd h s = Some (Inr s') \<and> reachable (sync bd) m s'"
proof (cases h)
  case Timer
  obtain a where a: "refines s a" using reachable_refines [OF assms(2)] by blast
  obtain s' where "kernel_event (sync bd) Tick s = Some (Inr s')" using event_refines [OF a, of Tick "sync bd"] by auto
  with reachable.event [OF assms(2), of Tick s'] Timer show ?thesis by auto
next
  case (Fifo_create c)
  then show ?thesis using create_alarm_returns [OF assms, of c] by auto
next
  case (Rr_create c)
  then show ?thesis using create_alarm_returns [OF assms, of c] by (auto simp: rr_create_alarm)
next
  case (Fifo_exit c)
  then show ?thesis
    using reachable_prints [OF exit_request_step [OF reachable_prints [OF assms(2)]]]
    by (auto simp: fifo_force_thread_exit_callback_def)
next
  case (Rr_exit c)
  then show ?thesis
    using reachable_prints [OF exit_request_step [OF reachable_prints [OF assms(2)]]]
    by (auto simp: rr_force_thread_exit_callback_def)
qed

lemma handlers_return:
  assumes "board_ok bd"
  shows "reachable (sync bd) n s \<Longrightarrow> \<exists>s' m. run_handlers bd hs s = Some (Inr s') \<and> reachable (sync bd) m s'"
proof (induction hs arbitrary: n s)
  case (Cons h hs)
  obtain s' m where "run_handler bd h s = Some (Inr s')" "reachable (sync bd) m s'"
    using handler_returns [OF assms Cons.prems] by blast
  with Cons.IH [OF this(2)] show ?case by auto
qed auto

lemma round_returns:
  assumes "board_ok bd" "reachable (sync bd) n s"
  shows "\<exists>s' s'' m. run_handlers bd hs s = Some (Inr s') \<and> after_interrupt (sync bd) s' = Inr s'' \<and> reachable (sync bd) m s''"
proof -
  obtain s' m where s': "run_handlers bd hs s = Some (Inr s')" "reachable (sync bd) m s'"
    using handlers_return [OF assms] by blast
  obtain a where a: "refines s' a" using reachable_refines [OF s'(2)] by blast
  obtain s'' where "kernel_event (sync bd) Loop s' = Some (Inr s'')" using event_refines [OF a, of Loop "sync bd"] by auto
  with reachable.event [OF s'(2), of Loop s''] s'(1) show ?thesis by auto
qed

lemma main_loop_forever:
  assumes "board_ok bd" "reachable (sync bd) n s"
  shows "main_loop bd i s = None"
proof (rule ccontr)
  assume "main_loop bd i s \<noteq> None"
  then obtain r where "main_loop bd i s = Some r" by blast
  then have "\<forall>n. \<not> (board_ok bd \<and> reachable (sync bd) n s)"
  proof (rule main_loop.raw_induct [rotated, where P = "\<lambda>bd i s r. \<forall>n. \<not> (board_ok bd \<and> reachable (sync bd) n s)"])
    fix f bd i s and r :: "error + unit"
    assume IH: "\<And>bd i s r. f bd i s = Some r \<Longrightarrow> \<forall>n. \<not> (board_ok bd \<and> reachable (sync bd) n s)"
      and r: "bindR (run_handlers bd (arrivals bd i) s) (\<lambda>s. bindR (Some (after_interrupt (sync bd) s)) (f bd (i + 1))) = Some r"
    show "\<forall>n. \<not> (board_ok bd \<and> reachable (sync bd) n s)"
    proof (intro allI notI)
      fix n assume ok: "board_ok bd \<and> reachable (sync bd) n s"
      then obtain s' s'' m where "run_handlers bd (arrivals bd i) s = Some (Inr s')" "after_interrupt (sync bd) s' = Inr s''"
        and m: "reachable (sync bd) m s''" using round_returns by blast
      with r have "f bd (i + 1) s'' = Some r" by simp
      from IH [OF this] ok m show False by blast
    qed
  qed
  with assms show False by blast
qed

end
