(* ===== verification/Main_Run.thy ===== *)
theory Main_Run
  imports Tests_Run
begin

text \<open>
  \<open>main\<close> from reset to its endless loop: the dialogue with the user, the start of the kernel and the
  chosen test, on a board that does what its documentation says; the numbers it reads and the names
  the tests write; a concrete board.
\<close>

section \<open>The dialogue\<close>






text \<open>Whatever is typed for the number of cycles is taken.\<close>

lemma configure_cycles_last:
  assumes "board_ok bd"
  shows "\<exists>out. configure_cycles bd 14 (w # ws) s = Some (schedule_set_quantum 1 (atoi w) (prints out s))"
  using board_okD(7) [OF assms] by (simp add: configure_cycles_def choose_cycles.simps) blast


section \<open>The start of the kernel\<close>




section \<open>main\<close>



section \<open>Numbers as strings\<close>

declare decimal.simps [simp del]

lemma digit_char: "k < 10 \<Longrightarrow> (of_char (char_of (48 + k) :: char) :: nat) = 48 + k" for k :: nat
  by (simp add: of_char_of)

lemma digit_char_int: "k < 10 \<Longrightarrow> (of_char (char_of (48 + k) :: char) :: int) = 48 + int k" for k :: nat
  using digit_char [of k] by (metis of_nat_add of_nat_numeral of_nat_of_char)

lemma decimal_digits: "\<forall>c \<in> set (decimal n). is_digit c" "decimal n \<noteq> []"
proof -
  show "\<forall>c \<in> set (decimal n). is_digit c"
  proof (induction n rule: decimal.induct)
    case (1 n)
    then show ?case by (subst decimal.simps) (auto simp: is_digit_def digit_char)
  qed
  show "decimal n \<noteq> []" by (subst decimal.simps) simp
qed

lemma digits_value_decimal: "digits_value (decimal n) = int n"
proof -
  have "fold (\<lambda>c n. 10 * n + (of_char c - 48)) (decimal n) (0 :: int) = int n"
  proof (induction n rule: decimal.induct)
    case (1 n)
    have "10 * int (n div 10) + int (n mod 10) = int n"
      by (metis mult_div_mod_eq of_nat_add of_nat_mult of_nat_numeral)
    with 1 show ?case by (subst decimal.simps) (simp add: digit_char_int)
  qed
  moreover have "takeWhile is_digit (decimal n) = decimal n" using decimal_digits(1) by simp
  ultimately show ?thesis unfolding digits_value_def by (simp only:)
qed

text \<open>A decimal starts with a digit, so \<open>atoi\<close> sees no sign.\<close>

lemma atoi_decimal: "atoi (decimal n) = of_nat n"
proof -
  obtain c cs where c: "decimal n = c # cs" "is_digit c" using decimal_digits [of n] by (cases "decimal n") auto
  then have "c \<noteq> CHR ''-''" "c \<noteq> CHR ''+''" by (auto simp: is_digit_def)
  then have "atoi (c # cs) = word_of_int (digits_value (c # cs))" by (simp add: atoi_def)
  with c(1) digits_value_decimal [of n] show ?thesis by simp
qed

section \<open>A board\<close>

text \<open>A heap of twelve blocks, two timer interrupts in each sleep, and an interrupt before each round of the loop.\<close>

definition heap_blocks :: "tptr list" where
  "heap_blocks = map (\<lambda>i. 0x20002000 + 0x100 * of_nat i) [0..<12]"

definition pico :: board where
  "pico = \<lparr>sync = pico_sync, stdio_init_all = (\<lambda>s. s), gpio_init = (\<lambda>_ s. s), gpio_set_dir = (\<lambda>_ _ s. s), gpio_put = (\<lambda>_ _ s. s),
     sleep_ms = (\<lambda>_. run_events (kernel_event pico_sync) [Tick, Tick]), add_alarm_in_ms = (\<lambda>_ s. s),
     add_repeating_timer_ms = (\<lambda>_ s. s),
     calloc = (\<lambda>s. case find (\<lambda>a. threads s a = None) heap_blocks of Some a \<Rightarrow> a | None \<Rightarrow> 0),
     rand = of_nat, past_end = (\<lambda>_ s. s), arrivals = (\<lambda>_. [Timer])\<rparr>"

lemma pico_ok: "board_ok pico"
proof -
  have "calloc pico s = 0 \<or> threads s (calloc pico s) = None" for s
    by (auto simp: pico_def find_Some_iff split: option.splits)
  moreover have "\<exists>k. sleep_ms pico ms s = run_events (kernel_event (sync pico)) (replicate k Tick) s" for ms s
    by (intro exI [of _ 2]) (simp add: pico_def numeral_2_eq_2)
  ultimately show ?thesis unfolding board_ok_def by (simp add: pico_def)
qed



section \<open>Properties\<close>





text \<open>The number of cycles for round robin is not checked: a number that is not positive is taken at the first
  try, and the scheduling mode and the quantum stay what they were.\<close>

theorem cycles_unchecked:
  assumes "board_ok bd" "sint (atoi w) \<le> 0"
  shows "\<exists>s'. configure_cycles bd 14 (w # ws) s = Some s' \<and>
    round_robin_mode s' = round_robin_mode s \<and> round_robin_ticks s' = round_robin_ticks s"
  using configure_cycles_last [OF assms(1), of w ws s] assms(2) by (auto simp: schedule_set_quantum_def prints_def)

theorem cycles_unchecked_witness:
  "\<exists>s'. configure_cycles pico 14 [''-3''] reset = Some s' \<and>
    round_robin_mode s' = round_robin_mode reset \<and> round_robin_ticks s' = round_robin_ticks reset"
  by (rule cycles_unchecked [OF pico_ok]) (simp add: atoi_def digits_value_def is_digit_def)

text \<open>Reading back what \<open>printf\<close> writes: \<open>atoi\<close> of the decimal representation of a C \<open>int\<close> is that \<open>int\<close>, so the
  number the menu prints beside a test is the number that selects it.\<close>

theorem atoi_show_int: "atoi (show_int i) = i"
proof (cases "sint i < 0")
  case True
  then have "int (nat (- sint i)) = - sint i" by simp
  with True show ?thesis by (simp add: show_int_def atoi_def digits_value_decimal)
next
  case False
  then show ?thesis by (simp add: show_int_def atoi_decimal)
qed

text \<open>The names of the tests' threads do not fit: for a one-digit number the eight bytes of \<open>"thread%d"\<close> go into the
  array of seven, and the terminating zero lands behind its end.\<close>

theorem thread_name_overflows:
  assumes "0 \<le> sint i" "sint i \<le> 9"
  shows "create_named bd 7 ''thread'' i func duration s =
    Some (bindE (thread_create (sync bd) (calloc bd (past_end bd [CHR 0x00] s)) (CharBuf (''thread'' @ show_int i)) func 0 duration
      (past_end bd [CHR 0x00] s)) (\<lambda>(_, s). Inr s))"
  using assms by (simp add: create_named_def store_string_def show_int_def decimal.simps Let_def)

theorem thread_name_overflows_witness:
  "create_named pico 7 ''thread'' 4 0 10 reset =
    Some (bindE (thread_create pico_sync (calloc pico (past_end pico [CHR 0x00] reset)) (CharBuf ''thread4'') 0 0 10
      (past_end pico [CHR 0x00] reset)) (\<lambda>(_, s). Inr s))"
proof -
  have "sync pico = pico_sync" by (simp add: pico_def)
  moreover have "show_int 4 = ''4''" by code_simp
  ultimately show ?thesis using thread_name_overflows [of 4 pico 0 10 reset] by simp
qed

text \<open>The durations of the random tests are between 5 and 29 ticks, for a \<open>rand\<close> that is not negative.\<close>

theorem random_duration_range:
  assumes "0 \<le> sint r"
  shows "5 \<le> sint (random_duration r) \<and> sint (random_duration r) \<le> 29"
proof -
  have "0 \<le> sint r smod 25" "sint r smod 25 < 25" using smod_int_compares(1,2) [OF assms, of 25] by auto
  then show ?thesis
    unfolding random_duration_def sint_sbintrunc' by (simp add: signed_take_bit_int_eq_self)
qed

theorem random_duration_range_witness:
  "5 \<le> sint (random_duration 1804289383) \<and> sint (random_duration 1804289383) \<le> 29"
  by (rule random_duration_range) simp

end
