(* ===== verification/Sched_Aside.thy ===== *)
theory Sched_Aside
  imports Main_Loop
begin

text \<open>
  A timer interrupt does not look at a thread that neither runs nor sleeps: whatever the fields of such a thread
  hold, as while it is created or after it has died, the interrupt does the same and leaves them alone.
\<close>

definition with_thread :: "tptr \<Rightarrow> thread \<Rightarrow> kernel \<Rightarrow> kernel" where
  "with_thread p th s = s\<lparr>threads := (threads s)(p \<mapsto> th)\<rparr>"

lemma with_thread_simps [simp]:
  "links (with_thread p th s) = links s" "thread_running_var (with_thread p th s) = thread_running_var s"
  "idle_thread (with_thread p th s) = idle_thread s" "irq (with_thread p th s) = irq s" "ticks (with_thread p th s) = ticks s"
  "thread_ticks (with_thread p th s) = thread_ticks s" "initial_thread (with_thread p th s) = initial_thread s"
  "round_robin_mode (with_thread p th s) = round_robin_mode s" "round_robin_ticks (with_thread p th s) = round_robin_ticks s"
  "thread_exit_on_return (with_thread p th s) = thread_exit_on_return s"
  "threads (with_thread p th s) = (threads s)(p \<mapsto> th)" "with_thread p th (with_thread p th' s) = with_thread p th s"
  "printf f xs (with_thread p th s) = with_thread p th (printf f xs s)"
  by (simp_all add: with_thread_def printf_def)

lemma with_thread_same: "threads s p = Some th \<Longrightarrow> with_thread p th s = s"
  by (simp add: with_thread_def fun_upd_idem)

lemma with_thread_upd: "t \<noteq> p \<Longrightarrow> (with_thread p th s)\<lparr>threads := (threads (with_thread p th s))(t \<mapsto> x)\<rparr> =
    with_thread p th (s\<lparr>threads := (threads s)(t \<mapsto> x)\<rparr>)"
  by (simp add: with_thread_def fun_upd_twist)

lemma load_thread_aside: "t \<noteq> p \<Longrightarrow> load_thread t (with_thread p th s) = load_thread t s"
  by (simp add: load_thread_def)

lemma update_thread_aside: "t \<noteq> p \<Longrightarrow> update_thread t f (with_thread p th s) = map_sum id (with_thread p th) (update_thread t f s)"
  by (cases "threads s t"; cases "t = 0") (simp_all add: update_thread_def load_thread_def with_thread_upd [simplified])

lemma is_thread_aside: "t \<noteq> p \<Longrightarrow> is_thread t (with_thread p th s) = is_thread t s"
  by (simp add: is_thread_def load_thread_aside)

lemma on_links_aside: "on_links f (with_thread p th s) = map_sum id (with_thread p th) (on_links f s)"
  by (cases "f (links s)") (simp_all add: on_links_def with_thread_def)

lemma bindE_aside:
  assumes "\<And>s. g (w s) = map_sum id w (g s)"
  shows "bindE (map_sum id w r) g = map_sum id w (bindE r g)"
  using assms by (cases r) simp_all

lemma thread_unblock_aside:
  assumes "t \<noteq> p"
  shows "thread_unblock t (with_thread p th s) = map_sum id (with_thread p th) (thread_unblock t s)"
  using assms
  by (simp add: thread_unblock_def is_thread_aside load_thread_aside on_links_aside update_thread_aside bindE_aside)
    (auto simp: bindE_def split: sum.splits)

section \<open>The loop over the sleeping threads\<close>

lemma thread_unblock_links:
  assumes "thread_unblock t s = Inr s'" "is_list (links s) (hdr Ready_list) (map Elem rs)"
    "is_list (links s) (hdr Lista_espera) (map Elem ws)" "t \<notin> set rs" "t \<notin> set ws" "set rs \<inter> set ws = {}" "Elem t \<in> dom (links s)"
  shows "is_list (links s') (hdr Ready_list) (map Elem (rs @ [t]))" "is_list (links s') (hdr Lista_espera) (map Elem ws)"
proof -
  obtain c where c: "links s (Elem t) = Some c" using assms(7) by blast
  obtain h where h: "list_push_back ready_list (Some (Elem t)) (links s) = Inr h"
    "is_list h (hdr Ready_list) (map Elem rs @ [Elem t])"
    "only_changes (links s) h (insert (Elem t) (nodes (hdr Ready_list) (map Elem rs)))"
    by (rule list_push_back_spec [OF assms(2) _ c]) (use assms(4) in auto)
  have "links s' = h"
    using assms(1) h(1) by (auto simp: thread_unblock_def on_links_def update_thread_def elim!: bindE_eq_InrE)
  moreover have "is_list h (hdr Lista_espera) (map Elem ws)"
    by (rule is_list_other [OF assms(3) h(3)]) (use assms(5,6) in auto)
  ultimately show "is_list (links s') (hdr Ready_list) (map Elem (rs @ [t]))" "is_list (links s') (hdr Lista_espera) (map Elem ws)"
    using h(2) by simp_all
qed

abbreviation aside :: "tptr \<Rightarrow> thread \<Rightarrow> (error + kernel) option \<Rightarrow> (error + kernel) option" where
  "aside p th \<equiv> map_option (map_sum id (with_thread p th))"

lemma bindR_aside:
  assumes "\<And>s. m = Some (Inr s) \<Longrightarrow> g (with_thread p th s) = aside p th (g s)"
  shows "bindR (aside p th m) g = aside p th (bindR m g)"
  using assms by (cases m) (auto simp: bindR_def split: sum.splits)

text \<open>The iteration of the loop that wakes the thread \<open>t\<close>: \<open>s1\<close> is the state before \<open>thread_unblock\<close>.\<close>

lemma remover_wakes:
  assumes r: "is_list (links s) (hdr Ready_list) (map Elem rs)"
    and w: "is_list (links s) (hdr Lista_espera) (map Elem (us @ t # vs))" and d: "set rs \<inter> set (us @ t # vs) = {}"
    and th: "threads s t = Some th" "t \<noteq> 0" "sleep_time th \<le> int_to_u64 n"
  obtains s1 where
    "remover_loop n (Some (Elem t)) s =
       bindR (Some (thread_unblock t s1)) (remover_loop n (Some (hd (map Elem vs @ [Tail Lista_espera]))))"
    "\<And>p x. p \<noteq> t \<Longrightarrow> remover_loop n (Some (Elem t)) (with_thread p x s) =
       bindR (Some (thread_unblock t (with_thread p x s1))) (remover_loop n (Some (hd (map Elem vs @ [Tail Lista_espera]))))"
    "\<And>s2. thread_unblock t s1 = Inr s2 \<Longrightarrow> is_list (links s2) (hdr Ready_list) (map Elem (rs @ [t])) \<and>
       is_list (links s2) (hdr Lista_espera) (map Elem (us @ vs)) \<and> set (rs @ [t]) \<inter> set (us @ vs) = {}"
proof -
  note unf = remover_loop.simps [of n "Some (Elem t)"]
  let ?next = "Some (hd (map Elem vs @ [Tail Lista_espera]))"
  have L: "is_list (links s) (hdr Lista_espera) (map Elem us @ Elem t # map Elem vs)" using w by simp
  obtain h where h: "list_remove (Some (Elem t)) (links s) = Inr (?next, h)"
    "is_list h (hdr Lista_espera) (map Elem us @ map Elem vs)"
    "only_changes (links s) h (nodes (hdr Lista_espera) (map Elem us @ map Elem vs))"
    using list_remove_spec [OF L] by (metis hdr_simps(2))
  have t: "t \<notin> set rs" "t \<notin> set (us @ vs)" "set rs \<inter> set (us @ vs) = {}"
    using d is_listD(2) [OF L] by auto
  have "is_list h (hdr Ready_list) (map Elem rs)"
    by (rule is_list_other [OF r h(3)]) (use t in auto)
  moreover have "Elem t \<in> dom h" using only_changes_dom [OF h(3)] is_list_mapped [OF L, of "Elem t"] by auto
  moreover define s1 where "s1 = (printf ''--Wake Up! Thread %s\<newline>'' [AStr (name th)] s)\<lparr>links := h\<rparr>"
  ultimately have "thread_unblock t s1 = Inr s2 \<Longrightarrow> is_list (links s2) (hdr Ready_list) (map Elem (rs @ [t])) \<and>
       is_list (links s2) (hdr Lista_espera) (map Elem (us @ vs)) \<and> set (rs @ [t]) \<inter> set (us @ vs) = {}" for s2
    using thread_unblock_links [of t s1 s2 rs "us @ vs"] h(2) t by auto
  moreover have "(with_thread p x (printf f xs s))\<lparr>links := h\<rparr> = with_thread p x ((printf f xs s)\<lparr>links := h\<rparr>)" for p x f xs
    by (simp add: with_thread_def)
  ultimately show thesis using that th h(1) by (simp add: unf s1_def load_thread_aside)
qed

text \<open>On well-formed lists the loop ends, and does the same whatever a thread outside of the list holds.\<close>

lemma remover_loop_walk:
  assumes "is_list (links s) (hdr Ready_list) (map Elem rs)" "is_list (links s) (hdr Lista_espera) (map Elem (us @ vs))"
    and "set rs \<inter> set (us @ vs) = {}"
  defines "it \<equiv> Some (hd (map Elem vs @ [Tail Lista_espera]))"
  shows "(\<exists>r. remover_loop n it s = Some r) \<and>
    (\<forall>p th. p \<notin> set vs \<longrightarrow> remover_loop n it (with_thread p th s) = aside p th (remover_loop n it s))"
  using assms(1-3) unfolding assms(4)
proof (induction vs arbitrary: s rs us)
  case Nil
  show ?case by (simp add: remover_loop.simps [of n "Some (Tail Lista_espera)"])
next
  case (Cons t vs)
  let ?next = "Some (hd (map Elem vs @ [Tail Lista_espera]))"
  note unf = remover_loop.simps [of n "Some (Elem t)"]
  have L: "is_list (links s) (hdr Lista_espera) (map Elem us @ Elem t # map Elem vs)" using Cons.prems(2) by simp
  consider (stray) "t = 0 \<or> threads s t = None"
    | (sleeps) th where "threads s t = Some th" "t \<noteq> 0" "\<not> sleep_time th \<le> int_to_u64 n"
    | (wakes) th where "threads s t = Some th" "t \<noteq> 0" "sleep_time th \<le> int_to_u64 n" by auto
  then show ?case
  proof cases
    case stray
    then show ?thesis by (auto simp: unf load_thread_def)
  next
    case sleeps
    have "list_next (Some (Elem t)) (links s) = Inr ?next" using list_next_spec [OF L] by simp
    then have "remover_loop n (Some (Elem t)) s = remover_loop n ?next s"
      "p \<noteq> t \<Longrightarrow> remover_loop n (Some (Elem t)) (with_thread p x s) = remover_loop n ?next (with_thread p x s)" for p x
      using sleeps by (simp_all add: unf load_thread_aside)
    with Cons.IH [of s rs "us @ [t]"] Cons.prems show ?thesis by auto
  next
    case wakes
    obtain s1 where step: "remover_loop n (Some (Elem t)) s = bindR (Some (thread_unblock t s1)) (remover_loop n ?next)"
      "\<And>p x. p \<noteq> t \<Longrightarrow> remover_loop n (Some (Elem t)) (with_thread p x s) =
         bindR (Some (thread_unblock t (with_thread p x s1))) (remover_loop n ?next)"
      and lists: "\<And>s2. thread_unblock t s1 = Inr s2 \<Longrightarrow> is_list (links s2) (hdr Ready_list) (map Elem (rs @ [t])) \<and>
         is_list (links s2) (hdr Lista_espera) (map Elem (us @ vs)) \<and> set (rs @ [t]) \<inter> set (us @ vs) = {}"
      using remover_wakes [OF Cons.prems wakes] by metis
    have IH: "(\<exists>r. remover_loop n ?next s2 = Some r) \<and>
        (\<forall>p th. p \<notin> set vs \<longrightarrow> remover_loop n ?next (with_thread p th s2) = aside p th (remover_loop n ?next s2))"
      if "thread_unblock t s1 = Inr s2" for s2
      by (rule Cons.IH [of s2 "rs @ [t]" us]) (use lists [OF that] in auto)
    have "bindR (aside p x (Some (thread_unblock t s1))) (remover_loop n ?next) =
        aside p x (bindR (Some (thread_unblock t s1)) (remover_loop n ?next))" if "p \<notin> set vs" for p x
      by (rule bindR_aside) (use IH that in blast)
    then have "remover_loop n (Some (Elem t)) (with_thread p x s) = aside p x (remover_loop n (Some (Elem t)) s)"
      if "p \<noteq> t" "p \<notin> set vs" for p x
      using that step thread_unblock_aside [of t p x s1] by simp
    moreover have "\<exists>r. remover_loop n (Some (Elem t)) s = Some r"
      unfolding step(1) by (rule bindR_ends) (use IH in auto)
    ultimately show ?thesis by (simp add: id_def)
  qed
qed

section \<open>The interrupt\<close>

lemma thread_current_aside: "p \<noteq> thread_running_var s \<Longrightarrow> thread_current (with_thread p th s) = thread_current s"
  by (simp add: thread_current_def running_thread_def is_thread_aside load_thread_aside)

lemma thread_tick_aside:
  assumes "p \<noteq> thread_running_var s"
  shows "thread_tick (with_thread p th s) = map_sum id (with_thread p th) (thread_tick s)"
proof (cases "thread_current s")
  case (Inr t)
  then have t: "t \<noteq> p" using assms by (auto simp: thread_current_def running_thread_def Let_def elim!: bindE_eq_InrE)
  have w: "(with_thread p th s)\<lparr>idle_ticks := i\<rparr> = with_thread p th (s\<lparr>idle_ticks := i\<rparr>)"
    "(with_thread p th s)\<lparr>kernel_ticks := k\<rparr> = with_thread p th (s\<lparr>kernel_ticks := k\<rparr>)"
    "(with_thread p th s)\<lparr>thread_ticks := j\<rparr> = with_thread p th (s\<lparr>thread_ticks := j\<rparr>)" for i j k s
    by (simp_all add: with_thread_def)
  have "idle_ticks (with_thread p th s) = idle_ticks s" "kernel_ticks (with_thread p th s) = kernel_ticks s"
    by (simp_all add: with_thread_def)
  with Inr t assms show ?thesis
    by (simp add: thread_tick_def thread_current_aside w update_thread_aside)
qed (simp add: thread_tick_def thread_current_aside assms)

lemma thread_tick_frame: "thread_tick s = Inr s' \<Longrightarrow> links s' = links s \<and> thread_running_var s' = thread_running_var s"
  by (auto simp: thread_tick_def update_thread_def elim!: bindE_eq_InrE split: if_splits)

lemma timer_interrupt_aside:
  assumes "is_list (links s) (hdr Ready_list) (map Elem rs)" "is_list (links s) (hdr Lista_espera) (map Elem ws)"
    and "set rs \<inter> set ws = {}" "p \<noteq> thread_running_var s" "p \<notin> set ws"
  shows "timer_interrupt (with_thread p th s) =
    map_option (map_sum id (\<lambda>(b, s). (b, with_thread p th s))) (timer_interrupt s)"
proof -
  have w: "(with_thread p th s)\<lparr>ticks := i\<rparr> = with_thread p th (s\<lparr>ticks := i\<rparr>)" for i by (simp add: with_thread_def)
  show ?thesis
  proof (cases "thread_tick (s\<lparr>ticks := ticks s + 1\<rparr>)")
    case (Inl e)
    then show ?thesis using thread_tick_aside [of p "s\<lparr>ticks := ticks s + 1\<rparr>" th] assms(4) by (simp add: timer_interrupt_def w)
  next
    case (Inr s1)
    have s1: "links s1 = links s" "thread_running_var s1 = thread_running_var s" using thread_tick_frame [OF Inr] by simp_all
    have tick: "thread_tick (with_thread p th (s\<lparr>ticks := ticks s + 1\<rparr>)) = Inr (with_thread p th s1)"
      using thread_tick_aside [of p "s\<lparr>ticks := ticks s + 1\<rparr>" th] assms(4) Inr by simp
    have cur: "thread_current (with_thread p th s1) = thread_current s1" using s1 assms(4) by (simp add: thread_current_aside)
    show ?thesis
    proof (cases "bindE (thread_current s1) (\<lambda>t. load_thread t s1)")
      case Inl': (Inl e)
      have "load_thread t (with_thread p th s1) = load_thread t s1" if "thread_current s1 = Inr t" for t
        using that assms(4) s1(2) by (auto simp: thread_current_def running_thread_def Let_def load_thread_aside elim!: bindE_eq_InrE)
      with Inr Inl' tick cur show ?thesis by (cases "thread_current s1") (simp_all add: timer_interrupt_def w)
    next
      case Inr': (Inr x)
      then obtain t where t: "thread_current s1 = Inr t" "load_thread t s1 = Inr x" by (auto elim: bindE_eq_InrE)
      have "load_thread t (with_thread p th s1) = Inr x"
        using t assms(4) s1(2) by (auto simp: thread_current_def running_thread_def Let_def load_thread_aside elim!: bindE_eq_InrE)
      define s2 where "s2 = printf (''Se est'' @ [CHR 0xC3, CHR 0xA1] @ '' ejecutando thread %s, ticks %d\<newline>'')
                         [AStr (name x), AInt (ticks s1)] s1"
      have "list_begin lista_espera (links s2) = Inr (Some (hd (map Elem ws @ [Tail Lista_espera])))"
        using list_begin_spec [OF assms(2)] s1(1) by (simp add: s2_def)
      then have rem: "remover_thread_durmiente n (with_thread p th s2) = aside p th (remover_thread_durmiente n s2)" for n
        using remover_loop_walk [of s2 rs "[]" ws n] assms s1(1) by (simp add: remover_thread_durmiente_def s2_def)
      have "timer_interrupt s = bindR (remover_thread_durmiente (ticks s1) s2) (\<lambda>s. Some (Inr (True, s)))"
        using Inr t by (simp add: timer_interrupt_def s2_def)
      moreover have "timer_interrupt (with_thread p th s) =
          bindR (remover_thread_durmiente (ticks s1) (with_thread p th s2)) (\<lambda>s. Some (Inr (True, s)))"
        using tick cur t \<open>load_thread t (with_thread p th s1) = Inr x\<close> by (simp add: timer_interrupt_def w s2_def)
      ultimately show ?thesis
        unfolding rem by (cases "remover_thread_durmiente (ticks s1) s2") (auto simp: bindR_def split: sum.splits)
    qed
  qed
qed

text \<open>In terms of the simulation: a thread \<open>p\<close> whose record is not as the scheduler wants it.\<close>

definition ticking_aside :: "tptr \<Rightarrow> kernel \<Rightarrow> sched \<Rightarrow> tptr set \<Rightarrow> bool" where
  "ticking_aside p s a D \<longleftrightarrow> threads s p \<noteq> None \<and> (\<exists>th. ticking (with_thread p th s) a D) \<and>
     p \<noteq> a_cur a \<and> p \<notin> set (a_sleeping a) \<and> a_cur a \<notin> set (a_sleeping a)"

lemma ticking_aside_timer:
  assumes "ticking_aside p s a D"
  obtains s' where "timer_interrupt s = Some (Inr (True, s'))" "ticking_aside p s' (a_timer a) D"
    "threads s' p = threads s p" "irq s' = irq s" "next_tid s' = next_tid s"
proof -
  obtain th q where th: "ticking (with_thread p th s) a D" "threads s p = Some q" using assms by (auto simp: ticking_aside_def)
  have p: "p \<noteq> a_cur a" "p \<notin> set (a_sleeping a)" "a_cur a \<notin> set (a_sleeping a)" using assms by (simp_all add: ticking_aside_def)
  define u where "u = with_thread p th s"
  have s: "s = with_thread p q u" using th(2) by (simp add: u_def with_thread_same)
  obtain u' where u': "timer_interrupt u = Some (Inr (True, u'))" "ticking u' (a_timer a) D" "irq u' = irq u"
    "next_tid u' = next_tid u"
    using timer_interrupt_sim [OF th(1) p(3)] by (auto simp: u_def same_ids_def)
  have S: "sim u a D" using th(1) by (simp add: ticking_def u_def)
  note L = lists_okD [OF simD(1) [OF S]]
  have "timer_interrupt s = Some (Inr (True, with_thread p q u'))"
    unfolding s using timer_interrupt_aside [OF L(1,2), of p q] L(9) p simD(2) [OF S] u'(1) by simp
  moreover have "ticking_aside p (with_thread p q u') (a_timer a) D"
  proof -
    have "p \<in> D" using lists_okD(4) [OF simD(1) [OF S]] by (auto simp: u_def)
    then obtain x where "threads u' p = Some x" using sim_thread [of u' "a_timer a" D p] u'(2) by (metis ticking_def)
    then have "ticking (with_thread p x (with_thread p q u')) (a_timer a) D" using u'(2) by (simp add: with_thread_same)
    then show ?thesis using p unfolding ticking_aside_def by (auto simp: a_timer_ready)
  qed
  ultimately show thesis using that th(2) u'(3,4) by (simp add: u_def with_thread_def)
qed

end
