(* ===== verification/Thread_Types.thy ===== *)
theory Thread_Types
  imports Scenario Sched_Aside
begin

text \<open>
  The fields of the thread structures in every reachable state, and that the loops of the timer interrupt end
  on all well-formed lists, whatever the threads on them hold.
\<close>

section \<open>The fields of a thread\<close>

text \<open>
  The name fits its array with its terminator, the canary is intact, the saved stack pointer is that of a fresh
  stack or of one with the first frame, and the fields that only priority scheduling would use are zero.
\<close>

definition thread_typed :: "tptr \<Rightarrow> thread \<Rightarrow> bool" where
  "thread_typed t th \<longleftrightarrow> t \<noteq> 0 \<and> length (name th) \<le> 15 \<and> magic th = THREAD_MAGIC \<and>
     stack th \<in> {t + PGSIZE, t + PGSIZE - sizeof_kernel_thread_frame} \<and> priority th = 0 \<and> true_priority th = 0"

text \<open>The fields that no operation changes.\<close>

definition fixed_fields :: "tptr \<Rightarrow> thread \<Rightarrow> bool" where
  "fixed_fields t th \<longleftrightarrow> length (name th) \<le> 15 \<and>
     stack th \<in> {t + PGSIZE, t + PGSIZE - sizeof_kernel_thread_frame} \<and> priority th = 0 \<and> true_priority th = 0"

definition all_fixed :: "kernel \<Rightarrow> bool" where
  "all_fixed s \<longleftrightarrow> (\<forall>t th. threads s t = Some th \<longrightarrow> fixed_fields t th)"

lemma fixed_initial: "fixed_fields t (initial_record t nm)" "fixed_fields t ((initial_record t nm)\<lparr>status := st, tid := i\<rparr>)"
  "fixed_fields t (created_record t nm i d)"
  by (simp_all add: fixed_fields_def created_record_def initial_record_def zero_thread_def strlcpy_def)

lemma all_fixed_same: "all_fixed s \<Longrightarrow> same_ids s s' \<Longrightarrow> all_fixed s'"
  unfolding all_fixed_def same_ids_def fixed_fields_def by metis

lemma event_fixed:
  assumes a: "refines s a" "admissible e a" and run: "kernel_event sd e s = Some (Inr s')" and fx: "all_fixed s"
  shows "all_fixed s'"
proof (cases e rule: creates_cases)
  case (new t nm f ax d)
  have "all_fixed (s\<lparr>next_tid := next_tid s + 1, threads := (threads s)(t \<mapsto> created_record t nm (next_tid s) d)\<rparr>)"
    using fx fixed_initial(3) by (simp add: all_fixed_def)
  then show ?thesis
    by (rule all_fixed_same [OF _ create_event(1) [OF a(1) _ new(2)]]) (use run a(2) new in auto)
next
  case old
  have "same_ids s s'"
    using timer_interrupt_refines [OF a(1)] run event_frame [OF a run _ old]
    by (cases "e = Tick") (auto simp: frame_same_ids)
  with fx show ?thesis by (rule all_fixed_same)
qed

lemma boot_fixed:
  assumes "booting s0" "t \<noteq> 0" "t \<noteq> running_thread_init s0"
    and "thread_init s0 = Inr s1" "thread_start sd t f s1 = Inr s"
  shows "all_fixed s"
proof -
  define m where "m = running_thread_init s0"
  obtain s0' s' where s': "thread_init s0 = Inr s0'" "thread_start sd t f s0' = Inr s'" "refines s' (a_boot m t s0)"
    "threads s' m = Some ((initial_record m (StrLit ''main''))\<lparr>status := THREAD_RUNNING, tid := 1\<rparr>)"
    "threads s' t = Some (created_record t (StrLit ''idle'') 2 999)"
    unfolding m_def by (rule boot_refines [OF assms(1-3)])
  have "dom (threads s') = {m, t}"
    using simD(1) [OF refinesD(1) [OF s'(3)]] by (simp add: lists_ok_def a_boot_def)
  then have "threads s' u = Some th \<Longrightarrow> u = m \<or> u = t" for u th by blast
  with s'(4,5) fixed_initial have "all_fixed s'" unfolding all_fixed_def by (metis option.inject)
  with s'(1,2) assms(4,5) show ?thesis by simp
qed

lemma reachable_fixed:
  assumes "reachable sd n s"
  shows "all_fixed s"
  using assms
proof induction
  case (start s0 t s1 f s)
  then show ?case by (blast intro: boot_fixed)
next
  case (event n s e s')
  then obtain a where a: "refines s a" using reachable_refines by blast
  show ?case by (rule event_fixed [OF a]) (use event admissible_iff [OF a] in auto)
next
  case (prints n s fmt args)
  then show ?case by (simp add: all_fixed_def)
qed

text \<open>C18: In every state the kernel can reach each thread structure is well-formed: a non-null address, a name that
  fits the sixteen bytes of its array, the canary, a saved stack pointer of its own page and zero priorities.\<close>

theorem threads_typed:
  assumes "reachable sd n s" "threads s t = Some th"
  shows "thread_typed t th"
proof -
  obtain a where a: "refines s a" using reachable_refines [OF assms(1)] by blast
  have "t \<in> set (a_all a)" using simD(1) [OF refinesD(1) [OF a]] assms(2) by (auto simp: lists_ok_def)
  then obtain th' where "threads s t = Some th'" "t \<noteq> 0" "magic th' = THREAD_MAGIC" by (rule sim_thread [OF refinesD(1) [OF a]])
  with reachable_fixed [OF assms(1)] assms(2) show ?thesis
    by (simp add: all_fixed_def fixed_fields_def thread_typed_def)
qed

theorem threads_typed_witness:
  "\<exists>s th. reachable pico_sync 5 s \<and> threads s 0x20003000 = Some th \<and> thread_typed 0x20003000 th"
proof -
  obtain s where s: "reachable pico_sync 5 s" "refines s rr_sched" using rr_scenario by blast
  obtain th where "threads s (a_cur rr_sched) = Some th" by (rule refines_cur [OF s(2)])
  then have "threads s 0x20003000 = Some th" by (simp add: rr_sched_def)
  with threads_typed [OF s(1)] s(1) show ?thesis by blast
qed

section \<open>The timer interrupt ends\<close>

lemma remover_ends:
  assumes "is_list (links s) (hdr Ready_list) (map Elem rs)" "is_list (links s) (hdr Lista_espera) (map Elem ws)"
    and "set rs \<inter> set ws = {}"
  shows "\<exists>r. remover_thread_durmiente n s = Some r"
  using remover_loop_walk [of s rs "[]" ws n] assms list_begin_spec [OF assms(2)]
  by (simp add: remover_thread_durmiente_def)

text \<open>C19: The timer interrupt ends whatever the threads hold: if \<open>ready_list\<close> and \<open>lista_espera\<close> are well-formed lists
  without a common thread, the handler returns or stops at an assertion or a fault, even when the list it walks
  over is changed by every thread it wakes and the records of the threads are missing, freed or inconsistent.\<close>

theorem timer_interrupt_terminates:
  assumes "is_list (links s) (hdr Ready_list) (map Elem rs)" "is_list (links s) (hdr Lista_espera) (map Elem ws)"
    and "set rs \<inter> set ws = {}"
  shows "\<exists>r. timer_interrupt s = Some r"
proof -
  have rem: "\<exists>r. remover_thread_durmiente n (printf f args s1) = Some r" if "links s1 = links s" for n f args s1
    using remover_ends [of "printf f args s1" rs ws n] assms that by simp
  have "\<exists>r. remover_thread_durmiente (ticks s2) s2 = Some r"
    if "Some (thread_tick (s\<lparr>ticks := ticks s + 1\<rparr>)) = Some (Inr s1)" "Some (Inr (printf f args s1)) = Some (Inr s2)" for f args s1 s2
    using rem [of s1] thread_tick_frame [of "s\<lparr>ticks := ticks s + 1\<rparr>" s1] that by auto
  then show ?thesis
    unfolding timer_interrupt_def by (intro bindR_ends) (blast | simp)+
qed

definition stray_sleeper :: kernel where
  "stray_sleeper = reset\<lparr>links := static_links(
     Head Ready_list \<mapsto> \<lparr>prev = None, next = Some (Tail Ready_list)\<rparr>, Tail Ready_list \<mapsto> \<lparr>prev = Some (Head Ready_list), next = None\<rparr>,
     Head Lista_espera \<mapsto> \<lparr>prev = None, next = Some (Elem 8)\<rparr>, Elem 8 \<mapsto> \<lparr>prev = Some (Head Lista_espera), next = Some (Tail Lista_espera)\<rparr>,
     Tail Lista_espera \<mapsto> \<lparr>prev = Some (Elem 8), next = None\<rparr>)\<rparr>"

theorem timer_interrupt_terminates_witness: "\<exists>r. timer_interrupt stray_sleeper = Some r"
  by (rule timer_interrupt_terminates [of _ "[]" "[8]"])
    (simp_all add: is_list_def stray_sleeper_def hdr_def nxt_def prv_def)

end
