(* ===== verification/Preempt.thy ===== *)
theory Preempt
  imports Kernel_Run
begin

text \<open>
  Timer interrupts in the middle of an operation.

  The operations of thread.c and main.c that the main program performs with interrupts enabled are
  written here as programs of atomic statements, with the local variables of the functions beside the
  state of the kernel.  Run without interrupts a program is the function of \<open>Thread\<close> or \<open>Main_Loop\<close> it
  stands for; \<open>interleaved\<close> is what it may do when timer interrupts arrive before any of its statements
  at which the interrupt mask of the processor allows them.  A call into list.c, of \<open>next_thread_to_run\<close> or of the
  C library is one statement.
\<close>

section \<open>Programs\<close>

record locals =
  l_cur :: tptr         \<comment> \<open>\<open>cur\<close> of \<open>thread_yield\<close>, \<open>schedule\<close> and \<open>thread_schedule_tail\<close>, \<open>thread_actual\<close> of \<open>insertar_en_lista_espera\<close>\<close>
  l_next :: tptr        \<comment> \<open>\<open>next\<close> of \<open>schedule\<close>\<close>
  l_prev :: tptr        \<comment> \<open>\<open>prev\<close> of \<open>schedule\<close>\<close>
  l_tid :: s32          \<comment> \<open>\<open>tid\<close> of \<open>thread_create\<close>\<close>
  l_kf :: u32           \<comment> \<open>\<open>kf\<close> of \<open>thread_create\<close>\<close>
  l_old_level :: u32    \<comment> \<open>\<open>old_level\<close> of \<open>thread_yield\<close> and \<open>thread_block\<close>\<close>

definition no_locals :: locals where
  "no_locals = \<lparr>l_cur = 0, l_next = 0, l_prev = 0, l_tid = 0, l_kf = 0, l_old_level = 0\<rparr>"

type_synonym outcome = "error + (locals \<times> kernel)"

text \<open>\<open>Call c\<close> runs the body \<open>c\<close> of a function with local variables of its own.\<close>

datatype com =
    Do "locals \<Rightarrow> kernel \<Rightarrow> outcome"
  | Seq com com
  | Cond "locals \<Rightarrow> kernel \<Rightarrow> error + bool" com com
  | Call com

primrec exec :: "com \<Rightarrow> locals \<Rightarrow> kernel \<Rightarrow> outcome" where
  "exec (Do f) l s = f l s"
| "exec (Seq c d) l s = bindE (exec c l s) (\<lambda>(l, s). exec d l s)"
| "exec (Cond b c d) l s = bindE (b l s) (\<lambda>v. if v then exec c l s else exec d l s)"
| "exec (Call c) l s = bindE (exec c no_locals s) (\<lambda>(_, s). Inr (l, s))"

fun seq :: "com list \<Rightarrow> com" where
  "seq [] = Do (\<lambda>l s. Inr (l, s))"
| "seq [c] = c"
| "seq (c # d # cs) = Seq c (seq (d # cs))"

definition skip :: com where
  "skip = seq []"

text \<open>A statement that only changes the kernel.\<close>

definition stmt :: "(kernel \<Rightarrow> error + kernel) \<Rightarrow> com" where
  "stmt f = Do (\<lambda>l s. bindE (f s) (\<lambda>s. Inr (l, s)))"

section \<open>Interrupts\<close>

text \<open>Timer interrupts that are taken in a row, none while the mask is set.\<close>

inductive taken :: "kernel \<Rightarrow> error + kernel \<Rightarrow> bool" where
  none: "taken s (Inr s)"
| tick: "irq s = 0 \<Longrightarrow> timer_interrupt s = Some (Inr (b, s1)) \<Longrightarrow> taken s1 r \<Longrightarrow> taken s r"
| fails: "irq s = 0 \<Longrightarrow> timer_interrupt s = Some (Inl e) \<Longrightarrow> taken s (Inl e)"

inductive interleaved :: "com \<Rightarrow> locals \<Rightarrow> kernel \<Rightarrow> outcome \<Rightarrow> bool" where
  Irq: "taken s (Inl e) \<Longrightarrow> interleaved c l s (Inl e)"
| Do: "taken s (Inr s1) \<Longrightarrow> f l s1 = r \<Longrightarrow> interleaved (Do f) l s r"
| Seq: "interleaved c l s (Inr (l1, s1)) \<Longrightarrow> interleaved d l1 s1 r \<Longrightarrow> interleaved (Seq c d) l s r"
| SeqE: "interleaved c l s (Inl e) \<Longrightarrow> interleaved (Seq c d) l s (Inl e)"
| CondT: "taken s (Inr s1) \<Longrightarrow> b l s1 = Inr True \<Longrightarrow> interleaved c l s1 r \<Longrightarrow> interleaved (Cond b c d) l s r"
| CondF: "taken s (Inr s1) \<Longrightarrow> b l s1 = Inr False \<Longrightarrow> interleaved d l s1 r \<Longrightarrow> interleaved (Cond b c d) l s r"
| CondE: "taken s (Inr s1) \<Longrightarrow> b l s1 = Inl e \<Longrightarrow> interleaved (Cond b c d) l s (Inl e)"
| Call: "interleaved c no_locals s (Inr (l1, s1)) \<Longrightarrow> interleaved (Call c) l s (Inr (l, s1))"
| CallE: "interleaved c no_locals s (Inl e) \<Longrightarrow> interleaved (Call c) l s (Inl e)"

inductive_cases DoE: "interleaved (Do f) l s r"
inductive_cases SeqE': "interleaved (Seq c d) l s r"
inductive_cases CondE': "interleaved (Cond b c d) l s r"
inductive_cases CallE': "interleaved (Call c) l s r"

lemma Seq_cases:
  assumes "interleaved (Seq c d) l s r"
  obtains (first) e where "r = Inl e" "interleaved c l s (Inl e)"
    | (both) l1 s1 where "interleaved c l s (Inr (l1, s1))" "interleaved d l1 s1 r"
  using assms by (auto elim!: SeqE' intro: interleaved.Irq)

lemma Call_cases:
  assumes "interleaved (Call c) l s r"
  obtains (err) e where "r = Inl e" "interleaved c no_locals s (Inl e)"
    | (ok) l1 s1 where "r = Inr (l, s1)" "interleaved c no_locals s (Inr (l1, s1))"
  using assms by (auto elim!: CallE' intro: interleaved.Irq)

text \<open>Without interrupts the program runs as it is written.\<close>

lemma interleaved_exec: "interleaved c l s (exec c l s)"
proof (induction c arbitrary: l s)
  case (Do f)
  then show ?case by (auto intro: interleaved.Do taken.none)
next
  case (Seq c d)
  show ?case
  proof (cases "exec c l s")
    case (Inl e)
    then show ?thesis using Seq.IH(1) [of l s] by (simp add: interleaved.SeqE)
  next
    case (Inr r)
    then show ?thesis using Seq.IH(1) [of l s] Seq.IH(2) [of "fst r" "snd r"] by (cases r) (auto intro: interleaved.Seq)
  qed
next
  case (Cond b c d)
  show ?case
  proof (cases "b l s")
    case (Inl e)
    then show ?thesis by (auto intro: interleaved.CondE taken.none)
  next
    case (Inr v)
    then show ?thesis
      using Cond.IH by (cases v) (auto intro: interleaved.CondT interleaved.CondF taken.none)
  qed
next
  case (Call c)
  show ?case
  proof (cases "exec c no_locals s")
    case (Inl e)
    then show ?thesis using Call.IH [of no_locals s] by (simp add: interleaved.CallE)
  next
    case (Inr r)
    then show ?thesis using Call.IH [of no_locals s] by (cases r) (auto intro: interleaved.Call)
  qed
qed

lemma Do_then: "f l s = Inr (l1, s1) \<Longrightarrow> interleaved d l1 s1 r \<Longrightarrow> interleaved (Seq (Do f) d) l s r"
  by (rule interleaved.Seq [OF interleaved.Do [OF taken.none]])

text \<open>
  \<open>maintains K c\<close>: every statement of \<open>c\<close> keeps \<open>K\<close>.  A condition is \<open>quiet\<close> if under it interrupts do nothing
  but fail; a program that maintains such a condition runs as it is written, or an interrupt fails.
\<close>

primrec maintains :: "(locals \<Rightarrow> kernel \<Rightarrow> bool) \<Rightarrow> com \<Rightarrow> bool" where
  "maintains K (Do f) \<longleftrightarrow> (\<forall>l s l' s'. K l s \<longrightarrow> f l s = Inr (l', s') \<longrightarrow> K l' s')"
| "maintains K (Seq c d) \<longleftrightarrow> maintains K c \<and> maintains K d"
| "maintains K (Cond b c d) \<longleftrightarrow> maintains K c \<and> maintains K d"
| "maintains K (Call c) \<longleftrightarrow> maintains K c \<and> (\<forall>l l' s. K l s \<longrightarrow> K l' s)"

definition quiet :: "(error \<Rightarrow> bool) \<Rightarrow> (locals \<Rightarrow> kernel \<Rightarrow> bool) \<Rightarrow> bool" where
  "quiet E K \<longleftrightarrow> (\<forall>l s r. K l s \<longrightarrow> taken s r \<longrightarrow> r = Inr s \<or> (\<exists>e. r = Inl e \<and> E e))"

lemma quietD: "quiet E K \<Longrightarrow> K l s \<Longrightarrow> taken s (Inr s') \<Longrightarrow> s' = s" "quiet E K \<Longrightarrow> K l s \<Longrightarrow> taken s (Inl e) \<Longrightarrow> E e"
  unfolding quiet_def by blast+

lemma exec_maintains: "maintains K c \<Longrightarrow> K l s \<Longrightarrow> exec c l s = Inr (l', s') \<Longrightarrow> K l' s'"
proof (induction c arbitrary: l s l' s')
  case (Seq c d)
  from Seq.prems(3) obtain l1 s1 where e: "exec c l s = Inr (l1, s1)" "exec d l1 s1 = Inr (l', s')" by (auto elim!: bindE_eq_InrE)
  have "K l1 s1" by (rule Seq.IH(1) [OF _ Seq.prems(2) e(1)]) (use Seq.prems(1) in simp)
  then show ?case by (rule Seq.IH(2) [OF _ _ e(2), rotated]) (use Seq.prems(1) in simp)
next
  case (Cond b c d)
  from Cond.prems(3) have "exec c l s = Inr (l', s') \<or> exec d l s = Inr (l', s')" by (auto elim!: bindE_eq_InrE split: if_splits)
  then show ?case
  proof
    assume "exec c l s = Inr (l', s')"
    then show ?thesis by (rule Cond.IH(1) [OF _ Cond.prems(2), rotated]) (use Cond.prems(1) in simp)
  next
    assume "exec d l s = Inr (l', s')"
    then show ?thesis by (rule Cond.IH(2) [OF _ Cond.prems(2), rotated]) (use Cond.prems(1) in simp)
  qed
next
  case (Call c)
  from Call.prems(3) obtain l1 where e: "exec c no_locals s = Inr (l1, s')" by (auto elim!: bindE_eq_InrE)
  have "K no_locals s" using Call.prems(1,2) by auto
  then have "K l1 s'" by (rule Call.IH [OF _ _ e, rotated]) (use Call.prems(1) in simp)
  then show ?case using Call.prems(1) by auto
qed auto

lemma interleaved_quiet:
  assumes "quiet E K"
  shows "interleaved c l s r \<Longrightarrow> maintains K c \<Longrightarrow> K l s \<Longrightarrow> r = exec c l s \<or> (\<exists>e. r = Inl e \<and> E e)"
proof (induction rule: interleaved.induct)
  case (Seq c l s l1 s1 d r)
  then have e: "exec c l s = Inr (l1, s1)" by auto
  then have "K l1 s1" using exec_maintains [of K c l s l1 s1] Seq.prems by simp
  with Seq e show ?case by simp
next
  case (SeqE c l s e d)
  then show ?case by (cases "exec c l s") auto
next
  case (CondT s s1 b l c r d)
  then have "s1 = s" using quietD(1) [OF assms] by blast
  with CondT show ?case by auto
next
  case (CondF s s1 b l d r c)
  then have "s1 = s" using quietD(1) [OF assms] by blast
  with CondF show ?case by auto
next
  case (Call c s l1 s1 l)
  then have "K no_locals s" by auto
  with Call have "exec c no_locals s = Inr (l1, s1)" by auto
  then show ?case by simp
next
  case (CallE c s e l)
  then have "K no_locals s" by auto
  with CallE show ?case by (cases "exec c no_locals s") auto
qed (auto dest: quietD [OF assms])

lemma masked_quiet: "quiet (\<lambda>_. False) (\<lambda>_ s. irq s \<noteq> 0)"
  by (auto simp: quiet_def elim: taken.cases)

section \<open>The programs\<close>

text \<open>\<open>irq_masking\<close>: saving the interrupt state leaves interrupts disabled.\<close>

definition irq_masking :: "sdk \<Rightarrow> bool" where
  "irq_masking sd \<longleftrightarrow> (\<forall>m. snd (save_and_disable_interrupts sd m) \<noteq> 0)"

definition save_com :: "sdk \<Rightarrow> com" where
  "save_com sd = Do (\<lambda>l s. case intr_save sd s of (old_level, s) \<Rightarrow> Inr (l\<lparr>l_old_level := old_level\<rparr>, s))"

definition restore_com :: "sdk \<Rightarrow> com" where
  "restore_com sd = Do (\<lambda>l s. Inr (l, intr_restore sd (l_old_level l) s))"

text \<open>\<open>switch_threads_c\<close> and \<open>thread_schedule_tail\<close> with the local variables of \<open>schedule\<close> as their arguments.\<close>

definition switch_com :: com where
  "switch_com = seq
     [Do (\<lambda>l s. bindE (update_thread (l_cur l) (\<lambda>th. th\<lparr>register_save := save_registers (cpu s) (register_save th)\<rparr>) s) (\<lambda>s.
        Inr (l, s))),
      Do (\<lambda>l s. bindE (load_thread (l_next l) s) (\<lambda>th. Inr (l, s\<lparr>cpu := load_registers (register_save th) (cpu s)\<rparr>))),
      Do (\<lambda>l s. bindE (update_thread (l_next l) (\<lambda>th. th\<lparr>status := THREAD_RUNNING\<rparr>) s) (\<lambda>s. Inr (l, s))),
      Do (\<lambda>l s. Inr (l\<lparr>l_prev := l_cur l\<rparr>, s\<lparr>thread_running_var := l_next l\<rparr>))]"

definition tail_com :: com where
  "tail_com = seq
     [Do (\<lambda>l s. Inr (l\<lparr>l_cur := running_thread s\<rparr>, s)),
      Do (\<lambda>l s. bindE (update_thread (l_cur l) (\<lambda>th. th\<lparr>status := THREAD_RUNNING\<rparr>) s) (\<lambda>s. Inr (l, s))),
      stmt (\<lambda>s. Inr (s\<lparr>thread_ticks := 0\<rparr>)),
      Cond (\<lambda>l s. andE (Inr (l_prev l \<noteq> 0))
                 (andE (bindE (load_thread (l_prev l) s) (\<lambda>th. Inr (status th = THREAD_DYING)))
                       (Inr (l_prev l \<noteq> initial_thread s))))
        (seq
          [Do (\<lambda>l s. bindE (ASSERT (l_prev l \<noteq> l_cur l) ''prev != cur'') (\<lambda>_. Inr (l, s))),
           Do (\<lambda>l s. Inr (l, free_thread (l_prev l) s))])
        skip]"

definition schedule_com :: com where
  "schedule_com = seq
     [Do (\<lambda>l s. Inr (l\<lparr>l_cur := running_thread s\<rparr>, s)),
      Do (\<lambda>l s. bindE (next_thread_to_run s) (\<lambda>(nxt, s). Inr (l\<lparr>l_next := nxt, l_prev := 0\<rparr>, s))),
      Do (\<lambda>l s. bindE (load_thread (l_cur l) s) (\<lambda>th.
        bindE (ASSERT (status th \<noteq> THREAD_RUNNING) ''cur->status != THREAD_RUNNING'') (\<lambda>_. Inr (l, s)))),
      Do (\<lambda>l s. bindE (is_thread (l_next l) s) (\<lambda>c. bindE (ASSERT c ''is_thread (next)'') (\<lambda>_. Inr (l, s)))),
      Cond (\<lambda>l s. Inr (l_cur l \<noteq> l_next l)) switch_com skip,
      tail_com]"

definition thread_block_body :: com where
  "thread_block_body = seq
     [stmt (\<lambda>s. bindE (thread_current s) (\<lambda>t. update_thread t (\<lambda>th. th\<lparr>status := THREAD_BLOCKED\<rparr>) s)),
      Call schedule_com]"

definition thread_block_com :: "sdk \<Rightarrow> com" where
  "thread_block_com sd = seq [save_com sd, thread_block_body, restore_com sd]"

definition thread_yield_body :: com where
  "thread_yield_body =
     Cond (\<lambda>l s. bindE (list_empty ready_list (links s)) (\<lambda>e. Inr (\<not> e)))
       (seq
         [Cond (\<lambda>l s. Inr (l_cur l \<noteq> idle_thread s \<and> l_cur l \<noteq> initial_thread s))
            (seq
              [stmt (\<lambda>s. bindE (thread_current s) (\<lambda>t. bindE (load_thread t s) (\<lambda>th.
                 Inr (printf ''--YIELD! thread_ticks: %d ; duration left %d\<newline>\<newline>''
                        [AInt (thread_ticks s), AInt (duration_ticks th)] s)))),
               Do (\<lambda>l s. bindE (on_links (list_push_back ready_list (Some (Elem (l_cur l)))) s) (\<lambda>s. Inr (l, s)))])
            skip,
          Do (\<lambda>l s. bindE (update_thread (l_cur l) (\<lambda>th. th\<lparr>status := THREAD_READY\<rparr>) s) (\<lambda>s. Inr (l, s))),
          Call schedule_com])
       skip"

definition thread_yield_com :: "sdk \<Rightarrow> com" where
  "thread_yield_com sd = seq
     [Do (\<lambda>l s. bindE (thread_current s) (\<lambda>t. Inr (l\<lparr>l_cur := t\<rparr>, s))),
      save_com sd, thread_yield_body, restore_com sd]"

definition block_if_idle_com :: "sdk \<Rightarrow> com" where
  "block_if_idle_com sd =
     Cond (\<lambda>l s. bindE (thread_current s) (\<lambda>t. Inr (t = idle_thread s))) (Call (thread_block_com sd)) skip"

definition thread_exit_com :: "sdk \<Rightarrow> com" where
  "thread_exit_com sd =
     Cond (\<lambda>l s. andE (bindE (thread_current s) (\<lambda>t. Inr (t \<noteq> initial_thread s)))
                      (bindE (thread_current s) (\<lambda>t. Inr (t \<noteq> idle_thread s))))
       (seq
         [stmt (\<lambda>s. bindE (thread_current s) (\<lambda>t.
            bindE (list_remove (Some (AllElem t)) (links s)) (\<lambda>(_, h). Inr (s\<lparr>links := h\<rparr>)))),
          stmt (\<lambda>s. bindE (thread_current s) (\<lambda>t. bindE (load_thread t s) (\<lambda>th.
            Inr (printf ''\<newline>===EXIT thread %s\<newline>\<newline>'' [AStr (name th)] s)))),
          stmt (\<lambda>s. bindE (thread_current s) (\<lambda>t. update_thread t (\<lambda>th. th\<lparr>status := THREAD_DYING\<rparr>) s)),
          Call schedule_com])
       (Call (thread_yield_com sd))"

definition duration_of_current :: "kernel \<Rightarrow> error + s32" where
  "duration_of_current s = bindE (thread_current s) (\<lambda>t. bindE (load_thread t s) (\<lambda>th. Inr (duration_ticks th)))"

definition after_interrupt_com :: "sdk \<Rightarrow> com" where
  "after_interrupt_com sd = seq
     [Call (block_if_idle_com sd),
      Cond (\<lambda>l s. bindE (duration_of_current s) (\<lambda>d. Inr (sint d \<le> 0)))
        (seq
          [stmt (\<lambda>s. bindE (duration_of_current s) (\<lambda>d.
             Inr (printf ''thread_ticks: %d ; duration left %d\<newline>'' [AInt (thread_ticks s), AInt d] s))),
           Call (thread_exit_com sd)])
        (Cond (\<lambda>l s. andE (Inr (round_robin_mode s \<noteq> 0)) (bindE (is_ready_list_empty s) (\<lambda>e. Inr (\<not> e))))
          (Cond (\<lambda>l s. Inr (round_robin_ticks s \<le> thread_ticks s)) (Call (thread_yield_com sd)) skip)
          skip),
      Cond (\<lambda>l s. andE (Inr (thread_exit_on_return s \<noteq> 0)) (bindE (duration_of_current s) (\<lambda>d. Inr (d \<noteq> 0))))
        (seq
          [stmt (\<lambda>s. bindE (thread_current s) (\<lambda>t. bindE (load_thread t s) (\<lambda>th.
             Inr (printf ''FORCED EXIT thread %s, duration left: %d'' [AStr (name th), AInt (duration_ticks th)] s)))),
           Call (thread_exit_com sd),
           stmt (\<lambda>s. Inr (s\<lparr>thread_exit_on_return := 0\<rparr>))])
        skip]"

section \<open>The programs are the functions\<close>

definition computes :: "com \<Rightarrow> (kernel \<Rightarrow> error + kernel) \<Rightarrow> bool" where
  "computes c f \<longleftrightarrow> (\<forall>l s. bindE (exec c l s) (\<lambda>(_, s). Inr s) = f s)"

lemma bindE_if: "bindE (if c then x else y) f = (if c then bindE x f else bindE y f)"
  by simp

lemma bindE_right: "bindE m Inr = m"
  by (simp add: bindE_def split: sum.splits)

lemma bindE_prod: "bindE (case p of (x, y) \<Rightarrow> g x y) f = (case p of (x, y) \<Rightarrow> bindE (g x y) f)"
  by (simp split: prod.splits)

text \<open>Programs whose statements do not use the local variables compute what they say.\<close>

lemma computes_skip: "computes skip Inr"
  by (simp add: computes_def skip_def)

lemma computes_stmt: "computes (stmt f) f"
  by (simp add: computes_def stmt_def bindE_assoc bindE_right)

lemma computes_bind: "computes c f \<Longrightarrow> bindE (exec c l s) (\<lambda>(_, s). g s) = bindE (f s) g"
proof -
  assume "computes c f"
  then have "f s = bindE (exec c l s) (\<lambda>(_, s). Inr s)" by (simp add: computes_def)
  then show ?thesis by (cases "exec c l s") auto
qed

lemma computes_Call: "computes c f \<Longrightarrow> computes (Call c) f"
  using computes_bind [of c f no_locals _ Inr] by (simp add: computes_def bindE_assoc bindE_right bindE_prod)

lemma exec_Call: "computes c f \<Longrightarrow> exec (Call c) l s = bindE (f s) (\<lambda>s. Inr (l, s))"
  by (simp add: computes_bind)

lemma computes_Seq: "computes c f \<Longrightarrow> computes d g \<Longrightarrow> computes (Seq c d) (\<lambda>s. bindE (f s) g)"
proof -
  assume c: "computes c f" and d: "computes d g"
  have "bindE (exec (Seq c d) l s) (\<lambda>(_, s). Inr s) = bindE (exec c l s) (\<lambda>(_, s). g s)" for l s
    using d by (cases "exec c l s") (auto simp: computes_def)
  with computes_bind [OF c, where g = g] show ?thesis by (simp add: computes_def)
qed

lemma computes_Cond:
  "computes c f \<Longrightarrow> computes d g \<Longrightarrow> computes (Cond (\<lambda>l. b) c d) (\<lambda>s. bindE (b s) (\<lambda>v. if v then f s else g s))"
  by (simp add: computes_def bindE_assoc bindE_if cong: if_cong)

lemma computes_cong: "computes c f \<Longrightarrow> (\<And>s. f s = g s) \<Longrightarrow> computes c g"
  by (simp add: computes_def)

lemmas exec_norm = stmt_def skip_def save_com_def restore_com_def bindE_assoc bindE_if bindE_prod andE_def case_prod_beta

lemma exec_switch: "exec switch_com l s = bindE (switch_threads_c (l_cur l) (l_next l) s) (\<lambda>(p, s). Inr (l\<lparr>l_prev := p\<rparr>, s))"
  by (simp add: switch_com_def switch_threads_c_def set_thread_running_def exec_norm)

lemma exec_tail: "bindE (exec tail_com l s) (\<lambda>x. Inr (snd x)) = thread_schedule_tail (l_prev l) s"
  by (simp add: tail_com_def thread_schedule_tail_def Let_def exec_norm cong: if_cong)

lemma schedule_computes: "computes schedule_com schedule"
  by (simp add: computes_def schedule_def schedule_com_def exec_switch exec_tail Let_def exec_norm case_prod_unfold cong: if_cong)

lemmas exec_calls = exec_Call [OF schedule_computes]

lemma thread_block_computes: "computes (thread_block_com sd) (thread_block sd)"
  by (simp add: computes_def thread_block_def thread_block_com_def thread_block_body_def exec_norm exec_calls del: exec.simps(4))

lemma thread_yield_computes: "computes (thread_yield_com sd) (thread_yield sd)"
  by (simp add: computes_def thread_yield_def thread_yield_com_def thread_yield_body_def exec_norm exec_calls
      del: exec.simps(4) cong: if_cong)

lemmas computes_rules = computes_Seq computes_Cond computes_Call computes_stmt computes_skip
  schedule_computes thread_block_computes thread_yield_computes

lemma block_if_idle_computes: "computes (block_if_idle_com sd) (block_if_idle_thread sd)"
  unfolding block_if_idle_com_def
  by (rule computes_cong, (rule computes_rules)+) (simp add: block_if_idle_thread_def bindE_assoc)

lemma thread_exit_computes: "computes (thread_exit_com sd) (thread_exit sd)"
  unfolding thread_exit_com_def seq.simps
  by (rule computes_cong, (rule computes_rules)+)
    (simp add: thread_exit_def thread_exit_mark_def bindE_assoc case_prod_beta cong: if_cong)

lemma after_interrupt_computes: "computes (after_interrupt_com sd) (after_interrupt sd)"
  unfolding after_interrupt_com_def seq.simps
  by (rule computes_cong, (rule computes_rules block_if_idle_computes thread_exit_computes)+)
    (simp add: after_interrupt_def duration_of_current_def bindE_assoc bindE_if andE_def cong: if_cong)

end
