(* ===== verification/Preempt_Safe.thy ===== *)
theory Preempt_Safe
  imports Preempt Sched_Aside
begin

text \<open>
  What survives timer interrupts at any statement: \<open>thread_yield\<close> and \<open>thread_block\<close>, whose critical parts
  run with interrupts masked, behave as if the interrupts had come before the call; and an iteration of the
  main loop keeps the data of the kernel consistent unless an interrupt hits the one window of
  \<open>thread_exit\<close> in which the running thread is marked as dying.
\<close>

section \<open>Interrupts between statements\<close>

lemma taken_ticking:
  "taken s r \<Longrightarrow> ticking s a D \<Longrightarrow> a_cur a \<notin> set (a_sleeping a) \<Longrightarrow>
   \<exists>s' k. r = Inr s' \<and> ticking s' ((a_timer ^^ k) a) D \<and> irq s' = irq s \<and> same_ids s s'"
proof (induction arbitrary: a rule: taken.induct)
  case (none s)
  then show ?case by (intro exI [of _ s] exI [of _ 0]) simp
next
  case (tick s b s1 r)
  obtain s' where s': "timer_interrupt s = Some (Inr (True, s'))" "ticking s' (a_timer a) D" "irq s' = irq s" "same_ids s s'"
    using timer_interrupt_sim [OF tick.prems] by blast
  then have "s1 = s'" using tick.hyps(2) by simp
  moreover have "a_cur (a_timer a) \<notin> set (a_sleeping (a_timer a))" using tick.prems(2) by (simp add: a_timer_ready)
  ultimately obtain s2 k where "r = Inr s2" "ticking s2 ((a_timer ^^ k) (a_timer a)) D" "irq s2 = irq s'" "same_ids s' s2"
    using tick.IH [of "a_timer a"] s'(2) by blast
  then show ?case using s'(3) same_ids_trans [OF s'(4)] by (intro exI [of _ s2] exI [of _ "Suc k"]) (simp add: funpow_swap1)
next
  case (fails s e)
  then show ?case using timer_interrupt_sim [OF fails.prems] by auto
qed

lemma timers_wf: "sched_wf a \<Longrightarrow> sched_wf ((a_timer ^^ k) a)"
  by (induction k) (simp_all add: timer_wf)

lemma timers_fields [simp]:
  "a_cur ((a_timer ^^ k) a) = a_cur a" "a_all ((a_timer ^^ k) a) = a_all a" "a_idle ((a_timer ^^ k) a) = a_idle a"
  "a_initial ((a_timer ^^ k) a) = a_initial a"
  by (induction k) simp_all

lemma taken_refines:
  assumes "taken s r" "refines s a"
  obtains s' k where "r = Inr s'" "refines s' ((a_timer ^^ k) a)" "irq s' = irq s" "same_ids s s'"
proof -
  have R: "ticking s a (set (a_all a))" "sched_wf a" using assms(2) by (simp_all add: refines_ticking)
  have "a_cur a \<notin> set (a_sleeping a)" using R(2) by (simp add: sched_wf_def)
  from taken_ticking [OF assms(1) R(1) this] timers_wf [OF R(2)] that show thesis
    by (fastforce simp: refines_ticking)
qed

text \<open>In terms of the events of the kernel, interrupts in a row are \<open>Tick\<close> events.\<close>

lemma taken_ticks:
  "taken s r \<Longrightarrow> r = Inr s' \<Longrightarrow> \<exists>k. run_events (kernel_event sd) (replicate k Tick) s = Some (Inr s')"
proof (induction rule: taken.induct)
  case (none s)
  then show ?case by (intro exI [of _ 0]) simp
next
  case (tick s b s1 r)
  then obtain k where "run_events (kernel_event sd) (replicate k Tick) s1 = Some (Inr s')" by blast
  with tick.hyps(2) show ?case by (intro exI [of _ "Suc k"]) simp
qed simp

section \<open>Critical sections\<close>

lemma update_thread_irq: "update_thread t f s = Inr s' \<Longrightarrow> irq s' = irq s"
  by (auto simp: update_thread_def elim!: bindE_eq_InrE)

lemma on_links_irq: "on_links f s = Inr s' \<Longrightarrow> irq s' = irq s"
  by (auto simp: on_links_def elim!: bindE_eq_InrE)

lemma next_thread_irq: "next_thread_to_run s = Inr (t, s') \<Longrightarrow> irq s' = irq s"
  by (auto simp: next_thread_to_run_def case_prod_beta elim!: bindE_eq_InrE split: if_splits)

abbreviation masked :: "locals \<Rightarrow> kernel \<Rightarrow> bool" where
  "masked \<equiv> \<lambda>_ s. irq s \<noteq> 0"

lemma schedule_masked: "maintains masked schedule_com"
  by (auto simp: schedule_com_def switch_com_def tail_com_def stmt_def skip_def free_thread_def
      elim!: bindE_eq_InrE dest!: update_thread_irq next_thread_irq)

lemma bodies_masked: "maintains masked thread_block_body" "maintains masked thread_yield_body"
  by (auto simp: thread_block_body_def thread_yield_body_def stmt_def skip_def schedule_masked
      elim!: bindE_eq_InrE dest!: update_thread_irq on_links_irq)

lemma save_masks: "irq_masking sd \<Longrightarrow> intr_save sd s = (old, s') \<Longrightarrow> irq s' \<noteq> 0"
  by (auto simp: irq_masking_def intr_save_def split: prod.splits) (metis snd_conv)

lemma interleaved_masked: "interleaved c l s r \<Longrightarrow> maintains masked c \<Longrightarrow> irq s \<noteq> 0 \<Longrightarrow> r = exec c l s"
  using interleaved_quiet [OF masked_quiet] by blast

lemma taken_masked: "taken s r \<Longrightarrow> irq s \<noteq> 0 \<Longrightarrow> r = Inr s"
  by (auto elim: taken.cases)

lemma critical_interleaved:
  assumes "interleaved (Seq (save_com sd) (Seq c (restore_com sd))) l s r" "maintains masked c" "irq_masking sd"
  shows "(\<exists>e. taken s (Inl e) \<and> r = Inl e) \<or>
    (\<exists>s1. taken s (Inr s1) \<and> r = exec (Seq (save_com sd) (Seq c (restore_com sd))) l s1)"
  using assms(1)
proof (cases rule: Seq_cases)
  case (first e)
  then show ?thesis by (auto simp: save_com_def elim!: DoE split: prod.splits)
next
  case (both l1 s2)
  from both(1) obtain s1 old where s1: "taken s (Inr s1)" "intr_save sd s1 = (old, s2)" "l1 = l\<lparr>l_old_level := old\<rparr>"
    by (auto simp: save_com_def elim!: DoE split: prod.splits)
  have m: "irq s2 \<noteq> 0" by (rule save_masks [OF assms(3) s1(2)])
  have "r = exec (Seq c (restore_com sd)) l1 s2"
    using both(2)
  proof (cases rule: Seq_cases)
    case (first e)
    then have "exec c l1 s2 = Inl e" using interleaved_masked [OF first(2) assms(2) m] by simp
    then show ?thesis using first(1) by simp
  next
    case (both l3 s3)
    have e: "exec c l1 s2 = Inr (l3, s3)" using interleaved_masked [OF both(1) assms(2) m] by simp
    have "irq s3 \<noteq> 0" by (rule exec_maintains [OF assms(2) m e])
    then have "r = exec (restore_com sd) l3 s3"
      using both(2) taken_masked [of s3] unfolding restore_com_def by (auto elim!: DoE)
    with e show ?thesis by simp
  qed
  then show ?thesis using s1 by (auto simp: save_com_def)
qed

section \<open>Atomic operations\<close>

lemma taken_trans: "taken s r \<Longrightarrow> r = Inr s1 \<Longrightarrow> taken s1 r' \<Longrightarrow> taken s r'"
  by (induction rule: taken.induct) (auto intro: taken.intros)

lemma refines_current: "refines s a \<Longrightarrow> thread_current s = Inr (a_cur a)"
  by (rule thread_current_ok)

lemma yield_rest:
  assumes "thread_current s = Inr (l_cur l)"
  shows "bindE (exec (Seq (save_com sd) (Seq thread_yield_body (restore_com sd))) l s) (\<lambda>(_, s). Inr s) = thread_yield sd s"
proof -
  have "exec (thread_yield_com sd) l s = exec (Seq (save_com sd) (Seq thread_yield_body (restore_com sd))) l s"
    using assms by (simp add: thread_yield_com_def)
  with thread_yield_computes show ?thesis unfolding computes_def by metis
qed

lemma InrE_state:
  assumes "bindE x (\<lambda>(_, s). Inr s) = Inr s'"
  obtains l' where "x = Inr (l', s')"
  using assms by (cases x) auto

lemma thread_yield_atomic:
  assumes "refines s a" "irq_masking sd" "interleaved (thread_yield_com sd) l s r"
  obtains s1 l' s' where "taken s (Inr s1)" "thread_yield sd s1 = Inr s'" "r = Inr (l', s')"
proof -
  let ?rest = "Seq (save_com sd) (Seq thread_yield_body (restore_com sd))"
  obtain s1 where s1: "taken s (Inr s1)" "interleaved ?rest (l\<lparr>l_cur := a_cur a\<rparr>) s1 r"
  proof -
    have cur: "taken s (Inr s1) \<Longrightarrow> thread_current s1 = Inr (a_cur a)" for s1
      using taken_refines [OF _ assms(1)] refines_current timers_fields(1) by (metis sum.inject(2))
    have no: "\<not> taken s (Inl e)" for e using taken_refines [OF _ assms(1)] by blast
    show thesis
      using assms(3) unfolding thread_yield_com_def seq.simps
      by (rule Seq_cases) (use that cur no in \<open>auto elim!: DoE\<close>)
  qed
  obtain k where k: "refines s1 ((a_timer ^^ k) a)" using taken_refines [OF s1(1) assms(1)] by blast
  have no: "\<not> taken s1 (Inl e)" for e using taken_refines [OF _ k] by blast
  from critical_interleaved [OF s1(2) bodies_masked(2) assms(2)] no
  obtain s2 where s2: "taken s1 (Inr s2)" "r = exec ?rest (l\<lparr>l_cur := a_cur a\<rparr>) s2" by blast
  have t: "taken s (Inr s2)" by (rule taken_trans [OF s1(1) refl s2(1)])
  then obtain j where j: "refines s2 ((a_timer ^^ j) a)" using taken_refines [OF _ assms(1)] by blast
  then obtain s' where s': "thread_yield sd s2 = Inr s'" by (rule thread_yield_refines)
  have "thread_current s2 = Inr (l_cur (l\<lparr>l_cur := a_cur a\<rparr>))" using refines_current [OF j] by simp
  from yield_rest [OF this, of sd] s2(2) s' obtain l' where "r = Inr (l', s')" using InrE_state by metis
  with that t s' show thesis by blast
qed

text \<open>\<open>thread_block\<close>, where its caller may block.\<close>

lemma thread_block_atomic:
  assumes "refines s a" "irq_masking sd" "interleaved (thread_block_com sd) l s r"
  obtains s1 where "taken s (Inr s1)" "bindE r (\<lambda>(_, s). Inr s) = thread_block sd s1"
proof -
  have no: "\<not> taken s (Inl e)" for e using taken_refines [OF _ assms(1)] by blast
  have "interleaved (Seq (save_com sd) (Seq thread_block_body (restore_com sd))) l s r"
    using assms(3) by (simp add: thread_block_com_def)
  from critical_interleaved [OF this bodies_masked(1) assms(2)] no
  obtain s1 where "taken s (Inr s1)" "r = exec (thread_block_com sd) l s1" by (auto simp: thread_block_com_def)
  with that thread_block_computes show thesis unfolding computes_def by blast
qed

lemma block_if_idle_atomic:
  assumes "refines s a" "irq_masking sd" "interleaved (block_if_idle_com sd) l s r"
  obtains s1 s' where "taken s (Inr s1)" "block_if_idle_thread sd s1 = Inr s'" "r = Inr (l, s')"
proof -
  have ticks: "\<exists>k. refines s1 ((a_timer ^^ k) a)" if "taken s (Inr s1)" for s1 using taken_refines [OF that assms(1)] by blast
  have cur: "thread_current s1 = Inr (a_cur a)" "idle_thread s1 = a_idle a" if "taken s (Inr s1)" for s1
    using ticks [OF that] refines_current simD(3) [OF refinesD(1)] by fastforce+
  have no: "\<not> taken s (Inl e)" for e using taken_refines [OF _ assms(1)] by blast
  consider (idle) s1 where "taken s (Inr s1)" "a_cur a = a_idle a" "interleaved (Call (thread_block_com sd)) l s1 r"
    | (other) s1 where "taken s (Inr s1)" "a_cur a \<noteq> a_idle a" "interleaved skip l s1 r"
    using assms(3) no cur unfolding block_if_idle_com_def by (auto elim!: CondE')
  then show thesis
  proof cases
    case idle
    then obtain k where k: "refines s1 ((a_timer ^^ k) a)" using ticks by blast
    obtain r' where r': "interleaved (thread_block_com sd) no_locals s1 r'" "r = bindE r' (\<lambda>(_, s). Inr (l, s))"
      using idle(3) by (cases rule: Call_cases) auto
    obtain s2 where s2: "taken s1 (Inr s2)" "bindE r' (\<lambda>(_, s). Inr s) = thread_block sd s2"
      by (rule thread_block_atomic [OF k assms(2) r'(1)])
    have t: "taken s (Inr s2)" by (rule taken_trans [OF idle(1) refl s2(1)])
    then obtain j where j: "refines s2 ((a_timer ^^ j) a)" using ticks by blast
    have "block_if_idle_thread sd s2 = thread_block sd s2" using cur [OF t] idle(2) by (simp add: block_if_idle_thread_def)
    moreover obtain s' where s': "block_if_idle_thread sd s2 = Inr s'" by (rule block_if_idle_refines [OF j])
    ultimately obtain l' where "r' = Inr (l', s')" using s2(2) InrE_state by metis
    then show thesis using that t s' r'(2) by simp
  next
    case other
    then obtain k where k: "refines s1 ((a_timer ^^ k) a)" using ticks by blast
    have "\<not> taken s1 (Inl e)" for e using taken_refines [OF _ k] by blast
    then obtain s2 where s2: "taken s1 (Inr s2)" "r = Inr (l, s2)" using other(3) by (auto simp: skip_def elim!: DoE)
    have t: "taken s (Inr s2)" by (rule taken_trans [OF other(1) refl s2(1)])
    have "block_if_idle_thread sd s2 = Inr s2" using cur [OF t] other(2) by (simp add: block_if_idle_thread_def)
    with that t s2(2) show thesis by blast
  qed
qed

section \<open>Proof outlines\<close>

text \<open>
  An assertion is stable if interrupts keep it; \<open>outline P c Q\<close> says that every interleaved run of \<open>c\<close> from
  a state with \<open>P\<close> ends with \<open>Q\<close>, or fails as \<open>E\<close> allows.
\<close>

type_synonym assertion = "locals \<Rightarrow> kernel \<Rightarrow> bool"

definition stable :: "(error \<Rightarrow> bool) \<Rightarrow> assertion \<Rightarrow> bool" where
  "stable E P \<longleftrightarrow> (\<forall>l s r. P l s \<longrightarrow> taken s r \<longrightarrow> (case r of Inl e \<Rightarrow> E e | Inr s' \<Rightarrow> P l s'))"

definition outline :: "(error \<Rightarrow> bool) \<Rightarrow> assertion \<Rightarrow> com \<Rightarrow> assertion \<Rightarrow> bool" where
  "outline E P c Q \<longleftrightarrow> (\<forall>l s r. P l s \<longrightarrow> interleaved c l s r \<longrightarrow> (case r of Inl e \<Rightarrow> E e | Inr (l', s') \<Rightarrow> Q l' s'))"

lemma stable_fail: "stable E P \<Longrightarrow> P l s \<Longrightarrow> taken s (Inl e) \<Longrightarrow> E e"
  unfolding stable_def by fastforce

lemma stable_step: "stable E P \<Longrightarrow> P l s \<Longrightarrow> taken s (Inr s') \<Longrightarrow> P l s'"
  unfolding stable_def by fastforce

text \<open>It is enough to look at one interrupt.\<close>

lemma stable_one:
  assumes "\<And>l s. P l s \<Longrightarrow> (\<exists>e. timer_interrupt s = Some (Inl e) \<and> E e) \<or>
      (\<exists>b s'. timer_interrupt s = Some (Inr (b, s')) \<and> P l s')"
  shows "stable E P"
proof -
  have "taken s r \<Longrightarrow> P l s \<Longrightarrow> (case r of Inl e \<Rightarrow> E e | Inr s' \<Rightarrow> P l s')" for l s r
    by (induction rule: taken.induct) (auto dest: assms)
  then show ?thesis unfolding stable_def by blast
qed

lemma outline_mono: "outline E P c Q \<Longrightarrow> (\<And>e. E e \<Longrightarrow> E' e) \<Longrightarrow> outline E' P c Q"
  unfolding outline_def by (auto split: sum.splits)

lemma outline_Do:
  assumes "stable E P" "\<And>l s. P l s \<Longrightarrow> \<exists>l' s'. f l s = Inr (l', s') \<and> Q l' s'"
  shows "outline E P (Do f) Q"
  unfolding outline_def
proof (intro allI impI)
  fix l s r assume P: "P l s" and "interleaved (Do f) l s r"
  then consider (e) e where "taken s (Inl e)" "r = Inl e" | (ok) s1 where "taken s (Inr s1)" "r = f l s1"
    by (auto elim: DoE)
  then show "case r of Inl e \<Rightarrow> E e | Inr (l', s') \<Rightarrow> Q l' s'"
  proof cases
    case e
    then show ?thesis using stable_fail [OF assms(1) P] by simp
  next
    case ok
    then show ?thesis using assms(2) [OF stable_step [OF assms(1) P]] by fastforce
  qed
qed

lemma outline_stmt:
  assumes "stable E P" "\<And>l s. P l s \<Longrightarrow> \<exists>s'. f s = Inr s' \<and> Q l s'"
  shows "outline E P (stmt f) Q"
  unfolding stmt_def by (rule outline_Do [OF assms(1)]) (use assms(2) in fastforce)

lemma outline_skip: "stable E P \<Longrightarrow> outline E P skip P"
  unfolding skip_def seq.simps by (rule outline_Do) auto

lemma outline_Seq: "outline E P c Q \<Longrightarrow> outline E Q d R \<Longrightarrow> outline E P (Seq c d) R"
  unfolding outline_def by (fastforce elim!: Seq_cases)

text \<open>The assertions around a call must not depend on the local variables.\<close>

lemma outline_Call:
  assumes "outline E P c Q" "\<And>l s. P l s \<Longrightarrow> P no_locals s" "\<And>l l' s. Q l s \<Longrightarrow> Q l' s"
  shows "outline E P (Call c) Q"
  unfolding outline_def
proof (intro allI impI)
  fix l s r assume P: "P l s" and "interleaved (Call c) l s r"
  from this(2) show "case r of Inl e \<Rightarrow> E e | Inr (l', s') \<Rightarrow> Q l' s'"
  proof (cases rule: Call_cases)
    case (err e)
    then show ?thesis using assms(1) assms(2) [OF P] unfolding outline_def by fastforce
  next
    case (ok l1 s1)
    then have "Q l1 s1" using assms(1) assms(2) [OF P] unfolding outline_def by fastforce
    then show ?thesis using ok(1) assms(3) by simp
  qed
qed

lemma outline_Cond:
  assumes "stable E P" "\<And>l s. P l s \<Longrightarrow> \<exists>v. b l s = Inr v \<and> (if v then P1 l s else P2 l s)"
    and "outline E P1 c Q" "outline E P2 d Q"
  shows "outline E P (Cond b c d) Q"
  unfolding outline_def
proof (intro allI impI)
  fix l s r assume P: "P l s" and "interleaved (Cond b c d) l s r"
  then consider (e) e where "taken s (Inl e)" "r = Inl e"
    | (T) s1 where "taken s (Inr s1)" "b l s1 = Inr True" "interleaved c l s1 r"
    | (F) s1 where "taken s (Inr s1)" "b l s1 = Inr False" "interleaved d l s1 r"
    | (E) s1 e where "taken s (Inr s1)" "b l s1 = Inl e" by (auto elim: CondE')
  then show "case r of Inl e \<Rightarrow> E e | Inr (l', s') \<Rightarrow> Q l' s'"
  proof cases
    case e
    then show ?thesis using stable_fail [OF assms(1) P] by simp
  next
    case (T s1)
    then have "P1 l s1" using assms(2) [OF stable_step [OF assms(1) P T(1)]] by auto
    with assms(3) T(3) show ?thesis unfolding outline_def by blast
  next
    case (F s1)
    then have "P2 l s1" using assms(2) [OF stable_step [OF assms(1) P F(1)]] by auto
    with assms(4) F(3) show ?thesis unfolding outline_def by blast
  next
    case (E s1 e)
    then show ?thesis using assms(2) [OF stable_step [OF assms(1) P E(1)]] by simp
  qed
qed

end
