(* ===== verification/Preempt_Exit.thy ===== *)
theory Preempt_Exit
  imports Preempt_Safe
begin

text \<open>
  The proof outline of \<open>thread_exit\<close>.  The exiting thread goes off \<open>all_list\<close>, is marked as dying, hands over to
  the next thread and is freed by it.  From the mark to the change of \<open>thread_running_var\<close> in
  \<open>set_thread_running\<close> every timer interrupt panics; after it the interrupts charge the next thread, and the dead
  one is aside.
\<close>

section \<open>Assertions\<close>

definition good :: assertion where
  "good l s \<longleftrightarrow> (\<exists>a. refines s a)"

definition exitable :: "sched \<Rightarrow> bool" where
  "exitable a \<longleftrightarrow> sched_wf a \<and> a_cur a \<noteq> a_idle a \<and> a_cur a \<noteq> a_initial a"

definition good_exit :: assertion where
  "good_exit l s \<longleftrightarrow> (\<exists>a. refines s a \<and> exitable a)"

text \<open>The exiting thread is off \<open>all_list\<close> and still running; then it is marked as dying.\<close>

definition off_list :: "sched \<Rightarrow> sched" where
  "off_list a = a\<lparr>a_all := remove1 (a_cur a) (a_all a)\<rparr>"

definition leaving :: assertion where
  "leaving l s \<longleftrightarrow> (\<exists>a. ticking s (off_list a) (set (a_all a)) \<and> exitable a)"

definition dying :: assertion where
  "dying l s \<longleftrightarrow> (\<exists>a th. sim s (off_list a) (set (a_all a)) \<and> exitable a \<and>
     threads s (a_cur a) = Some th \<and> a_cur a \<noteq> 0 \<and> magic th = THREAD_MAGIC \<and> status th = THREAD_DYING)"

definition exit_window :: "error \<Rightarrow> bool" where
  "exit_window e \<longleftrightarrow> e = Panic ''t->status == THREAD_RUNNING''"

lemma off_list_fields [simp]:
  "a_cur (off_list a) = a_cur a" "a_sleeping (off_list a) = a_sleeping a" "a_ready (off_list a) = a_ready a"
  "a_idle (off_list a) = a_idle a" "a_initial (off_list a) = a_initial a" "a_all (off_list a) = remove1 (a_cur a) (a_all a)"
  by (simp_all add: off_list_def)

lemma timer_off_list: "a_timer (off_list a) = off_list (a_timer a)"
  by (simp add: a_timer_def a_tick_def a_wake_up_def off_list_def a_expired_def [abs_def] Let_def)

lemma timers_off_list: "(a_timer ^^ k) (off_list a) = off_list ((a_timer ^^ k) a)"
  by (induction k) (simp_all add: timer_off_list)

lemma exitable_timers: "exitable a \<Longrightarrow> exitable ((a_timer ^^ k) a)"
  by (simp add: exitable_def timers_wf)

section \<open>Stability\<close>

lemma stable_refines:
  assumes "\<And>l a k. Q l a \<Longrightarrow> Q l ((a_timer ^^ k) a)"
  shows "stable E (\<lambda>l s. \<exists>a. refines s a \<and> Q l a)"
  unfolding stable_def
proof (intro allI impI)
  fix l :: locals and s r assume "\<exists>a. refines s a \<and> Q l a" and t: "taken s r"
  then obtain a where a: "refines s a" "Q l a" by blast
  obtain s' k where "r = Inr s'" "refines s' ((a_timer ^^ k) a)" by (rule taken_refines [OF t a(1)])
  with assms [OF a(2), of k] show "case r of Inl e \<Rightarrow> E e | Inr s' \<Rightarrow> \<exists>a. refines s' a \<and> Q l a" by auto
qed

lemma stable_good: "stable E good"
  using stable_refines [of "\<lambda>_ _. True"] by (simp add: good_def [abs_def])

lemma stable_good_exit: "stable E good_exit"
  using stable_refines [of "\<lambda>_. exitable"] exitable_timers by (simp add: good_exit_def [abs_def])

lemma stable_leaving: "stable E leaving"
  unfolding stable_def
proof (intro allI impI)
  fix l s r assume "leaving l s" and t: "taken s r"
  then obtain a where a: "ticking s (off_list a) (set (a_all a))" "exitable a" by (auto simp: leaving_def)
  have "a_cur (off_list a) \<notin> set (a_sleeping (off_list a))" using a(2) by (simp add: exitable_def sched_wf_def)
  from taken_ticking [OF t a(1) this] obtain s' k where "r = Inr s'" "ticking s' (off_list ((a_timer ^^ k) a)) (set (a_all a))"
    by (auto simp: timers_off_list)
  with exitable_timers [OF a(2), of k] show "case r of Inl e \<Rightarrow> E e | Inr s' \<Rightarrow> leaving l s'"
    by (auto simp: leaving_def intro!: exI [of _ "(a_timer ^^ k) a"])
qed

text \<open>A running thread that is not marked as running: every interrupt panics.\<close>

definition frozen :: assertion where
  "frozen l s \<longleftrightarrow> (\<exists>th. threads s (thread_running_var s) = Some th \<and> thread_running_var s \<noteq> 0 \<and> magic th = THREAD_MAGIC \<and>
     status th \<noteq> THREAD_RUNNING)"

lemma stable_frozen:
  assumes "\<And>l s. P l s \<Longrightarrow> frozen l s"
  shows "stable exit_window P"
proof (rule stable_one)
  fix l s assume "P l s"
  then have "timer_interrupt s = Some (Inl (Panic ''t->status == THREAD_RUNNING''))"
    using assms [of l s]
    by (auto simp: frozen_def timer_interrupt_def thread_tick_def thread_current_def running_thread_def ASSERT_def)
  then show "(\<exists>e. timer_interrupt s = Some (Inl e) \<and> exit_window e) \<or> (\<exists>b s'. timer_interrupt s = Some (Inr (b, s')) \<and> P l s')"
    by (simp add: exit_window_def)
qed

lemma dying_frozen: "dying l s \<Longrightarrow> frozen l s"
  using simD(2) by (fastforce simp: dying_def frozen_def)

section \<open>Outlines\<close>

lemma yield_outline:
  assumes "irq_masking sd"
  shows "outline E good (thread_yield_com sd) good"
  unfolding outline_def
proof (intro allI impI)
  fix l s r assume "good l s" and i: "interleaved (thread_yield_com sd) l s r"
  then obtain a where a: "refines s a" by (auto simp: good_def)
  obtain s1 l' s' where s1: "taken s (Inr s1)" "thread_yield sd s1 = Inr s'" "r = Inr (l', s')"
    by (rule thread_yield_atomic [OF a assms i])
  obtain k where "refines s1 ((a_timer ^^ k) a)" using taken_refines [OF s1(1) a] by blast
  then obtain s'' where "thread_yield sd s1 = Inr s''" "refines s'' (a_yield ((a_timer ^^ k) a))" by (rule thread_yield_refines)
  with s1 show "case r of Inl e \<Rightarrow> E e | Inr (l', s') \<Rightarrow> good l' s'" by (auto simp: good_def)
qed

lemma good_current:
  assumes "good l s"
  obtains a th where "refines s a" "thread_current s = Inr (a_cur a)" "threads s (a_cur a) = Some th" "a_cur a \<noteq> 0"
    "idle_thread s = a_idle a" "initial_thread s = a_initial a" "sched_wf a"
  using assms refines_current refines_cur refinesD(2) simD(3,4) [OF refinesD(1)] unfolding good_def by metis

text \<open>The statements of \<open>thread_exit\<close>.\<close>

lemma sim_off_list:
  assumes "sim s a D" "lists_ok (s\<lparr>links := h\<rparr>) (a_ready a) (a_sleeping a) (remove1 (a_cur a) (a_all a)) D"
  shows "sim (s\<lparr>links := h\<rparr>) (off_list a) D"
proof -
  have "thread_ok a t u = thread_ok (off_list a) t u" for t u
    by (simp add: thread_ok_def status_ok_def off_list_def)
  with assms show ?thesis by (simp add: sim_def off_list_def)
qed

lemma leave_step:
  assumes "good_exit l s"
  shows "\<exists>s'. bindE (thread_current s) (\<lambda>t.
    bindE (list_remove (Some (AllElem t)) (links s)) (\<lambda>(_, h). Inr (s\<lparr>links := h\<rparr>))) = Inr s' \<and> leaving l s'"
proof -
  obtain a where a: "refines s a" "exitable a" using assms by (auto simp: good_exit_def)
  have wf: "a_cur a \<in> set (a_all a)" "distinct (a_all a)" using a(2) by (auto simp: exitable_def sched_wf_def)
  obtain us vs where split: "a_all a = us @ a_cur a # vs" using split_list [OF wf(1)] by blast
  then have rem: "us @ vs = remove1 (a_cur a) (a_all a)" using wf(2) by (subst split) (simp add: remove1_append)
  obtain n h where h: "list_remove (Some (AllElem (a_cur a))) (links s) = Inr (n, h)"
    "lists_ok (s\<lparr>links := h\<rparr>) (a_ready a) (a_sleeping a) (us @ vs) (set (a_all a))"
    by (rule remove_all) (use simD(1) [OF refinesD(1) [OF a(1)]] split in auto)
  have "sim (s\<lparr>links := h\<rparr>) (off_list a) (set (a_all a))"
    by (rule sim_off_list [OF refinesD(1) [OF a(1)]]) (use h(2) rem in simp)
  moreover have "cur_status (s\<lparr>links := h\<rparr>) = Some THREAD_RUNNING"
    using refinesD(3) [OF a(1)] by (simp add: cur_status_def)
  ultimately have "leaving l (s\<lparr>links := h\<rparr>)" using a(2) wf(1) by (auto simp: leaving_def ticking_def)
  with h(1) refines_current [OF a(1)] show ?thesis by simp
qed

lemma print_step:
  assumes "leaving l s"
  shows "\<exists>s'. bindE (thread_current s) (\<lambda>t. bindE (load_thread t s) (\<lambda>th. Inr (printf (f th s) (g th s) s))) = Inr s' \<and> leaving l s'"
proof -
  obtain a where a: "ticking s (off_list a) (set (a_all a))" "exitable a" using assms by (auto simp: leaving_def)
  obtain th where "threads s (a_cur a) = Some th" "a_cur a \<noteq> 0" "thread_current s = Inr (a_cur a)"
    using ticking_cur [OF a(1)] by auto
  with a show ?thesis by (auto simp: leaving_def)
qed

lemma mark_step:
  assumes "leaving l s"
  shows "\<exists>s'. bindE (thread_current s) (\<lambda>t. update_thread t (\<lambda>th. th\<lparr>status := THREAD_DYING\<rparr>) s) = Inr s' \<and> dying l s'"
proof -
  obtain a where a: "ticking s (off_list a) (set (a_all a))" "exitable a" using assms by (auto simp: leaving_def)
  then have S: "sim s (off_list a) (set (a_all a))" "a_cur a \<in> set (a_all a)" by (simp_all add: ticking_def)
  obtain th where th: "threads s (a_cur a) = Some th" "a_cur a \<noteq> 0" "magic th = THREAD_MAGIC"
    "duration_ticks th = a_dur (off_list a) (a_cur a)" "sleep_time th = a_wake (off_list a) (a_cur a)" "thread_current s = Inr (a_cur a)"
    using ticking_cur [OF a(1)] by auto
  have "sim (s\<lparr>links := links s, threads := (threads s)(a_cur a \<mapsto> th\<lparr>status := THREAD_DYING\<rparr>)\<rparr>) (off_list a) (set (a_all a))"
    by (rule sim_update [OF S]) (use th simD(1) [OF S(1)] in \<open>auto simp: thread_ok_def\<close>)
  then have "dying l (s\<lparr>threads := (threads s)(a_cur a \<mapsto> th\<lparr>status := THREAD_DYING\<rparr>)\<rparr>)"
    unfolding dying_def using a(2) th by (intro exI [of _ a] exI [of _ "th\<lparr>status := THREAD_DYING\<rparr>"]) simp
  with th show ?thesis by simp
qed

section \<open>Handing over\<close>

text \<open>The state in which \<open>n\<close> runs and \<open>c\<close> has the record \<open>th\<close>.\<close>

definition handed :: "tptr \<Rightarrow> tptr \<Rightarrow> thread \<Rightarrow> kernel \<Rightarrow> kernel" where
  "handed c n th s = s\<lparr>thread_running_var := n,
     threads := (threads s)(n := map_option (\<lambda>x. x\<lparr>status := THREAD_RUNNING\<rparr>) (threads s n), c \<mapsto> th)\<rparr>"

definition aside_of :: "tptr \<Rightarrow> kernel \<Rightarrow> sched \<Rightarrow> bool" where
  "aside_of c s b \<longleftrightarrow> sched_wf b \<and> c \<notin> set (a_all b) \<and> (\<exists>th. ticking (with_thread c th s) b (insert c (set (a_all b))))"

definition dying_cur :: assertion where
  "dying_cur l s \<longleftrightarrow> dying l s \<and> l_cur l = thread_running_var s"

definition hands_over :: "tptr \<Rightarrow> tptr \<Rightarrow> kernel \<Rightarrow> bool" where
  "hands_over c n s \<longleftrightarrow> (\<exists>b th. aside_of c (handed c n th s) b)"

definition handing :: assertion where
  "handing l s \<longleftrightarrow> frozen l s \<and> l_cur l = thread_running_var s \<and> l_cur l \<noteq> l_next l \<and> l_next l \<noteq> 0 \<and>
     (\<exists>q. threads s (l_cur l) = Some q \<and> status q = THREAD_DYING) \<and>
     (\<exists>x. threads s (l_next l) = Some x \<and> magic x = THREAD_MAGIC) \<and>
     hands_over (l_cur l) (l_next l) s"

definition handing_on :: assertion where
  "handing_on l s \<longleftrightarrow> handing l s \<and> map_option status (threads s (l_next l)) = Some THREAD_RUNNING"

text \<open>The next thread runs, and the dead one is aside.\<close>

definition dead :: "(locals \<Rightarrow> sched \<Rightarrow> bool) \<Rightarrow> assertion" where
  "dead P l s \<longleftrightarrow> l_prev l \<noteq> 0 \<and> (\<exists>q. threads s (l_prev l) = Some q \<and> status q = THREAD_DYING) \<and>
     (\<exists>b. aside_of (l_prev l) s b \<and> P l b)"

abbreviation at_cur :: "locals \<Rightarrow> sched \<Rightarrow> bool" where
  "at_cur \<equiv> \<lambda>l b. l_cur l = a_cur b"

lemma ticking_cong_cpu [simp]: "ticking (s\<lparr>cpu := c\<rparr>) a D = ticking s a D"
  by (simp add: ticking_def sim_def lists_ok_def cur_status_def)

lemma ticking_used: "ticking s a D \<Longrightarrow> ticking (s\<lparr>thread_ticks := v\<rparr>) (a\<lparr>a_used := v\<rparr>) D"
  by (simp add: ticking_def sim_def lists_ok_def thread_ok_def status_ok_def)

lemma next_thread_threads:
  assumes "next_thread_to_run s = Inr (n, s\<lparr>links := h\<rparr>)"
  shows "next_thread_to_run (s\<lparr>threads := T\<rparr>) = Inr (n, s\<lparr>threads := T, links := h\<rparr>)"
proof (cases "list_empty ready_list (links s)")
  case (Inr e)
  show ?thesis
  proof (cases e)
    case True
    then have "n = idle_thread s" "s = s\<lparr>links := h\<rparr>" using assms Inr by (simp_all add: next_thread_to_run_def)
    moreover from this(2) have "h = links s" by (metis kernel.select_convs(1) kernel.surjective kernel.update_convs(1))
    ultimately show ?thesis using True Inr by (simp add: next_thread_to_run_def)
  next
    case False
    then obtain front g where g: "list_pop_front ready_list (links s) = Inr (front, g)" "list_entry_elem front = Inr n"
      "s\<lparr>links := g\<rparr> = s\<lparr>links := h\<rparr>"
      using assms Inr by (auto simp: next_thread_to_run_def elim!: bindE_eq_InrE)
    from arg_cong [OF g(3), of links] have "g = h" by simp
    with g False Inr show ?thesis by (simp add: next_thread_to_run_def)
  qed
qed (use assms in \<open>simp add: next_thread_to_run_def\<close>)

lemma wf_used [simp]: "sched_wf (a\<lparr>a_used := v\<rparr>) = sched_wf a"
  by (simp add: sched_wf_def)

text \<open>
  The choice of the next thread \<open>n\<close>: were the exiting thread \<open>c\<close> blocked and not dying, \<open>schedule\<close> would leave the
  state that the hand-over leaves, up to the record of \<open>c\<close>.
\<close>

lemma next_aside:
  assumes a: "sim s (off_list a) (set (a_all a))" "exitable a" and th: "threads s (a_cur a) = Some th" "a_cur a \<noteq> 0"
    and n_def: "n = hd (a_ready a @ [a_idle a])"
  obtains h b thn where "next_thread_to_run s = Inr (n, s\<lparr>links := h\<rparr>)" "n \<noteq> a_cur a"
    "threads s n = Some thn" "n \<noteq> 0" "magic thn = THREAD_MAGIC" "\<And>y. aside_of (a_cur a) (handed (a_cur a) n y (s\<lparr>links := h\<rparr>)) b"
proof -
  define c where "c = a_cur a"
  have wf: "c \<in> set (a_all a)" "distinct (a_all a)" "c \<notin> set (a_ready a)" "c \<notin> set (a_sleeping a)" "n \<in> set (a_all a)" "n \<noteq> c"
    "c \<noteq> a_initial a" "c \<noteq> a_idle a" "sched_wf a"
    using a(2) by (cases "a_ready a"; auto simp: exitable_def sched_wf_def c_def n_def)+
  obtain h where h: "next_thread_to_run s = Inr (n, s\<lparr>links := h\<rparr>)"
    using sim_next [OF a(1)] by (auto simp: n_def)
  obtain thn where thn: "threads s n = Some thn" "n \<noteq> 0" "magic thn = THREAD_MAGIC"
    using sim_thread [OF a(1) wf(5)] by metis
  define u where "u = s\<lparr>threads := (threads s)(c \<mapsto> th\<lparr>status := THREAD_BLOCKED\<rparr>)\<rparr>"
  have "sim u (off_list a) (set (a_all a))"
    unfolding u_def c_def using sim_cur_status [OF a(1), of th THREAD_BLOCKED] th(1) wf(1) by (simp add: c_def)
  moreover have uc: "threads u c = Some (th\<lparr>status := THREAD_BLOCKED\<rparr>)" "threads u n = Some thn" "thread_running_var u = c"
    using thn(1) wf(6) simD(2) [OF a(1)] by (simp_all add: u_def c_def)
  moreover have "status_ok (off_list a) c THREAD_BLOCKED" using wf(3,4) by (simp add: status_ok_def)
  ultimately obtain u' where u': "schedule u = Inr u'" "sim u' (a_dispatch (off_list a)) (set (a_all a))"
    "cur_status u' = Some THREAD_RUNNING"
    using schedule_sim [of u "off_list a" "set (a_all a)" "th\<lparr>status := THREAD_BLOCKED\<rparr>"] wf(1,5)
    by (auto simp: c_def n_def)
  have "next_thread_to_run u = Inr (n, u\<lparr>links := h\<rparr>)"
    unfolding u_def by (rule next_thread_threads [OF h])
  then have "u' = switched c (th\<lparr>status := THREAD_BLOCKED\<rparr>) n thn (u\<lparr>links := h\<rparr>)"
    using schedule_switch [of u n h c "th\<lparr>status := THREAD_BLOCKED\<rparr>" thn] uc thn wf(6) u'(1) th(2) by (simp add: c_def)
  then have eq: "with_thread c (th\<lparr>status := THREAD_BLOCKED, register_save := save_registers (cpu s) (register_save th)\<rparr>)
      (handed c n y (s\<lparr>links := h\<rparr>)) = (u'\<lparr>thread_ticks := thread_ticks s\<rparr>)\<lparr>cpu := cpu s\<rparr>" for y
    using thn(1) wf(6) by (simp add: with_thread_def handed_def switched_def u_def fun_upd_twist)
  define b where "b = (a_dispatch (off_list a))\<lparr>a_used := thread_ticks s\<rparr>"
  have b: "a_cur b = n" "a_all b = remove1 c (a_all a)" by (simp_all add: b_def a_dispatch_alt n_def c_def)
  have "ticking u' (a_dispatch (off_list a)) (set (a_all a))" using u'(2,3) wf(5) b(1) by (simp add: ticking_def b_def)
  then have "ticking ((u'\<lparr>thread_ticks := thread_ticks s\<rparr>)\<lparr>cpu := cpu s\<rparr>) b (set (a_all a))"
    using ticking_used [of u' "a_dispatch (off_list a)"] by (simp add: b_def)
  moreover have "insert c (set (a_all b)) = set (a_all a)" using wf(1,2) b(2) by auto
  moreover have "sched_wf b"
    using dispatch_wf [OF placed_exit [OF wf(9)]] wf(7,8) by (simp add: b_def off_list_def c_def)
  ultimately have "aside_of c (handed c n y (s\<lparr>links := h\<rparr>)) b" for y
    using eq [of y] wf(2) b(2) unfolding aside_of_def by (metis set_remove1_eq Diff_iff singletonI)
  then show thesis using that [OF h _ thn, of b] wf(6) by (simp add: c_def)
qed

lemma pick_step:
  assumes "dying_cur l s"
  shows "\<exists>l' s'. bindE (next_thread_to_run s) (\<lambda>(nxt, s). Inr (l\<lparr>l_next := nxt, l_prev := 0\<rparr>, s)) = Inr (l', s') \<and> handing l' s'"
proof -
  obtain a th where a: "sim s (off_list a) (set (a_all a))" "exitable a" "threads s (a_cur a) = Some th" "a_cur a \<noteq> 0"
    "magic th = THREAD_MAGIC" "status th = THREAD_DYING" "l_cur l = thread_running_var s"
    using assms by (auto simp: dying_cur_def dying_def)
  define n where "n = hd (a_ready a @ [a_idle a])"
  obtain h b thn where h: "next_thread_to_run s = Inr (n, s\<lparr>links := h\<rparr>)" "n \<noteq> a_cur a"
    "threads s n = Some thn" "n \<noteq> 0" "magic thn = THREAD_MAGIC" "\<And>y. aside_of (a_cur a) (handed (a_cur a) n y (s\<lparr>links := h\<rparr>)) b"
    using next_aside [OF a(1-4) n_def] by metis
  have "thread_running_var s = a_cur a" using simD(2) [OF a(1)] by simp
  then have "handing (l\<lparr>l_next := n, l_prev := 0\<rparr>) (s\<lparr>links := h\<rparr>)"
    using a(3-7) h(2-6) by (auto simp: handing_def hands_over_def frozen_def)
  with h(1) show ?thesis by simp
qed

lemma handed_upd:
  assumes "c \<noteq> n"
  shows "handed c n th (s\<lparr>threads := (threads s)(c \<mapsto> q)\<rparr>) = handed c n th s"
    "threads s n = Some x \<Longrightarrow> handed c n th (s\<lparr>threads := (threads s)(n \<mapsto> x\<lparr>status := THREAD_RUNNING\<rparr>)\<rparr>) = handed c n th s"
    "threads s n = Some y \<Longrightarrow> status y = THREAD_RUNNING \<Longrightarrow> handed c n th s = with_thread c th (s\<lparr>thread_running_var := n\<rparr>)"
  using assms by (auto simp: handed_def with_thread_def fun_upd_twist fun_upd_idem)

lemma aside_of_simps [simp]: "aside_of c (with_thread c th s) b = aside_of c s b" "aside_of c (s\<lparr>cpu := r\<rparr>) b = aside_of c s b"
proof -
  have "with_thread c th (s\<lparr>cpu := r\<rparr>) = (with_thread c th s)\<lparr>cpu := r\<rparr>" for th by (simp add: with_thread_def)
  then show "aside_of c (with_thread c th s) b = aside_of c s b" "aside_of c (s\<lparr>cpu := r\<rparr>) b = aside_of c s b"
    by (simp_all add: aside_of_def)
qed

lemma check_steps:
  assumes "handing l s"
  shows "\<exists>l' s'. bindE (load_thread (l_cur l) s) (\<lambda>th.
      bindE (ASSERT (status th \<noteq> THREAD_RUNNING) ''cur->status != THREAD_RUNNING'') (\<lambda>_. Inr (l, s))) = Inr (l', s') \<and> handing l' s'"
    "\<exists>l' s'. bindE (is_thread (l_next l) s) (\<lambda>c. bindE (ASSERT c ''is_thread (next)'') (\<lambda>_. Inr (l, s))) = Inr (l', s') \<and> handing l' s'"
    "\<exists>v. Inr (l_cur l \<noteq> l_next l) = Inr v \<and> (if v then handing l s else False)"
  using assms by (auto simp: handing_def frozen_def)

lemma save_step:
  assumes "handing l s"
  shows "\<exists>l' s'. bindE (update_thread (l_cur l) (\<lambda>th. th\<lparr>register_save := save_registers (cpu s) (register_save th)\<rparr>) s) (\<lambda>s.
    Inr (l, s)) = Inr (l', s') \<and> handing l' s'"
proof -
  obtain q where q: "threads s (l_cur l) = Some q" "status q = THREAD_DYING" "l_cur l \<noteq> 0" "magic q = THREAD_MAGIC" "l_cur l \<noteq> l_next l"
    using assms by (auto simp: handing_def frozen_def)
  define s' where "s' = s\<lparr>threads := (threads s)(l_cur l \<mapsto> q\<lparr>register_save := save_registers (cpu s) (register_save q)\<rparr>)\<rparr>"
  have "hands_over (l_cur l) (l_next l) s' = hands_over (l_cur l) (l_next l) s"
    unfolding s'_def hands_over_def handed_upd(1) [OF q(5)] ..
  then have "handing l s'" using assms q by (auto simp: handing_def frozen_def s'_def)
  with q show ?thesis by (simp add: s'_def)
qed

lemma load_step:
  assumes "handing l s"
  shows "\<exists>l' s'. bindE (load_thread (l_next l) s) (\<lambda>th. Inr (l, s\<lparr>cpu := load_registers (register_save th) (cpu s)\<rparr>)) =
    Inr (l', s') \<and> handing l' s'"
proof -
  obtain x where x: "threads s (l_next l) = Some x" "l_next l \<noteq> 0" using assms by (auto simp: handing_def)
  have "handed c n th (s\<lparr>cpu := r\<rparr>) = (handed c n th s)\<lparr>cpu := r\<rparr>" for c n th r by (simp add: handed_def)
  then have "hands_over c n (s\<lparr>cpu := r\<rparr>) = hands_over c n s" for c n r by (simp add: hands_over_def)
  then have "handing l (s\<lparr>cpu := r\<rparr>)" for r using assms by (auto simp: handing_def frozen_def)
  with x show ?thesis by simp
qed

lemma start_step:
  assumes "handing l s"
  shows "\<exists>l' s'. bindE (update_thread (l_next l) (\<lambda>th. th\<lparr>status := THREAD_RUNNING\<rparr>) s) (\<lambda>s. Inr (l, s)) = Inr (l', s') \<and> handing_on l' s'"
proof -
  obtain x where x: "threads s (l_next l) = Some x" "l_next l \<noteq> 0" "l_cur l \<noteq> l_next l" using assms by (auto simp: handing_def)
  define s' where "s' = s\<lparr>threads := (threads s)(l_next l \<mapsto> x\<lparr>status := THREAD_RUNNING\<rparr>)\<rparr>"
  have "hands_over (l_cur l) (l_next l) s' = hands_over (l_cur l) (l_next l) s"
    unfolding s'_def hands_over_def handed_upd(2) [OF x(3,1)] ..
  then have "handing_on l s'" using assms x by (auto simp: handing_on_def handing_def frozen_def s'_def)
  with x show ?thesis by (simp add: s'_def)
qed

lemma run_step:
  assumes "handing_on l s"
  shows "\<exists>l' s'. Inr (l\<lparr>l_prev := l_cur l\<rparr>, s\<lparr>thread_running_var := l_next l\<rparr>) = (Inr (l', s') :: outcome) \<and> dead (\<lambda>_ _. True) l' s'"
proof -
  obtain y b th where y: "threads s (l_next l) = Some y" "status y = THREAD_RUNNING" "l_cur l \<noteq> l_next l"
    "aside_of (l_cur l) (handed (l_cur l) (l_next l) th s) b"
    using assms by (auto simp: handing_on_def handing_def hands_over_def)
  then have "aside_of (l_cur l) (s\<lparr>thread_running_var := l_next l\<rparr>) b" by (simp add: handed_upd(3))
  then show ?thesis using assms by (auto simp: handing_on_def handing_def frozen_def dead_def)
qed

section \<open>Freeing\<close>

lemma stable_dead:
  assumes "\<And>l b. P l b \<Longrightarrow> P l (a_timer b)"
  shows "stable E (dead P)"
proof (rule stable_one)
  fix l s assume "dead P l s"
  then obtain b q where b: "aside_of (l_prev l) s b" "P l b" "threads s (l_prev l) = Some q" "status q = THREAD_DYING" "l_prev l \<noteq> 0"
    by (auto simp: dead_def)
  then have "ticking_aside (l_prev l) s b (insert (l_prev l) (set (a_all b)))"
    by (auto simp: aside_of_def ticking_aside_def sched_wf_def)
  then obtain s' where s': "timer_interrupt s = Some (Inr (True, s'))" "threads s' (l_prev l) = threads s (l_prev l)"
    "ticking_aside (l_prev l) s' (a_timer b) (insert (l_prev l) (set (a_all b)))"
    by (rule ticking_aside_timer)
  have "aside_of (l_prev l) s' (a_timer b)" using s'(3) b(1) timer_wf by (simp add: aside_of_def ticking_aside_def)
  then have "dead P l s'" using b s'(2) assms by (auto simp: dead_def)
  with s'(1) show "(\<exists>e. timer_interrupt s = Some (Inl e) \<and> E e) \<or> (\<exists>b s'. timer_interrupt s = Some (Inr (b, s')) \<and> dead P l s')" by blast
qed

lemma aside_cur:
  assumes "aside_of c s b"
  obtains th where "thread_running_var s = a_cur b" "threads s (a_cur b) = Some th" "a_cur b \<noteq> 0" "status th = THREAD_RUNNING"
    "a_cur b \<noteq> c" "initial_thread s = a_initial b" "c \<noteq> a_initial b"
proof -
  obtain x where x: "ticking (with_thread c x s) b (insert c (set (a_all b)))" "sched_wf b" "c \<notin> set (a_all b)"
    using assms by (auto simp: aside_of_def)
  have "a_cur b \<noteq> c" "c \<noteq> a_initial b" using x(2,3) by (auto simp: sched_wf_def)
  moreover obtain th where "threads (with_thread c x s) (a_cur b) = Some th" "a_cur b \<noteq> 0" "status th = THREAD_RUNNING"
    by (rule ticking_cur [OF x(1)])
  moreover have "thread_running_var s = a_cur b" "initial_thread s = a_initial b"
    using x(1) simD(2,4) [of "with_thread c x s" b] by (auto simp: ticking_def)
  ultimately show thesis using that by simp
qed

lemma cur_step:
  assumes "dead P l s"
  shows "\<exists>l' s'. Inr (l\<lparr>l_cur := running_thread s\<rparr>, s) = (Inr (l', s') :: outcome) \<and> dead at_cur l' s'"
  using assms by (auto simp: dead_def running_thread_def elim: aside_cur)

lemma mark_running_step:
  assumes "dead at_cur l s"
  shows "\<exists>l' s'. bindE (update_thread (l_cur l) (\<lambda>th. th\<lparr>status := THREAD_RUNNING\<rparr>) s) (\<lambda>s. Inr (l, s)) = Inr (l', s') \<and> dead at_cur l' s'"
proof -
  obtain b where b: "aside_of (l_prev l) s b" "l_cur l = a_cur b" using assms by (auto simp: dead_def)
  obtain th where th: "threads s (a_cur b) = Some th" "a_cur b \<noteq> 0" "status th = THREAD_RUNNING" by (rule aside_cur [OF b(1)])
  have "th\<lparr>status := THREAD_RUNNING\<rparr> = th" using th(3) by (cases th) simp
  then have "s\<lparr>threads := (threads s)(a_cur b \<mapsto> th\<lparr>status := THREAD_RUNNING\<rparr>)\<rparr> = s" using th(1) by (simp add: fun_upd_idem)
  with th b(2) assms show ?thesis by simp
qed

lemma slice_step:
  assumes "dead at_cur l s"
  shows "\<exists>s'. Inr (s\<lparr>thread_ticks := 0\<rparr>) = (Inr s' :: error + kernel) \<and> dead at_cur l s'"
proof -
  obtain b where b: "aside_of (l_prev l) s b" "l_cur l = a_cur b" using assms by (auto simp: dead_def)
  have "with_thread c th (s\<lparr>thread_ticks := 0\<rparr>) = (with_thread c th s)\<lparr>thread_ticks := 0\<rparr>" for c th by (simp add: with_thread_def)
  then have "aside_of (l_prev l) (s\<lparr>thread_ticks := 0\<rparr>) (b\<lparr>a_used := 0\<rparr>)"
    using b(1) ticking_used by (fastforce simp: aside_of_def)
  then show ?thesis using assms b(2) by (fastforce simp: dead_def)
qed

lemma dead_test:
  assumes "dead at_cur l s"
  shows "\<exists>v. andE (Inr (l_prev l \<noteq> 0)) (andE (bindE (load_thread (l_prev l) s) (\<lambda>th. Inr (status th = THREAD_DYING)))
      (Inr (l_prev l \<noteq> initial_thread s))) = Inr v \<and> (if v then dead at_cur l s else False)"
    "\<exists>l' s'. bindE (ASSERT (l_prev l \<noteq> l_cur l) ''prev != cur'') (\<lambda>_. Inr (l, s)) = Inr (l', s') \<and> dead at_cur l' s'"
proof -
  obtain b q where b: "aside_of (l_prev l) s b" "l_cur l = a_cur b" "threads s (l_prev l) = Some q" "status q = THREAD_DYING" "l_prev l \<noteq> 0"
    using assms by (auto simp: dead_def)
  have "a_cur b \<noteq> l_prev l" "initial_thread s = a_initial b" "l_prev l \<noteq> a_initial b" by (rule aside_cur [OF b(1)]; simp)+
  with b assms show "\<exists>v. andE (Inr (l_prev l \<noteq> 0)) (andE (bindE (load_thread (l_prev l) s) (\<lambda>th. Inr (status th = THREAD_DYING)))
      (Inr (l_prev l \<noteq> initial_thread s))) = Inr v \<and> (if v then dead at_cur l s else False)"
    "\<exists>l' s'. bindE (ASSERT (l_prev l \<noteq> l_cur l) ''prev != cur'') (\<lambda>_. Inr (l, s)) = Inr (l', s') \<and> dead at_cur l' s'"
    by (auto simp: andE_def)
qed

lemma free_step:
  assumes "dead P l s"
  shows "\<exists>l' s'. Inr (l, free_thread (l_prev l) s) = (Inr (l', s') :: outcome) \<and> good l' s'"
proof -
  define c where "c = l_prev l"
  obtain b th where b: "sched_wf b" "c \<notin> set (a_all b)" "ticking (with_thread c th s) b (insert c (set (a_all b)))"
    using assms by (auto simp: dead_def aside_of_def c_def)
  have f: "free_thread c (with_thread c th s) = free_thread c s" by (simp add: free_thread_def with_thread_def)
  have S: "sim (with_thread c th s) b (insert c (set (a_all b)))" "cur_status (with_thread c th s) = Some THREAD_RUNNING"
    using b(3) by (simp_all add: ticking_def)
  have c: "c \<notin> set (a_ready b)" "c \<notin> set (a_sleeping b)" "c \<noteq> a_cur b" using b(1,2) by (auto simp: sched_wf_def)
  have "lists_ok (free_thread c s) (a_ready b) (a_sleeping b) (a_all b) (set (a_all b))"
    using free_lists_ok [OF simD(1) [OF S(1)] c(1,2) b(2)] b(2) f by simp
  moreover have "threads (free_thread c s) = (threads (with_thread c th s))(c := None)" by (simp add: free_thread_def)
  ultimately have "sim (free_thread c s) b (set (a_all b))"
    using S(1) b(2) by (auto simp: sim_def free_thread_def)
  moreover have "cur_status (free_thread c s) = Some THREAD_RUNNING"
    using S(2) c(3) simD(2) [OF S(1)] by (simp add: cur_status_def free_thread_def)
  ultimately have "good l (free_thread c s)" using b(1) by (auto simp: good_def refines_def)
  then show ?thesis by (simp add: c_def)
qed

section \<open>The outline\<close>

lemma outline_False: "outline E (\<lambda>_ _. False) c Q"
  by (simp add: outline_def)

lemma tail_outline: "outline exit_window (dead (\<lambda>_ _. True)) tail_com good"
  unfolding tail_com_def seq.simps
  by (rule outline_Seq outline_Cond [where ?P1.0 = "dead at_cur" and ?P2.0 = "\<lambda>_ _. False"] outline_Do outline_stmt outline_False
      stable_dead cur_step mark_running_step slice_step dead_test free_step | simp)+

lemma frozen_handing: "handing l s \<Longrightarrow> frozen l s" "handing_on l s \<Longrightarrow> frozen l s" "dying_cur l s \<Longrightarrow> frozen l s"
  by (auto simp: handing_def handing_on_def dying_cur_def dest: dying_frozen)

lemma switch_outline: "outline exit_window handing switch_com (dead (\<lambda>_ _. True))"
  unfolding switch_com_def seq.simps
  by (rule outline_Seq outline_Do stable_frozen frozen_handing save_step load_step start_step run_step | assumption)+

lemma dying_start:
  assumes "dying l s"
  shows "\<exists>l' s'. Inr (l\<lparr>l_cur := running_thread s\<rparr>, s) = (Inr (l', s') :: outcome) \<and> dying_cur l' s'"
  using assms by (auto simp: dying_cur_def dying_def running_thread_def)

lemma schedule_outline: "outline exit_window dying schedule_com good"
  unfolding schedule_com_def seq.simps
  by (rule outline_Seq outline_Do outline_Cond [where ?P1.0 = handing and ?P2.0 = "\<lambda>_ _. False"] outline_False switch_outline
      tail_outline stable_frozen frozen_handing dying_frozen dying_start pick_step check_steps | assumption)+

lemma outline_Call_good: "outline E good c good \<Longrightarrow> outline E good (Call c) good"
  by (rule outline_Call) (auto simp: good_def)

lemma exit_test:
  assumes "good l s"
  shows "\<exists>v. andE (bindE (thread_current s) (\<lambda>t. Inr (t \<noteq> initial_thread s)))
      (bindE (thread_current s) (\<lambda>t. Inr (t \<noteq> idle_thread s))) = Inr v \<and> (if v then good_exit l s else good l s)"
  using assms by (rule good_current) (use assms in \<open>auto simp: andE_def good_exit_def exitable_def\<close>)

lemma exit_outline:
  assumes "irq_masking sd"
  shows "outline exit_window good (thread_exit_com sd) good"
proof -
  have sched: "outline exit_window dying (Call schedule_com) good"
    by (rule outline_Call [OF schedule_outline]) (auto simp: dying_def good_def)
  have yield: "outline exit_window good (Call (thread_yield_com sd)) good"
    by (rule outline_Call_good [OF yield_outline [OF assms]])
  show ?thesis
    unfolding thread_exit_com_def seq.simps
    by (rule outline_Cond [where ?P1.0 = good_exit and ?P2.0 = good] sched yield outline_Seq outline_stmt stable_good
        stable_good_exit stable_leaving leave_step print_step mark_step exit_test | assumption)+
qed

end
