(* ===== verification/Preempt_Loop.thy ===== *)
theory Preempt_Loop
  imports Preempt_Exit
begin

text \<open>
  An iteration of the main loop with timer interrupts at any of its statements: the proof outline of
  \<open>after_interrupt\<close>.  The only failure is the one of the window in \<open>thread_exit\<close>.
\<close>

section \<open>The idle thread\<close>

lemma block_if_idle_outline:
  assumes "irq_masking sd"
  shows "outline E good (block_if_idle_com sd) good"
  unfolding outline_def
proof (intro allI impI)
  fix l s r assume "good l s" and i: "interleaved (block_if_idle_com sd) l s r"
  then obtain a where a: "refines s a" by (auto simp: good_def)
  obtain s1 s' where s1: "taken s (Inr s1)" "block_if_idle_thread sd s1 = Inr s'" "r = Inr (l, s')"
    by (rule block_if_idle_atomic [OF a assms i])
  obtain k where "refines s1 ((a_timer ^^ k) a)" using taken_refines [OF s1(1) a] by blast
  with block_if_idle_step [OF this, of sd] s1(2,3) show "case r of Inl e \<Rightarrow> E e | Inr (l', s') \<Rightarrow> good l' s'"
    by (auto simp: good_def)
qed

section \<open>The body of the main loop\<close>

lemma good_duration:
  assumes "good l s"
  shows "\<exists>d. duration_of_current s = Inr d"
  using assms by (rule good_current) (simp add: duration_of_current_def)

lemma good_printf [simp]: "good l (printf f xs s) = good l s"
  by (simp add: good_def)

lemma good_print:
  assumes "good l s"
  shows "\<exists>s'. bindE (duration_of_current s) (\<lambda>d. Inr (printf f (g d s) s)) = Inr s' \<and> good l s'"
    "\<exists>s'. bindE (thread_current s) (\<lambda>t. bindE (load_thread t s) (\<lambda>th. Inr (printf f (h th) s))) = Inr s' \<and> good l s'"
proof -
  obtain a th where "refines s a" "thread_current s = Inr (a_cur a)" "threads s (a_cur a) = Some th" "a_cur a \<noteq> 0"
    by (rule good_current [OF assms]) blast
  with assms good_duration [OF assms]
  show "\<exists>s'. bindE (duration_of_current s) (\<lambda>d. Inr (printf f (g d s) s)) = Inr s' \<and> good l s'"
    "\<exists>s'. bindE (thread_current s) (\<lambda>t. bindE (load_thread t s) (\<lambda>th. Inr (printf f (h th) s))) = Inr s' \<and> good l s'"
    by auto
qed

lemma good_exit_req: "good l s \<Longrightarrow> \<exists>s'. Inr (s\<lparr>thread_exit_on_return := 0\<rparr>) = Inr s' \<and> good l s'"
  using refines_exit_req by (auto simp: good_def)

lemma good_branch:
  assumes "good l s"
  shows "\<exists>v. bindE (duration_of_current s) (\<lambda>d. Inr (p d)) = Inr v \<and> (if v then good l s else good l s)"
    "\<exists>v. andE (Inr (round_robin_mode s \<noteq> 0)) (bindE (is_ready_list_empty s) (\<lambda>e. Inr (\<not> e))) = Inr v \<and>
      (if v then good l s else good l s)"
    "\<exists>v. andE (Inr (thread_exit_on_return s \<noteq> 0)) (bindE (duration_of_current s) (\<lambda>d. Inr (d \<noteq> 0))) = Inr v \<and>
      (if v then good l s else good l s)"
    "\<exists>v. Inr (round_robin_ticks s \<le> thread_ticks s) = Inr v \<and> (if v then good l s else good l s)"
proof -
  obtain a where "refines s a" using assms by (auto simp: good_def)
  with ready_empty_ok good_duration [OF assms] assms
  show "\<exists>v. bindE (duration_of_current s) (\<lambda>d. Inr (p d)) = Inr v \<and> (if v then good l s else good l s)"
    "\<exists>v. andE (Inr (round_robin_mode s \<noteq> 0)) (bindE (is_ready_list_empty s) (\<lambda>e. Inr (\<not> e))) = Inr v \<and>
      (if v then good l s else good l s)"
    "\<exists>v. andE (Inr (thread_exit_on_return s \<noteq> 0)) (bindE (duration_of_current s) (\<lambda>d. Inr (d \<noteq> 0))) = Inr v \<and>
      (if v then good l s else good l s)"
    "\<exists>v. Inr (round_robin_ticks s \<le> thread_ticks s) = Inr v \<and> (if v then good l s else good l s)"
    by (fastforce simp: andE_def)+
qed

lemma after_interrupt_outline:
  assumes "irq_masking sd"
  shows "outline exit_window good (after_interrupt_com sd) good"
  unfolding after_interrupt_com_def seq.simps
  by (rule outline_Seq outline_Cond [where ?P1.0 = good and ?P2.0 = good] outline_stmt outline_skip outline_Call_good
      block_if_idle_outline [OF assms] exit_outline [OF assms] yield_outline [OF assms] stable_good
      good_branch good_print good_exit_req | assumption)+

end
