(* ===== verification/Preempt_Sleep.thy ===== *)
theory Preempt_Sleep
  imports Preempt_Loop
begin

text \<open>
  \<open>insertar_en_lista_espera\<close> and \<open>thread_sleep\<close> with timer interrupts at any statement.  The thread is on
  \<open>lista_espera\<close> before it is blocked, with interrupts enabled: an interrupt there may find its time
  elapsed, and \<open>thread_unblock\<close> panics.  This is the only failure.
\<close>

section \<open>The programs\<close>

definition insertar_com :: "sdk \<Rightarrow> s32 \<Rightarrow> com" where
  "insertar_com sd n = seq
     [Do (\<lambda>l s. bindE (thread_current s) (\<lambda>t. Inr (l\<lparr>l_cur := t\<rparr>, s))),
      Do (\<lambda>l s. bindE (update_thread (l_cur l) (\<lambda>th. th\<lparr>sleep_time := int_to_u64 (timer_ticks s + n)\<rparr>) s) (\<lambda>s. Inr (l, s))),
      Do (\<lambda>l s. bindE (on_links (list_push_back lista_espera (Some (Elem (l_cur l)))) s) (\<lambda>s. Inr (l, s))),
      Call (thread_block_com sd)]"

definition thread_sleep_com :: "sdk \<Rightarrow> s32 \<Rightarrow> com" where
  "thread_sleep_com sd n =
     Cond (\<lambda>l s. Inr (0 < sint n))
       (seq
         [stmt (\<lambda>s. bindE (thread_current s) (\<lambda>t. bindE (load_thread t s) (\<lambda>th.
            Inr (printf ''SLEEP thread %s - %d ticks.\<newline>'' [AStr (name th), AInt n] s)))),
          Call (insertar_com sd n)])
       (stmt (\<lambda>s. Inr (printf ''Sleep negativo! No se va a dormir.\<newline>'' [] s)))"

lemma insertar_computes: "computes (insertar_com sd n) (insertar_en_lista_espera sd n)"
  by (simp add: computes_def insertar_com_def insertar_en_lista_espera_def exec_norm bindE_right
      exec_Call [OF thread_block_computes] del: exec.simps(4))

lemma thread_sleep_computes: "computes (thread_sleep_com sd n) (thread_sleep sd n)"
  unfolding thread_sleep_com_def seq.simps
  by (rule computes_cong, (rule computes_rules insertar_computes)+)
    (simp add: thread_sleep_def bindE_assoc)

section \<open>Assertions\<close>

definition good_awake :: assertion where
  "good_awake l s \<longleftrightarrow> (\<exists>a. refines s a \<and> a_cur a \<noteq> a_idle a)"

definition good_actual :: assertion where
  "good_actual l s \<longleftrightarrow> (\<exists>a. refines s a \<and> a_cur a \<noteq> a_idle a \<and> l_cur l = a_cur a)"

text \<open>The running thread is the last of \<open>lista_espera\<close>.\<close>

definition dozes :: "sched \<Rightarrow> bool" where
  "dozes a \<longleftrightarrow> placed a \<and> a_cur a \<in> set (a_all a) \<and> a_sleeping a \<noteq> [] \<and> a_cur a = List.last (a_sleeping a)"

definition dozing :: assertion where
  "dozing l s \<longleftrightarrow> (\<exists>a. ticking s a (set (a_all a)) \<and> dozes a)"

definition sleep_window :: "error \<Rightarrow> bool" where
  "sleep_window e \<longleftrightarrow> e = Panic ''t->status == THREAD_BLOCKED''"

lemma stable_good_awake: "stable E good_awake"
  using stable_refines [of "\<lambda>_ a. a_cur a \<noteq> a_idle a"] by (simp add: good_awake_def [abs_def])

lemma stable_good_actual: "stable E good_actual"
  using stable_refines [of "\<lambda>l a. a_cur a \<noteq> a_idle a \<and> l_cur l = a_cur a"] by (simp add: good_actual_def [abs_def])

lemma dozesE:
  assumes "dozes a"
  obtains us where "a_sleeping a = us @ [a_cur a]" "a_cur a \<notin> set us" "placed a" "a_cur a \<in> set (a_all a)"
    "a_cur a \<notin> set (a_ready a)"
proof -
  obtain us where "a_sleeping a = us @ [a_cur a]"
    using assms by (metis append_butlast_last_id dozes_def)
  with assms that show thesis by (auto simp: dozes_def placed_def)
qed

section \<open>A timer interrupt while the running thread is on \<open>lista_espera\<close>\<close>

lemma dozes_timer:
  assumes "dozes a" "\<not> a_expired (a_now a + 1) a (a_cur a)"
  shows "dozes (a_timer a)"
proof -
  obtain us where us: "a_sleeping a = us @ [a_cur a]" "a_cur a \<notin> set us" "placed a" "a_cur a \<in> set (a_all a)"
    by (rule dozesE [OF assms(1)])
  with assms(2) show ?thesis
    by (auto simp: dozes_def placed_def a_timer_def a_tick_def a_wake_up_def a_expired_def Let_def)
qed

lemma timer_dozing:
  assumes "ticking s a D" "a_sleeping a = us @ [a_cur a]" "a_cur a \<notin> set us"
  shows "if a_expired (a_now a + 1) a (a_cur a)
    then timer_interrupt s = Some (Inl (Panic ''t->status == THREAD_BLOCKED''))
    else \<exists>s'. timer_interrupt s = Some (Inr (True, s')) \<and> ticking s' (a_timer a) D"
proof -
  define n where "n = a_now a + 1"
  define b where "b = a_tick (a\<lparr>a_now := n\<rparr>)"
  define c where "c = b\<lparr>a_ready := a_ready b @ filter (a_expired n b) us, a_sleeping := filter (\<lambda>t. \<not> a_expired n b t) us @ [a_cur b]\<rparr>"
  obtain s1 where s1: "timer_interrupt s = bindR (remover_thread_durmiente n s1) (\<lambda>s. Some (Inr (True, s)))" "ticking s1 b D"
    unfolding n_def b_def by (rule timer_interrupt_charge [OF assms(1)])
  have b: "a_sleeping b = us @ [a_cur b]" "a_cur b \<notin> set us" "a_cur b = a_cur a" "a_wake b = a_wake a"
    using assms(2,3) by (simp_all add: b_def a_tick_def)
  have "remover_thread_durmiente n s1 = remover_loop n (Some (hd (map Elem (us @ [a_cur b]) @ [Tail Lista_espera]))) s1"
    using remover_start [of s1 b D n] s1(2) b(1) by (simp add: ticking_def)
  moreover obtain s2 where s2: "remover_loop n (Some (hd (map Elem (us @ [a_cur b]) @ [Tail Lista_espera]))) s1 =
      remover_loop n (Some (Elem (a_cur a))) s2" "ticking s2 c D"
    using remover_loop_sim [OF s1(2), of "[]" us "[a_cur b]" n] b by (auto simp: c_def)
  ultimately have t: "timer_interrupt s = bindR (remover_loop n (Some (Elem (a_cur a))) s2) (\<lambda>s. Some (Inr (True, s)))"
    using s1(1) by simp
  have c: "a_cur c = a_cur a" "a_wake c = a_wake a" by (simp_all add: c_def b)
  obtain th where th: "threads s2 (a_cur a) = Some th" "a_cur a \<noteq> 0" "magic th = THREAD_MAGIC" "sleep_time th = a_wake a (a_cur a)"
    "status th = THREAD_RUNNING" using ticking_cur [OF s2(2)] c by metis
  have L: "is_list (links s2) (hdr Lista_espera) (map Elem (filter (\<lambda>t. \<not> a_expired n b t) us) @ Elem (a_cur a) # [])"
    using s2(2) lists_okD(2) [OF simD(1), of s2 c D] b by (simp add: ticking_def c_def)
  show ?thesis
  proof (cases "a_expired n a (a_cur a)")
    case True
    obtain m h where "list_remove (Some (Elem (a_cur a))) (links s2) = Inr (m, h)"
      using list_remove_spec [OF L] by metis
    with th True have "remover_loop n (Some (Elem (a_cur a))) s2 = Some (Inl (Panic ''t->status == THREAD_BLOCKED''))"
      by (subst remover_loop.simps) (simp add: a_expired_def thread_unblock_def is_thread_def ASSERT_def)
    with t True show ?thesis by (simp add: n_def)
  next
    case False
    have "list_next (Some (Elem (a_cur a))) (links s2) = Inr (Some (Tail Lista_espera))"
      using list_next_spec [OF L] by simp
    then have "remover_loop n (Some (Elem (a_cur a))) s2 = remover_loop n (Some (Tail Lista_espera)) s2"
      using th False by (subst remover_loop.simps) (simp add: a_expired_def)
    moreover have "remover_loop n (Some (Tail Lista_espera)) s2 = Some (Inr s2)"
      by (subst remover_loop.simps) simp
    moreover have "c = a_timer a"
      using False b assms(2) by (simp add: c_def a_timer_def a_wake_up_def b_def a_tick_def n_def a_expired_def [abs_def] Let_def)
    ultimately show ?thesis using t s2(2) False by (simp add: n_def)
  qed
qed

lemma stable_dozing: "stable sleep_window dozing"
proof (rule stable_one)
  fix l s assume "dozing l s"
  then obtain a where a: "ticking s a (set (a_all a))" "dozes a" by (auto simp: dozing_def)
  obtain us where us: "a_sleeping a = us @ [a_cur a]" "a_cur a \<notin> set us" by (rule dozesE [OF a(2)])
  have "dozing l s'" if "\<not> a_expired (a_now a + 1) a (a_cur a)" "ticking s' (a_timer a) (set (a_all a))" for s'
    unfolding dozing_def by (rule exI [of _ "a_timer a"]) (use that dozes_timer [OF a(2)] in simp)
  with timer_dozing [OF a(1) us] show "(\<exists>e. timer_interrupt s = Some (Inl e) \<and> sleep_window e) \<or>
      (\<exists>b s'. timer_interrupt s = Some (Inr (b, s')) \<and> dozing l s')"
    unfolding sleep_window_def by meson
qed

section \<open>Outlines\<close>

lemma actual_step:
  assumes "good_awake l s"
  shows "\<exists>l' s'. bindE (thread_current s) (\<lambda>t. Inr (l\<lparr>l_cur := t\<rparr>, s)) = Inr (l', s') \<and> good_actual l' s'"
  using assms refines_current by (fastforce simp: good_awake_def good_actual_def)

lemma refines_wake:
  assumes "refines s a" "threads s (a_cur a) = Some th"
  shows "refines (s\<lparr>threads := (threads s)(a_cur a \<mapsto> th\<lparr>sleep_time := w\<rparr>)\<rparr>) (a\<lparr>a_wake := (a_wake a)(a_cur a := w)\<rparr>)"
proof -
  note R = refinesD [OF assms(1)]
  have D: "a_cur a \<in> set (a_all a)" using R(2) by (simp add: sched_wf_def)
  have "sim (s\<lparr>links := links s, threads := (threads s)(a_cur a \<mapsto> th\<lparr>sleep_time := w\<rparr>)\<rparr>)
      (a\<lparr>a_wake := (a_wake a)(a_cur a := w)\<rparr>) (set (a_all a))"
    by (rule sim_update [OF R(1) D]) (use sim_thread [OF R(1) D] assms(2) simD(1) [OF R(1)] in \<open>auto simp: thread_ok_def status_ok_def\<close>)
  moreover have "cur_status (s\<lparr>threads := (threads s)(a_cur a \<mapsto> th\<lparr>sleep_time := w\<rparr>)\<rparr>) = Some THREAD_RUNNING"
    using R(3) assms(2) simD(2) [OF R(1)] by (simp add: cur_status_def)
  ultimately show ?thesis using R(2) by (simp add: refines_def sched_wf_def)
qed

lemma wake_step:
  assumes "good_actual l s"
  shows "\<exists>l' s'. bindE (update_thread (l_cur l) (\<lambda>th. th\<lparr>sleep_time := int_to_u64 (timer_ticks s + n)\<rparr>) s) (\<lambda>s. Inr (l, s)) =
    Inr (l', s') \<and> good_actual l' s'"
proof -
  obtain a where a: "refines s a" "a_cur a \<noteq> a_idle a" "l_cur l = a_cur a" using assms by (auto simp: good_actual_def)
  obtain th where "threads s (a_cur a) = Some th" "a_cur a \<noteq> 0" by (rule refines_cur [OF a(1)])
  with a refines_wake [OF a(1), of th "int_to_u64 (timer_ticks s + n)"] show ?thesis
    by (fastforce simp: good_actual_def)
qed

lemma doze_push:
  assumes "refines s a" "a_cur a \<noteq> a_idle a"
  obtains h where "on_links (list_push_back lista_espera (Some (Elem (a_cur a)))) s = Inr (s\<lparr>links := h\<rparr>)"
    "ticking (s\<lparr>links := h\<rparr>) (a\<lparr>a_sleeping := a_sleeping a @ [a_cur a]\<rparr>) (set (a_all a))"
    "dozes (a\<lparr>a_sleeping := a_sleeping a @ [a_cur a]\<rparr>)"
proof -
  note R = refinesD [OF assms(1)]
  have wf: "a_cur a \<in> set (a_all a)" "a_cur a \<notin> set (a_ready a)" "a_cur a \<notin> set (a_sleeping a)"
    using R(2) by (auto simp: sched_wf_def)
  define b where "b = a\<lparr>a_sleeping := a_sleeping a @ [a_cur a]\<rparr>"
  obtain h where h: "on_links (list_push_back lista_espera (Some (Elem (a_cur a)))) s = Inr (s\<lparr>links := h\<rparr>)"
    "lists_ok (s\<lparr>links := h\<rparr>) (a_ready a) (a_sleeping a @ [a_cur a]) (a_all a) (set (a_all a))"
    by (rule push_espera [OF simD(1) [OF R(1)] wf])
  have "thread_ok a t u = thread_ok b t u" for t u by (simp add: thread_ok_def status_ok_def b_def)
  with R(1) h(2) have "sim (s\<lparr>links := h\<rparr>) b (set (a_all a))" by (simp add: sim_def b_def)
  then have "ticking (s\<lparr>links := h\<rparr>) b (set (a_all a))" using R(3) wf(1) by (simp add: ticking_def cur_status_def b_def)
  moreover have "dozes b" using placed_sleep [OF R(2) assms(2), of "a_wake a"] wf(1) by (simp add: dozes_def b_def)
  ultimately show thesis using that h(1) by (simp add: b_def)
qed

lemma doze_step:
  assumes "good_actual l s"
  shows "\<exists>l' s'. bindE (on_links (list_push_back lista_espera (Some (Elem (l_cur l)))) s) (\<lambda>s. Inr (l, s)) = Inr (l', s') \<and> dozing l' s'"
proof -
  obtain a where a: "refines s a" "a_cur a \<noteq> a_idle a" "l_cur l = a_cur a" using assms by (auto simp: good_actual_def)
  obtain h where "on_links (list_push_back lista_espera (Some (Elem (a_cur a)))) s = Inr (s\<lparr>links := h\<rparr>)"
    "ticking (s\<lparr>links := h\<rparr>) (a\<lparr>a_sleeping := a_sleeping a @ [a_cur a]\<rparr>) (set (a_all a))"
    "dozes (a\<lparr>a_sleeping := a_sleeping a @ [a_cur a]\<rparr>)"
    by (rule doze_push [OF a(1,2)])
  with a(3) show ?thesis unfolding dozing_def by (auto intro!: exI [of _ "a\<lparr>a_sleeping := a_sleeping a @ [a_cur a]\<rparr>"])
qed

lemma doze_block_outline:
  assumes "irq_masking sd"
  shows "outline sleep_window dozing (thread_block_com sd) good"
  unfolding outline_def
proof (intro allI impI)
  fix l s r assume d: "dozing l s" and "interleaved (thread_block_com sd) l s r"
  then have "interleaved (Seq (save_com sd) (Seq thread_block_body (restore_com sd))) l s r" by (simp add: thread_block_com_def)
  from critical_interleaved [OF this bodies_masked(1) assms]
  consider (e) e where "taken s (Inl e)" "r = Inl e"
    | (ok) s1 where "taken s (Inr s1)" "r = exec (thread_block_com sd) l s1" by (auto simp: thread_block_com_def)
  then show "case r of Inl e \<Rightarrow> sleep_window e | Inr (l', s') \<Rightarrow> good l' s'"
  proof cases
    case e
    then show ?thesis using stable_fail [OF stable_dozing d] by simp
  next
    case ok
    obtain a where a: "ticking s1 a (set (a_all a))" "dozes a"
      using stable_step [OF stable_dozing d ok(1)] by (auto simp: dozing_def)
    obtain us where us: "placed a" "a_cur a \<in> set (a_all a)" "a_cur a \<notin> set (a_ready a)" by (rule dozesE [OF a(2)])
    obtain th where th: "threads s1 (a_cur a) = Some th" "magic th = THREAD_MAGIC" "status th = THREAD_RUNNING"
      by (rule ticking_cur [OF a(1)])
    have S: "sim s1 a (set (a_all a))" "hd (a_ready a @ [a_idle a]) \<in> set (a_all a)"
      using a(1) us(1) by (cases "a_ready a"; auto simp: ticking_def placed_def)+
    obtain s' where s': "thread_block sd s1 = Inr s'" "sim s' (a_dispatch a) (set (a_all a))" "cur_status s' = Some THREAD_RUNNING"
      by (rule thread_block_sim [OF S(1) th(1) us(2) th(2,3) us(3) S(2)])
    then have "refines s' (a_dispatch a)" using dispatch_wf [OF us(1)] by (simp add: refines_def)
    moreover obtain l' where "r = Inr (l', s')"
      using thread_block_computes s'(1) ok(2) InrE_state unfolding computes_def by metis
    ultimately show ?thesis by (auto simp: good_def)
  qed
qed

lemma insertar_outline:
  assumes "irq_masking sd"
  shows "outline sleep_window good_awake (insertar_com sd n) good"
proof -
  have "outline sleep_window dozing (Call (thread_block_com sd)) good"
    by (rule outline_Call [OF doze_block_outline [OF assms]]) (auto simp: dozing_def good_def)
  note steps = this outline_Seq outline_Do stable_good_awake stable_good_actual actual_step wake_step doze_step
  show ?thesis
    unfolding insertar_com_def seq.simps by (rule steps | assumption)+
qed

lemma awake_print:
  assumes "good_awake l s"
  shows "\<exists>s'. bindE (thread_current s) (\<lambda>t. bindE (load_thread t s) (\<lambda>th. Inr (printf f (h th) s))) = Inr s' \<and> good_awake l s'"
proof -
  obtain a where a: "refines s a" "a_cur a \<noteq> a_idle a" using assms by (auto simp: good_awake_def)
  obtain th where "threads s (a_cur a) = Some th" "a_cur a \<noteq> 0" by (rule refines_cur [OF a(1)])
  with refines_current [OF a(1)] a show ?thesis by (auto simp: good_awake_def)
qed

lemma sleep_outline:
  assumes "irq_masking sd"
  shows "outline sleep_window good_awake (thread_sleep_com sd n) good"
proof -
  have "outline sleep_window good (stmt (\<lambda>s. Inr (printf ''Sleep negativo! No se va a dormir.\<newline>'' [] s))) good"
    by (rule outline_stmt [OF stable_good]) simp
  moreover have "outline sleep_window good_awake (Seq (stmt (\<lambda>s. bindE (thread_current s) (\<lambda>t. bindE (load_thread t s) (\<lambda>th.
            Inr (printf ''SLEEP thread %s - %d ticks.\<newline>'' [AStr (name th), AInt n] s))))) (Call (insertar_com sd n))) good"
    by (rule outline_Seq [OF outline_stmt [OF stable_good_awake awake_print] outline_Call [OF insertar_outline [OF assms]]])
      (auto simp: good_awake_def good_def)
  ultimately show ?thesis
    unfolding thread_sleep_com_def seq.simps
    by (intro outline_Cond [where ?P1.0 = good_awake and ?P2.0 = good]) (use stable_good_awake in \<open>auto simp: good_awake_def good_def\<close>)
qed

section \<open>The window\<close>

text \<open>
  With a sleep of one tick the interrupt that comes right after the thread is put on \<open>lista_espera\<close> finds
  its time elapsed.
\<close>

lemma insertar_race:
  assumes "refines s a" "a_cur a \<noteq> a_idle a" "irq s = 0"
  shows "interleaved (insertar_com sd 1) l s (Inl (Panic ''t->status == THREAD_BLOCKED''))"
proof -
  obtain th where th: "threads s (a_cur a) = Some th" "a_cur a \<noteq> 0" by (rule refines_cur [OF assms(1)])
  define w where "w = int_to_u64 (timer_ticks s + 1)"
  define s1 where "s1 = s\<lparr>threads := (threads s)(a_cur a \<mapsto> th\<lparr>sleep_time := w\<rparr>)\<rparr>"
  define b where "b = a\<lparr>a_wake := (a_wake a)(a_cur a := w)\<rparr>"
  have s1: "refines s1 b" unfolding s1_def b_def by (rule refines_wake [OF assms(1) th(1)])
  have b: "a_cur b = a_cur a" "a_idle b = a_idle a" by (simp_all add: b_def)
  obtain h where h: "on_links (list_push_back lista_espera (Some (Elem (a_cur b)))) s1 = Inr (s1\<lparr>links := h\<rparr>)"
    "ticking (s1\<lparr>links := h\<rparr>) (b\<lparr>a_sleeping := a_sleeping b @ [a_cur b]\<rparr>) (set (a_all b))"
    by (rule doze_push [OF s1]) (use assms(2) b in simp)
  have now: "a_now b = ticks s" using simD(6) [OF refinesD(1) [OF s1]] by (simp add: s1_def)
  have "a_cur b \<notin> set (a_sleeping b)" using refinesD(2) [OF s1] by (simp add: sched_wf_def)
  moreover have "a_expired (a_now b + 1) (b\<lparr>a_sleeping := a_sleeping b @ [a_cur b]\<rparr>) (a_cur b)"
    by (simp add: a_expired_def now) (simp add: b_def w_def timer_ticks_def)
  ultimately have "timer_interrupt (s1\<lparr>links := h\<rparr>) = Some (Inl (Panic ''t->status == THREAD_BLOCKED''))"
    using timer_dozing [OF h(2), of "a_sleeping b"] by simp
  moreover have "irq (s1\<lparr>links := h\<rparr>) = 0" using assms(3) by (simp add: s1_def)
  ultimately have irq: "interleaved c l (s1\<lparr>links := h\<rparr>) (Inl (Panic ''t->status == THREAD_BLOCKED''))" for c l
    by (intro interleaved.Irq taken.fails)
  show ?thesis
    unfolding insertar_com_def seq.simps
    by (rule Do_then [where ?l1.0 = "l\<lparr>l_cur := a_cur a\<rparr>" and ?s1.0 = s],
        use refines_current [OF assms(1)] in simp,
        rule Do_then [where ?l1.0 = "l\<lparr>l_cur := a_cur a\<rparr>" and ?s1.0 = s1],
        use th in \<open>simp add: s1_def w_def\<close>,
        rule Do_then [OF _ irq, where ?l1.0 = "l\<lparr>l_cur := a_cur a\<rparr>"], use h(1) b(1) in simp)
qed

lemma sleep_race:
  assumes "refines s a" "a_cur a \<noteq> a_idle a" "irq s = 0"
  shows "interleaved (thread_sleep_com sd 1) l s (Inl (Panic ''t->status == THREAD_BLOCKED''))"
proof -
  obtain th where th: "threads s (a_cur a) = Some th" "a_cur a \<noteq> 0" by (rule refines_cur [OF assms(1)])
  define s1 where "s1 = printf ''SLEEP thread %s - %d ticks.\<newline>'' [AStr (name th), AInt 1] s"
  have "interleaved (Call (insertar_com sd 1)) l s1 (Inl (Panic ''t->status == THREAD_BLOCKED''))"
    by (rule interleaved.CallE, rule insertar_race) (use assms in \<open>auto simp: s1_def\<close>)
  then show ?thesis
    unfolding thread_sleep_com_def seq.simps stmt_def
    by (intro interleaved.CondT [OF taken.none] Do_then [where ?l1.0 = l and ?s1.0 = s1])
      (use th refines_current [OF assms(1)] in \<open>simp_all add: s1_def\<close>)
qed

end
