(* ===== verification/Preempt_Create.thy ===== *)
theory Preempt_Create
  imports Preempt_Exit
begin

text \<open>
  \<open>thread_create\<close> with timer interrupts at any statement.  The new thread is aside while it is made: no interrupt
  looks at it before it is on \<open>ready_list\<close>, and then only at its place there.  So the creation takes effect
  at one moment, the insertion into \<open>ready_list\<close>.
\<close>

section \<open>The programs\<close>

definition init_thread_com :: "tptr \<Rightarrow> cstr \<Rightarrow> com" where
  "init_thread_com t nm = seq
     [stmt (\<lambda>s. bindE (ASSERT (t \<noteq> 0) ''t != NULL'') (\<lambda>_. Inr s)),
      stmt (\<lambda>s. bindE (ASSERT (nm \<noteq> NullStr) ''name != NULL'') (\<lambda>_. Inr s)),
      stmt (\<lambda>s. Inr (zero_thread_at t s)),
      stmt (update_thread t (\<lambda>th. th\<lparr>status := THREAD_BLOCKED\<rparr>)),
      stmt (update_thread t (\<lambda>th. th\<lparr>name := strlcpy (chars nm) 16\<rparr>)),
      stmt (update_thread t (\<lambda>th. th\<lparr>stack := t + PGSIZE\<rparr>)),
      stmt (update_thread t (\<lambda>th. th\<lparr>magic := THREAD_MAGIC\<rparr>)),
      stmt (update_thread t (\<lambda>th. th\<lparr>duration_ticks := 9999999\<rparr>)),
      stmt (on_links (list_push_back all_list (Some (AllElem t))))]"

text \<open>\<open>alloc_frame\<close> with its result in the variable \<open>kf\<close> of \<open>thread_create\<close>.\<close>

definition alloc_frame_com :: "tptr \<Rightarrow> u32 \<Rightarrow> com" where
  "alloc_frame_com t sz = seq
     [stmt (\<lambda>s. bindE (is_thread t s) (\<lambda>c. bindE (ASSERT c ''is_thread (t)'') (\<lambda>_. Inr s))),
      stmt (\<lambda>s. bindE (ASSERT (sz mod 4 = 0) ''size % sizeof (uint32_t) == 0'') (\<lambda>_. Inr s)),
      stmt (update_thread t (\<lambda>th. th\<lparr>stack := stack th - sz\<rparr>)),
      Do (\<lambda>l s. bindE (load_thread t s) (\<lambda>th. Inr (l\<lparr>l_kf := stack th\<rparr>, s)))]"

definition thread_unblock_com :: "tptr \<Rightarrow> com" where
  "thread_unblock_com t = seq
     [stmt (\<lambda>s. bindE (is_thread t s) (\<lambda>c. bindE (ASSERT c ''is_thread (t)'') (\<lambda>_. Inr s))),
      stmt (\<lambda>s. bindE (load_thread t s) (\<lambda>th.
        bindE (ASSERT (status th = THREAD_BLOCKED) ''t->status == THREAD_BLOCKED'') (\<lambda>_. Inr s))),
      stmt (on_links (list_push_back ready_list (Some (Elem t)))),
      stmt (update_thread t (\<lambda>th. th\<lparr>status := THREAD_READY\<rparr>))]"

definition note_idle_com :: "tptr \<Rightarrow> cstr \<Rightarrow> com" where
  "note_idle_com t nm =
     Cond (\<lambda>l s. Inr (nm = StrLit ''idle'' \<and> l_tid l = 2)) (stmt (\<lambda>s. Inr (s\<lparr>idle_thread := t\<rparr>))) skip"

definition thread_create_com :: "sdk \<Rightarrow> tptr \<Rightarrow> cstr \<Rightarrow> u32 \<Rightarrow> u32 \<Rightarrow> s32 \<Rightarrow> com" where
  "thread_create_com sd t nm func ax duration = seq
     [stmt (\<lambda>s. Inr (calloc_thread t s)),
      Cond (\<lambda>l s. Inr (t = 0))
        (Do (\<lambda>l s. Inr (l\<lparr>l_tid := TID_ERROR\<rparr>, s)))
        (seq
          [Call (init_thread_com t nm),
           Do (\<lambda>l s. case allocate_tid s of (new_tid, s) \<Rightarrow> Inr (l\<lparr>l_tid := new_tid\<rparr>, s)),
           Do (\<lambda>l s. bindE (update_thread t (\<lambda>th. th\<lparr>tid := l_tid l\<rparr>) s) (\<lambda>s. Inr (l, s))),
           stmt (update_thread t (\<lambda>th. th\<lparr>duration_ticks := duration\<rparr>)),
           stmt (\<lambda>s. Inr (printf (''Se cre'' @ [CHR 0xC3, CHR 0xB3] @ '' el thread \"%s\" con duraci'' @
                      [CHR 0xC3, CHR 0xB3] @ ''n %d\<newline>'') [AStr (chars nm), AInt duration] s)),
           alloc_frame_com t sizeof_kernel_thread_frame,
           Do (\<lambda>l s. Inr (l, store_frame (l_kf l) (\<lambda>k. k\<lparr>eip := 0\<rparr>) s)),
           Do (\<lambda>l s. Inr (l, store_frame (l_kf l) (\<lambda>k. k\<lparr>function := func\<rparr>) s)),
           Do (\<lambda>l s. Inr (l, store_frame (l_kf l) (\<lambda>k. k\<lparr>aux := ax\<rparr>) s)),
           Call (thread_unblock_com t),
           note_idle_com t nm,
           Call (block_if_idle_com sd)])]"

text \<open>Without interrupts they are the functions of \<open>Thread\<close>.\<close>

lemma init_thread_computes: "computes (init_thread_com t nm) (init_thread t nm)"
  unfolding init_thread_com_def seq.simps
  by (rule computes_cong, (rule computes_rules)+) (simp add: init_thread_def bindE_assoc)

lemma thread_unblock_computes: "computes (thread_unblock_com t) (thread_unblock t)"
  unfolding thread_unblock_com_def seq.simps
  by (rule computes_cong, (rule computes_rules)+) (simp add: thread_unblock_def bindE_assoc)

lemma exec_alloc_frame:
  "exec (alloc_frame_com t sz) l s = bindE (alloc_frame t sz s) (\<lambda>(kf, s). Inr (l\<lparr>l_kf := kf\<rparr>, s))"
  by (simp add: alloc_frame_com_def alloc_frame_def exec_norm)

lemma exec_note_idle: "exec (note_idle_com t nm) l s = Inr (l, if nm = StrLit ''idle'' \<and> l_tid l = 2 then s\<lparr>idle_thread := t\<rparr> else s)"
  by (simp add: note_idle_com_def exec_norm)

lemma thread_create_computes:
  "bindE (exec (thread_create_com sd t nm f ax d) l s) (\<lambda>(l, s). Inr (l_tid l, s)) = thread_create sd t nm f ax d s"
  by (simp add: thread_create_com_def thread_create_def exec_alloc_frame exec_note_idle stmt_def save_com_def
      bindE_assoc bindE_if case_prod_unfold Let_def
      exec_Call [OF init_thread_computes] exec_Call [OF thread_unblock_computes] exec_Call [OF block_if_idle_computes]
      del: exec.simps(4) cong: if_cong)

section \<open>A thread in the making\<close>

definition tick_closed :: "(sched \<Rightarrow> bool) \<Rightarrow> bool" where
  "tick_closed P \<longleftrightarrow> (\<forall>b. P b \<longrightarrow> P (a_timer b))"

text \<open>The scheduler before \<open>t\<close> is on \<open>all_list\<close>, then before it is on \<open>ready_list\<close>, then after.\<close>

definition registered :: "tptr \<Rightarrow> sched \<Rightarrow> sched" where
  "registered t a = a\<lparr>a_all := a_all a @ [t]\<rparr>"

definition fresh_run :: "sched \<Rightarrow> sched \<Rightarrow> bool" where
  "fresh_run a b \<longleftrightarrow> (\<exists>k. b = (a_timer ^^ k) a)"

definition registered_run :: "tptr \<Rightarrow> sched \<Rightarrow> sched \<Rightarrow> bool" where
  "registered_run t a b \<longleftrightarrow> (\<exists>k. b = registered t ((a_timer ^^ k) a))"

definition queued_run :: "tptr \<Rightarrow> s32 \<Rightarrow> sched \<Rightarrow> sched \<Rightarrow> bool" where
  "queued_run t d a b \<longleftrightarrow> (\<exists>j k. b = (a_timer ^^ j) (a_add t d ((a_timer ^^ k) a)))"

lemma timer_registered: "a_timer (registered t a) = registered t (a_timer a)"
  by (simp add: a_timer_def a_tick_def a_wake_up_def registered_def a_expired_def [abs_def] Let_def)

lemma runs_closed: "tick_closed (fresh_run a)" "tick_closed (registered_run t a)" "tick_closed (queued_run t d a)"
proof -
  have step: "a_timer ((a_timer ^^ k) b) = (a_timer ^^ Suc k) b" for k b by simp
  show "tick_closed (fresh_run a)" unfolding tick_closed_def fresh_run_def using step by blast
  show "tick_closed (registered_run t a)" unfolding tick_closed_def registered_run_def using step timer_registered by metis
  show "tick_closed (queued_run t d a)" unfolding tick_closed_def queued_run_def using step by blast
qed

lemma timers_other: "t \<noteq> a_cur a \<Longrightarrow> a_dur ((a_timer ^^ k) a) t = a_dur a t" "a_wake ((a_timer ^^ k) a) t = a_wake a t"
  by (induction k) (simp_all add: a_timer_def a_tick_def a_wake_up_def Let_def)

lemma fresh_runD: "fresh_run a b \<Longrightarrow> sched_wf a \<Longrightarrow> sched_wf b" "fresh_run a b \<Longrightarrow> a_all b = a_all a"
  by (auto simp: fresh_run_def timers_wf)

lemma queued_runD:
  assumes "queued_run t d a b" "sched_wf a" "t \<notin> set (a_all a)"
  shows "sched_wf b" "t \<in> set (a_all b)" "a_dur b t = d" "a_wake b t = 0"
proof -
  obtain j k where b: "b = (a_timer ^^ j) (a_add t d ((a_timer ^^ k) a))" using assms(1) by (auto simp: queued_run_def)
  have "t \<noteq> a_cur (a_add t d ((a_timer ^^ k) a))" using assms(2,3) by (auto simp: a_add_def sched_wf_def)
  then show "t \<in> set (a_all b)" "a_dur b t = d" "a_wake b t = 0" using timers_other by (simp_all add: b a_add_def)
  show "sched_wf b" unfolding b by (intro timers_wf add_wf assms(2)) (simp add: assms(3))
qed

text \<open>
  The new thread has the record \<open>X\<close>; the rest of the kernel is as the scheduler wants it.  \<open>i\<close> is the next
  thread id.
\<close>

definition making :: "(sched \<Rightarrow> bool) \<Rightarrow> (locals \<Rightarrow> bool) \<Rightarrow> s32 \<Rightarrow> thread \<Rightarrow> tptr \<Rightarrow> assertion" where
  "making P L i X t l s \<longleftrightarrow> (\<exists>b. ticking_aside t s b (insert t (set (a_all b))) \<and> P b) \<and>
     threads s t = Some X \<and> t \<noteq> 0 \<and> next_tid s = i \<and> L l"

lemma stable_making: "tick_closed P \<Longrightarrow> stable E (making P L i X t)"
proof (rule stable_one)
  fix l s assume P: "tick_closed P" and "making P L i X t l s"
  then obtain b where b: "ticking_aside t s b (insert t (set (a_all b)))" "P b" "threads s t = Some X" "t \<noteq> 0" "next_tid s = i" "L l"
    by (auto simp: making_def)
  obtain s' where s': "timer_interrupt s = Some (Inr (True, s'))" "ticking_aside t s' (a_timer b) (insert t (set (a_all b)))"
    "threads s' t = threads s t" "next_tid s' = next_tid s" by (rule ticking_aside_timer [OF b(1)])
  have "making P L i X t l s'"
    unfolding making_def using s'(2-4) b(2-6) P by (auto simp: tick_closed_def intro!: exI [of _ "a_timer b"])
  with s'(1) show "(\<exists>e. timer_interrupt s = Some (Inl e) \<and> E e) \<or>
      (\<exists>b s'. timer_interrupt s = Some (Inr (b, s')) \<and> making P L i X t l s')" by blast
qed

text \<open>A change of the links and of the record of the thread, with the change of the scheduler it stands for.\<close>

lemma aside_change:
  assumes "ticking_aside t s b D" "t \<in> D" "thread_ok b' t y" "t \<notin> set (a_sleeping b')" "a_sleeping b' = a_sleeping b"
    and "\<And>u x. thread_ok b u x \<Longrightarrow> u \<noteq> t \<Longrightarrow> thread_ok b' u x"
    and "lists_ok (s\<lparr>links := h\<rparr>) (a_ready b') (a_sleeping b') (a_all b') D"
    and "a_cur b' = a_cur b" "a_idle b' = a_idle b" "a_initial b' = a_initial b" "a_used b' = a_used b"
    "a_now b' = a_now b" "a_mode b' = a_mode b" "a_quantum b' = a_quantum b" "a_exit_req b' = a_exit_req b"
  shows "ticking (with_thread t y (s\<lparr>links := h\<rparr>)) b' D" "ticking_aside t (with_thread t z (s\<lparr>links := h\<rparr>)) b' D"
proof -
  obtain th where th: "ticking (with_thread t th s) b D" "threads s t \<noteq> None" "t \<noteq> a_cur b" "a_cur b \<notin> set (a_sleeping b)"
    using assms(1) by (auto simp: ticking_aside_def)
  have "sim (with_thread t th s) b D" using th(1) by (simp add: ticking_def)
  then have "sim ((with_thread t th s)\<lparr>links := h, threads := (threads (with_thread t th s))(t \<mapsto> y)\<rparr>) b' D"
    by (rule sim_update [OF _ assms(2,3,6)])
      (use assms(7-15) th(2) in \<open>auto simp: lists_ok_def\<close>)
  moreover have "(with_thread t th s)\<lparr>links := h, threads := (threads (with_thread t th s))(t \<mapsto> y)\<rparr> = with_thread t y (s\<lparr>links := h\<rparr>)"
    by (simp add: with_thread_def)
  ultimately have "sim (with_thread t y (s\<lparr>links := h\<rparr>)) b' D" by simp
  moreover have "cur_status (with_thread t y (s\<lparr>links := h\<rparr>)) = Some THREAD_RUNNING" "a_cur b \<in> D"
    using th(1,3) simD(2) [of "with_thread t th s" b D] by (auto simp: ticking_def cur_status_def)
  ultimately show t: "ticking (with_thread t y (s\<lparr>links := h\<rparr>)) b' D" using assms(8) by (simp add: ticking_def)
  then have "ticking (with_thread t y (with_thread t z (s\<lparr>links := h\<rparr>))) b' D" by simp
  then show "ticking_aside t (with_thread t z (s\<lparr>links := h\<rparr>)) b' D"
    using th(3,4) assms(4,5,8) unfolding ticking_aside_def by auto
qed

section \<open>The statements\<close>

lemma making_with: "making P L i X t l s \<Longrightarrow> making P L i Y t l (with_thread t Y s)"
  unfolding making_def ticking_aside_def by (auto simp: with_thread_def)

lemma making_frame:
  assumes "making P L i X t l s" "links s' = links s" "threads s' = threads s" "thread_running_var s' = thread_running_var s"
    "idle_thread s' = idle_thread s" "initial_thread s' = initial_thread s" "thread_ticks s' = thread_ticks s" "ticks s' = ticks s"
    "round_robin_mode s' = round_robin_mode s" "round_robin_ticks s' = round_robin_ticks s"
    "thread_exit_on_return s' = thread_exit_on_return s" "next_tid s' = j" "M l'"
  shows "making P M j X t l' s'"
proof -
  have "ticking (with_thread t th s') b D = ticking (with_thread t th s) b D" for th b D
    unfolding ticking_def cur_status_def
    by (subst sim_cong [of "with_thread t th s'" "with_thread t th s"]) (use assms in simp_all)
  then show ?thesis using assms unfolding making_def ticking_aside_def by auto
qed

lemma update_making:
  assumes "making P L i X t l s"
  shows "\<exists>s'. update_thread t f s = Inr s' \<and> making P L i (f X) t l s'"
  using making_with [OF assms, of "f X"] assms by (auto simp: making_def with_thread_def)

lemma assert_making:
  assumes "making P L i X t l s"
  shows "nm \<noteq> NullStr \<Longrightarrow> \<exists>s'. bindE (ASSERT (nm \<noteq> NullStr) m) (\<lambda>_. Inr s) = Inr s' \<and> making P L i X t l s'"
    "\<exists>s'. bindE (ASSERT (t \<noteq> 0) m) (\<lambda>_. Inr s) = Inr s' \<and> making P L i X t l s'"
    "magic X = THREAD_MAGIC \<Longrightarrow>
      \<exists>s'. bindE (is_thread t s) (\<lambda>c. bindE (ASSERT c m) (\<lambda>_. Inr s)) = Inr s' \<and> making P L i X t l s'"
    "status X = THREAD_BLOCKED \<Longrightarrow>
      \<exists>s'. bindE (load_thread t s) (\<lambda>th. bindE (ASSERT (status th = THREAD_BLOCKED) m) (\<lambda>_. Inr s)) = Inr s' \<and> making P L i X t l s'"
    "\<exists>s'. bindE (ASSERT (sizeof_kernel_thread_frame mod 4 = 0) m) (\<lambda>_. Inr s) = Inr s' \<and> making P L i X t l s'"
  using assms by (auto simp: making_def sizeof_kernel_thread_frame_def)

lemma on_links_same: "on_links f u = Inr (u\<lparr>links := h\<rparr>) \<Longrightarrow> links s = links u \<Longrightarrow> on_links f s = Inr (s\<lparr>links := h\<rparr>)"
  by (auto simp: on_links_def elim!: bindE_eq_InrE dest: arg_cong [where f = links])

lemma aside_lists:
  assumes "ticking_aside t s b D"
  shows "lists_ok s (a_ready b) (a_sleeping b) (a_all b) D"
proof -
  obtain th where "ticking (with_thread t th s) b D" "threads s t \<noteq> None" using assms by (auto simp: ticking_aside_def)
  then show ?thesis
    using simD(1) [of "with_thread t th s" b D] by (subst lists_ok_cong [of s "with_thread t th s"]) (auto simp: ticking_def)
qed

lemma aside_ok:
  assumes "ticking_aside t s b D" "t \<in> D"
  obtains y where "thread_ok b t y" "t \<notin> set (a_sleeping b)"
  using assms by (auto simp: ticking_aside_def ticking_def sim_def)

lemma memset_step:
  assumes "making (fresh_run a) L i X t l s" "t \<notin> set (a_all a)" "sched_wf a"
  shows "\<exists>s'. Inr (zero_thread_at t s) = (Inr s' :: error + kernel) \<and> making (fresh_run a) L i zero_thread t l s'"
proof -
  obtain b where b: "ticking_aside t s b (insert t (set (a_all b)))" "fresh_run a b" "t \<noteq> 0"
    using assms(1) by (auto simp: making_def)
  have off: "t \<notin> set (a_ready b)" "t \<notin> set (a_sleeping b)" "t \<notin> set (a_all b)"
    using fresh_runD [OF b(2)] assms(2,3) by (auto simp: sched_wf_def)
  obtain y where y: "thread_ok b t y" by (rule aside_ok [OF b(1)]) simp
  define h where "h = (links s)(AllElem t \<mapsto> null_elem, Elem t \<mapsto> null_elem)"
  have "lists_ok (zero_thread_at t s) (a_ready b) (a_sleeping b) (a_all b) (insert t (insert t (set (a_all b))))"
    by (rule zero_lists_off [OF aside_lists [OF b(1)] b(3) off])
  then have "lists_ok (s\<lparr>links := h\<rparr>) (a_ready b) (a_sleeping b) (a_all b) (insert t (set (a_all b)))"
    using assms(1) by (subst lists_ok_cong [of _ "zero_thread_at t s"]) (auto simp: zero_thread_at_def h_def making_def)
  then have "ticking_aside t (with_thread t zero_thread (s\<lparr>links := h\<rparr>)) b (insert t (set (a_all b)))"
    by (intro aside_change(2) [OF b(1) _ y]) (use off in simp_all)
  moreover have "with_thread t zero_thread (s\<lparr>links := h\<rparr>) = zero_thread_at t s" by (simp add: with_thread_def zero_thread_at_def h_def)
  ultimately show ?thesis using assms(1) b unfolding making_def by (auto simp: zero_thread_at_def)
qed

lemma register_step:
  assumes "making (fresh_run a) L i X t l s" "t \<notin> set (a_all a)" "sched_wf a"
  shows "\<exists>s'. on_links (list_push_back all_list (Some (AllElem t))) s = Inr s' \<and> making (registered_run t a) L i X t l s'"
proof -
  obtain b where b: "ticking_aside t s b (insert t (set (a_all b)))" "fresh_run a b" "threads s t = Some X"
    using assms(1) by (auto simp: making_def)
  have off: "t \<notin> set (a_all b)" "t \<notin> set (a_sleeping b)"
    using fresh_runD [OF b(2)] assms(2,3) by (auto simp: sched_wf_def)
  obtain y where y: "thread_ok b t y" by (rule aside_ok [OF b(1)]) simp
  obtain h where h: "on_links (list_push_back all_list (Some (AllElem t))) s = Inr (s\<lparr>links := h\<rparr>)"
    "lists_ok (s\<lparr>links := h\<rparr>) (a_ready b) (a_sleeping b) (a_all b @ [t]) (insert t (set (a_all b)))"
    by (rule push_all [OF aside_lists [OF b(1)] insertI1 off(1)])
  have ok: "thread_ok (registered t b) u x = thread_ok b u x" for u x by (simp add: thread_ok_def status_ok_def registered_def)
  have "ticking_aside t (with_thread t X (s\<lparr>links := h\<rparr>)) (registered t b) (insert t (set (a_all b)))"
    by (rule aside_change(2) [OF b(1) insertI1]) (use h(2) y off in \<open>simp_all add: ok\<close>, simp_all add: registered_def)
  moreover have "with_thread t X (s\<lparr>links := h\<rparr>) = s\<lparr>links := h\<rparr>" using b(3) by (simp add: with_thread_same)
  moreover have "insert t (set (a_all (registered t b))) = insert t (set (a_all b))" by (simp add: registered_def)
  moreover have "registered_run t a (registered t b)" using b(2) by (auto simp: registered_run_def fresh_run_def)
  ultimately have "making (registered_run t a) L i X t l (s\<lparr>links := h\<rparr>)"
    using assms(1) unfolding making_def by (auto intro!: exI [of _ "registered t b"])
  with h(1) show ?thesis by blast
qed

lemma enqueue_step:
  assumes "making (registered_run t a) L i X t l s" "t \<notin> set (a_all a)" "sched_wf a"
    and "magic X = THREAD_MAGIC" "duration_ticks X = d" "sleep_time X = 0"
  shows "\<exists>s'. on_links (list_push_back ready_list (Some (Elem t))) s = Inr s' \<and> making (queued_run t d a) L i X t l s'"
proof -
  obtain b where b: "ticking_aside t s b (insert t (set (a_all b)))" "registered_run t a b" "threads s t = Some X"
    using assms(1) by (auto simp: making_def)
  obtain c where c: "b = registered t c" "fresh_run a c" using b(2) by (auto simp: registered_run_def fresh_run_def)
  have off: "t \<notin> set (a_ready b)" "t \<notin> set (a_sleeping b)" "t \<noteq> a_cur b"
    using fresh_runD [OF c(2)] assms(2,3) by (auto simp: sched_wf_def c(1) registered_def)
  obtain h where h: "on_links (list_push_back ready_list (Some (Elem t))) s = Inr (s\<lparr>links := h\<rparr>)"
    "lists_ok (s\<lparr>links := h\<rparr>) (a_ready b @ [t]) (a_sleeping b) (a_all b) (insert t (set (a_all b)))"
    by (rule push_ready [OF aside_lists [OF b(1)] insertI1 off(1,2)])
  have ok: "thread_ok (a_add t d c) t (X\<lparr>status := THREAD_READY\<rparr>)"
    "thread_ok b u x \<Longrightarrow> u \<noteq> t \<Longrightarrow> thread_ok (a_add t d c) u x" for u x
    using assms(4-6) off by (auto simp: thread_ok_def status_ok_def a_add_def c(1) registered_def)
  have "ticking_aside t (with_thread t X (s\<lparr>links := h\<rparr>)) (a_add t d c) (insert t (set (a_all b)))"
    by (rule aside_change(2) [OF b(1) insertI1 ok(1) _ _ ok(2)]) (use h(2) off in \<open>simp_all add: c(1) a_add_def registered_def\<close>)
  moreover have "with_thread t X (s\<lparr>links := h\<rparr>) = s\<lparr>links := h\<rparr>" using b(3) by (simp add: with_thread_same)
  moreover have "insert t (set (a_all (a_add t d c))) = insert t (set (a_all b))" by (simp add: a_add_def c(1) registered_def)
  moreover have "queued_run t d a (a_add t d c)"
    using c(2) unfolding queued_run_def fresh_run_def by (metis funpow_0)
  ultimately have "making (queued_run t d a) L i X t l (s\<lparr>links := h\<rparr>)"
    using assms(1) unfolding making_def by (auto intro!: exI [of _ "a_add t d c"])
  with h(1) show ?thesis by blast
qed

text \<open>The thread is ready, and then the idle thread may have handed over.\<close>

definition made :: "(sched \<Rightarrow> sched) \<Rightarrow> (sched \<Rightarrow> bool) \<Rightarrow> (locals \<Rightarrow> bool) \<Rightarrow> s32 \<Rightarrow> cstr \<Rightarrow> tptr \<Rightarrow> assertion" where
  "made f P L i nm t l s \<longleftrightarrow> (\<exists>b. refines s (f b) \<and> P b) \<and>
     (\<exists>th. threads s t = Some th \<and> tid th = i \<and> name th = strlcpy (chars nm) 16) \<and> next_tid s = i + 1 \<and> L l"

lemma stable_made: "tick_closed P \<Longrightarrow> stable E (made (\<lambda>b. b) P L i nm t)"
proof (rule stable_one)
  fix l s assume P: "tick_closed P" and "made (\<lambda>b. b) P L i nm t l s"
  then obtain b th where b: "refines s b" "P b" "threads s t = Some th" "tid th = i" "name th = strlcpy (chars nm) 16"
    "next_tid s = i + 1" "L l" by (auto simp: made_def)
  obtain s' where s': "timer_interrupt s = Some (Inr (True, s'))" "refines s' (a_timer b)" "same_ids s s'"
    using timer_interrupt_refines [OF b(1)] by blast
  have "dom (threads s') = dom (threads s)"
    using simD(1) [OF refinesD(1) [OF b(1)]] simD(1) [OF refinesD(1) [OF s'(2)]] by (simp add: lists_ok_def)
  then obtain th' where th': "threads s' t = Some th'" using b(3) by blast
  have "P (a_timer b)" using P b(2) by (simp add: tick_closed_def)
  moreover have "tid th' = i" "name th' = strlcpy (chars nm) 16" "next_tid s' = i + 1"
    using same_ids_thread [OF s'(3) th' b(3)] b(4-6) s'(3) by (simp_all add: same_ids_def)
  ultimately have "made (\<lambda>b. b) P L i nm t l s'" unfolding made_def using s'(2) th' b(7) by blast
  with s'(1) show "(\<exists>e. timer_interrupt s = Some (Inl e) \<and> E e) \<or>
      (\<exists>b s'. timer_interrupt s = Some (Inr (b, s')) \<and> made (\<lambda>b. b) P L i nm t l s')" by blast
qed

lemma ready_step:
  assumes "making (queued_run t d a) L (i + 1) X t l s" "t \<notin> set (a_all a)" "sched_wf a"
    and "magic X = THREAD_MAGIC" "duration_ticks X = d" "sleep_time X = 0" "tid X = i" "name X = strlcpy (chars nm) 16"
  shows "\<exists>s'. update_thread t (\<lambda>th. th\<lparr>status := THREAD_READY\<rparr>) s = Inr s' \<and> made (\<lambda>b. b) (queued_run t d a) L i nm t l s'"
proof -
  obtain b where b: "ticking_aside t s b (insert t (set (a_all b)))" "queued_run t d a b" "threads s t = Some X" "t \<noteq> 0"
    using assms(1) by (auto simp: making_def)
  note q = queued_runD [OF b(2) assms(3,2)]
  define y where "y = X\<lparr>status := THREAD_READY\<rparr>"
  have sl: "t \<notin> set (a_sleeping b)" using b(1) by (simp add: ticking_aside_def)
  have y: "thread_ok b t y" using assms(4-6) q(3,4) sl by (simp add: y_def thread_ok_def status_ok_def)
  have L: "lists_ok (s\<lparr>links := links s\<rparr>) (a_ready b) (a_sleeping b) (a_all b) (insert t (set (a_all b)))"
    using aside_lists [OF b(1)] by simp
  have "ticking (with_thread t y (s\<lparr>links := links s\<rparr>)) b (insert t (set (a_all b)))"
    by (rule aside_change(1) [OF b(1) insertI1 y sl _ _ L]) simp_all
  then have "refines (with_thread t y s) b" using q(1,2) by (simp add: refines_ticking insert_absorb)
  then have "made (\<lambda>b. b) (queued_run t d a) L i nm t l (with_thread t y s)"
    using assms b(2) by (auto simp: made_def making_def y_def with_thread_def)
  with b(3,4) show ?thesis by (simp add: with_thread_def y_def)
qed

section \<open>Outlines\<close>

lemma outline_Call_keep:
  assumes "outline E P c Q" "\<And>l s. P' l s \<Longrightarrow> P no_locals s \<and> L l" "\<And>l l1 s. Q l1 s \<Longrightarrow> L l \<Longrightarrow> Q' l s"
  shows "outline E P' (Call c) Q'"
  unfolding outline_def
proof (intro allI impI)
  fix l s r assume P: "P' l s" and "interleaved (Call c) l s r"
  note p = assms(2) [OF P]
  from \<open>interleaved (Call c) l s r\<close> show "case r of Inl e \<Rightarrow> E e | Inr (l', s') \<Rightarrow> Q' l' s'"
  proof (cases rule: Call_cases)
    case (err e)
    then show ?thesis using assms(1) p unfolding outline_def by fastforce
  next
    case (ok l1 s1)
    then have "Q l1 s1" using assms(1) p unfolding outline_def by fastforce
    then show ?thesis using ok(1) p assms(3) by simp
  qed
qed

lemma init_thread_outline:
  assumes "t \<notin> set (a_all a)" "sched_wf a" "nm \<noteq> NullStr"
  shows "outline E (making (fresh_run a) (\<lambda>_. True) i X t) (init_thread_com t nm)
    (making (registered_run t a) (\<lambda>_. True) i (initial_record t nm) t)"
  unfolding init_thread_com_def seq.simps initial_record_def
  by (rule outline_Seq outline_stmt stable_making runs_closed assert_making(2) assert_making(1) [OF _ assms(3)]
      memset_step [OF _ assms(1,2)] update_making register_step [OF _ assms(1,2)] | assumption)+

lemma thread_unblock_outline:
  assumes "t \<notin> set (a_all a)" "sched_wf a" "magic X = THREAD_MAGIC" "status X = THREAD_BLOCKED" "duration_ticks X = d"
    "sleep_time X = 0" "tid X = i" "name X = strlcpy (chars nm) 16"
  shows "outline E (making (registered_run t a) (\<lambda>_. True) (i + 1) X t) (thread_unblock_com t)
    (made (\<lambda>b. b) (queued_run t d a) (\<lambda>_. True) i nm t)"
  unfolding thread_unblock_com_def seq.simps
  by (rule outline_Seq outline_stmt stable_making runs_closed assert_making(3) [OF _ assms(3)] assert_making(4) [OF _ assms(4)]
      enqueue_step [OF _ assms(1,2,3,5,6)] ready_step [OF _ assms(1,2,3,5,6,7,8)] | assumption)+

lemma block_made_outline:
  assumes "irq_masking sd" "t \<notin> set (a_all a)" "sched_wf a"
  shows "outline E (made (\<lambda>b. b) (queued_run t d a) L i nm t) (block_if_idle_com sd) (made a_block_if_idle (queued_run t d a) L i nm t)"
  unfolding outline_def
proof (intro allI impI)
  fix l s r assume m: "made (\<lambda>b. b) (queued_run t d a) L i nm t l s" and il: "interleaved (block_if_idle_com sd) l s r"
  obtain b where "refines s b" using m by (auto simp: made_def)
  then obtain s1 s' where s1: "taken s (Inr s1)" "block_if_idle_thread sd s1 = Inr s'" "r = Inr (l, s')"
    by (rule block_if_idle_atomic [OF _ assms(1) il])
  have "made (\<lambda>b. b) (queued_run t d a) L i nm t l s1" by (rule stable_step [OF stable_made [OF runs_closed(3)] m s1(1)])
  then obtain b th where b: "refines s1 b" "queued_run t d a b" "threads s1 t = Some th" "tid th = i" "name th = strlcpy (chars nm) 16"
    "next_tid s1 = i + 1" "L l" by (auto simp: made_def)
  obtain s2 where s2: "block_if_idle_thread sd s1 = Inr s2" "refines s2 (a_block_if_idle b)" "frame s1 s2"
    by (rule block_if_idle_refines [OF b(1)])
  have "t \<in> set (a_all (a_block_if_idle b))"
    using queued_runD(2) [OF b(2) assms(3,2)] by (simp add: a_block_if_idle_def a_dispatch_alt)
  then obtain th' where th': "threads s2 t = Some th'" by (rule sim_thread [OF refinesD(1) [OF s2(2)]])
  have "made a_block_if_idle (queued_run t d a) L i nm t l s2"
    unfolding made_def using s2(2,3) b(2,4-7) th' same_ids_thread [OF frame_same_ids [OF s2(3)] th' b(3)]
    by (auto simp: frame_def)
  with s1(2,3) s2(1) show "case r of Inl e \<Rightarrow> E e | Inr (l', s') \<Rightarrow> made a_block_if_idle (queued_run t d a) L i nm t l' s'" by simp
qed

definition starting :: "sched \<Rightarrow> s32 \<Rightarrow> assertion" where
  "starting a i l s \<longleftrightarrow> (\<exists>b. refines s b \<and> fresh_run a b) \<and> next_tid s = i"

lemma stable_starting: "stable E (starting a i)"
proof (rule stable_one)
  fix l s assume "starting a i l s"
  then obtain b where b: "refines s b" "fresh_run a b" "next_tid s = i" by (auto simp: starting_def)
  obtain s' where "timer_interrupt s = Some (Inr (True, s'))" "refines s' (a_timer b)" "same_ids s s'"
    using timer_interrupt_refines [OF b(1)] by blast
  moreover have "fresh_run a (a_timer b)" using runs_closed(1) b(2) by (simp add: tick_closed_def)
  ultimately show "(\<exists>e. timer_interrupt s = Some (Inl e) \<and> E e) \<or>
      (\<exists>b s'. timer_interrupt s = Some (Inr (b, s')) \<and> starting a i l s')"
    using b(3) by (auto simp: starting_def same_ids_def)
qed

lemma calloc_step:
  assumes "starting a i l s" "t \<notin> set (a_all a)" "sched_wf a" "t \<noteq> 0"
  shows "\<exists>s'. Inr (calloc_thread t s) = (Inr s' :: error + kernel) \<and> making (fresh_run a) (\<lambda>_. True) i zero_thread t l s'"
proof -
  obtain b where b: "refines s b" "fresh_run a b" "next_tid s = i" using assms(1) by (auto simp: starting_def)
  note R = refinesD [OF b(1)]
  have new: "t \<notin> set (a_all b)" "t \<noteq> a_cur b" "t \<notin> set (a_ready b)" "t \<notin> set (a_sleeping b)" "a_cur b \<notin> set (a_sleeping b)"
    using fresh_runD(2) [OF b(2)] assms(2) R(2) by (auto simp: sched_wf_def)
  define x where "x = zero_thread\<lparr>status := THREAD_READY, magic := THREAD_MAGIC, duration_ticks := a_dur b t, sleep_time := a_wake b t\<rparr>"
  define u where "u = with_thread t x (zero_thread_at t s)"
  have "lists_ok u (a_ready b) (a_sleeping b) (a_all b) (insert t (set (a_all b)))"
    using zero_lists_ok [OF simD(1) [OF R(1)] new(1) assms(4)]
    by (subst lists_ok_cong [of _ "zero_thread_at t s"]) (auto simp: u_def zero_thread_at_def)
  moreover have "thread_ok b t x" using new by (simp add: x_def thread_ok_def status_ok_def)
  moreover have "threads u = (threads s)(t \<mapsto> x)" by (simp add: u_def with_thread_def zero_thread_at_def)
  ultimately have "sim u b (insert t (set (a_all b)))"
    using R(1) new(1) by (auto simp: sim_def u_def with_thread_def zero_thread_at_def)
  moreover have "cur_status u = Some THREAD_RUNNING" "a_cur b \<in> set (a_all b)"
    using R(2,3) new(2) simD(2) [OF R(1)] by (simp_all add: cur_status_def u_def zero_thread_at_def sched_wf_def)
  ultimately have "ticking_aside t (zero_thread_at t s) b (insert t (set (a_all b)))"
    using new by (auto simp: ticking_aside_def ticking_def u_def zero_thread_at_def)
  then show ?thesis using b(2,3) assms(4) by (auto simp: making_def calloc_thread_def zero_thread_at_def)
qed

abbreviation has_tid :: "s32 \<Rightarrow> locals \<Rightarrow> bool" where
  "has_tid i \<equiv> \<lambda>l. l_tid l = i"

text \<open>The statements on the variables \<open>tid\<close> and \<open>kf\<close> and on memory that no interrupt reads.\<close>

lemma tid_step:
  assumes "making P (\<lambda>_. True) i X t l s"
  shows "\<exists>l' s'. (case allocate_tid s of (new_tid, s) \<Rightarrow> Inr (l\<lparr>l_tid := new_tid\<rparr>, s)) = (Inr (l', s') :: outcome) \<and>
    making P (has_tid i) (i + 1) X t l' s'"
proof -
  have "making P (has_tid i) (i + 1) X t (l\<lparr>l_tid := i\<rparr>) (s\<lparr>next_tid := i + 1\<rparr>)"
    by (rule making_frame [OF assms]) simp_all
  with assms show ?thesis by (simp add: allocate_tid_def making_def)
qed

lemma set_tid_step:
  assumes "making P (has_tid i) j X t l s"
  shows "\<exists>l' s'. bindE (update_thread t (\<lambda>th. th\<lparr>tid := l_tid l\<rparr>) s) (\<lambda>s. Inr (l, s)) = Inr (l', s') \<and>
    making P (has_tid i) j (X\<lparr>tid := i\<rparr>) t l' s'"
  using update_making [OF assms, of "\<lambda>th. th\<lparr>tid := i\<rparr>"] assms by (auto simp: making_def)

lemma message_step:
  assumes "making P L i X t l s"
  shows "\<exists>s'. Inr (printf f xs s) = (Inr s' :: error + kernel) \<and> making P L i X t l s'"
  using making_frame [OF assms, of "printf f xs s" i L l] assms by (simp add: making_def)

lemma kf_step:
  assumes "making P (has_tid i) j X t l s"
  shows "\<exists>l' s'. bindE (load_thread t s) (\<lambda>th. Inr (l\<lparr>l_kf := stack th\<rparr>, s)) = Inr (l', s') \<and> making P (has_tid i) j X t l' s'"
  using assms by (simp add: making_def)

lemma frame_step:
  assumes "making P L i X t l s"
  shows "\<exists>l' s'. Inr (l, store_frame (l_kf l) g s) = (Inr (l', s') :: outcome) \<and> making P L i X t l' s'"
  using making_frame [OF assms, of "store_frame (l_kf l) g s" i L l] assms by (simp add: making_def store_frame_def)

lemmas local_steps = tid_step set_tid_step message_step kf_step frame_step

lemma thread_create_outline:
  assumes "irq_masking sd" "t \<notin> set (a_all a)" "sched_wf a" "t \<noteq> 0" "nm \<noteq> NullStr" "nm \<noteq> StrLit ''idle''"
  shows "outline E (starting a i) (thread_create_com sd t nm f ax d) (made a_block_if_idle (queued_run t d a) (has_tid i) i nm t)"
proof -
  let ?Y = "(initial_record t nm)\<lparr>tid := i, duration_ticks := d\<rparr>"
  let ?X = "?Y\<lparr>stack := stack ?Y - sizeof_kernel_thread_frame\<rparr>"
  have init: "outline E (making (fresh_run a) (\<lambda>_. True) i zero_thread t) (Call (init_thread_com t nm))
      (making (registered_run t a) (\<lambda>_. True) i (initial_record t nm) t)"
    by (rule outline_Call [OF init_thread_outline [OF assms(2,3,5)]]) (auto simp: making_def)
  have unblock: "outline E (making (registered_run t a) (has_tid i) (i + 1) ?X t) (Call (thread_unblock_com t))
      (made (\<lambda>b. b) (queued_run t d a) (has_tid i) i nm t)"
    by (rule outline_Call_keep [OF thread_unblock_outline [OF assms(2,3), where X = ?X and d = d and i = i and nm = nm], where L = "has_tid i"])
      (auto simp: making_def made_def initial_record_def zero_thread_def)
  have idle: "outline E (made (\<lambda>b. b) (queued_run t d a) (has_tid i) i nm t) (note_idle_com t nm)
      (made (\<lambda>b. b) (queued_run t d a) (has_tid i) i nm t)"
    unfolding note_idle_com_def
    by (rule outline_Cond [where ?P1.0 = "\<lambda>_ _. False" and ?P2.0 = "made (\<lambda>b. b) (queued_run t d a) (has_tid i) i nm t"])
      (auto simp: assms(6) intro!: outline_False outline_skip stable_made runs_closed)
  have block: "outline E (made (\<lambda>b. b) (queued_run t d a) (has_tid i) i nm t) (Call (block_if_idle_com sd))
      (made a_block_if_idle (queued_run t d a) (has_tid i) i nm t)"
    by (rule outline_Call_keep [OF block_made_outline [OF assms(1-3), where L = "\<lambda>_. True"], where L = "has_tid i"]) (auto simp: made_def)
  have null: "\<exists>v. Inr (t = 0) = (Inr v :: error + bool) \<and> (if v then False else making (fresh_run a) (\<lambda>_. True) i zero_thread t l s)"
    if "making (fresh_run a) (\<lambda>_. True) i zero_thread t l s" for l s using that assms(4) by auto
  show ?thesis
    unfolding thread_create_com_def alloc_frame_com_def seq.simps
    by (rule outline_False outline_Seq outline_stmt outline_Do stable_starting stable_making runs_closed init unblock idle block calloc_step [OF _ assms(2,3,4)]
        outline_Cond [where ?P1.0 = "\<lambda>_ _. False" and ?P2.0 = "making (fresh_run a) (\<lambda>_. True) i zero_thread t"] null
        local_steps update_making assert_making(3,5) | assumption | simp add: initial_record_def)+
qed

end
