(* ===== verification/Preempt_Props.thy ===== *)
theory Preempt_Props
  imports Preempt_Sleep Preempt_Create Scenario
begin

text \<open>
  The kernel under timer interrupts at any statement: runs in which iterations of the main loop, yields,
  sleeps and creations of threads are interrupted, what holds of all of them, and the two windows in which an interrupt makes an
  assertion fail.
\<close>

section \<open>Interrupted runs\<close>

text \<open>
  Iterations of the main loop, \<open>thread_yield\<close>, \<open>thread_sleep\<close> and \<open>thread_create\<close> may be interrupted at any
  statement; the other calls run between interrupts.
\<close>

inductive preempted :: "sdk \<Rightarrow> kernel \<Rightarrow> bool" for sd :: sdk where
  start: "reachable sd n s \<Longrightarrow> preempted sd s"
| loop: "preempted sd s \<Longrightarrow> interleaved (after_interrupt_com sd) l s (Inr (l', s')) \<Longrightarrow> preempted sd s'"
| yields: "preempted sd s \<Longrightarrow> interleaved (thread_yield_com sd) l s (Inr (l', s')) \<Longrightarrow> preempted sd s'"
| sleeps: "preempted sd s \<Longrightarrow> thread_running_var s \<noteq> idle_thread s \<Longrightarrow>
     interleaved (thread_sleep_com sd n) l s (Inr (l', s')) \<Longrightarrow> preempted sd s'"
| creates: "preempted sd s \<Longrightarrow> t \<noteq> 0 \<Longrightarrow> kernel_admissible (Create t nm f ax d) s \<Longrightarrow>
     interleaved (thread_create_com sd t nm f ax d) l s (Inr (l', s')) \<Longrightarrow> preempted sd s'"
| prints: "preempted sd s \<Longrightarrow> preempted sd (printf fmt args s)"
| event: "preempted sd s \<Longrightarrow> kernel_admissible e s \<Longrightarrow> kernel_event sd e s = Some (Inr s') \<Longrightarrow> preempted sd s'"

lemma outline_good:
  assumes "outline E P c good" "P l s" "interleaved c l s r"
  shows "(\<exists>l' s' a. r = Inr (l', s') \<and> refines s' a) \<or> (\<exists>e. r = Inl e \<and> E e)"
  using assms unfolding outline_def good_def by (fastforce split: sum.splits)

lemma outline_refines: "outline E P c good \<Longrightarrow> P l s \<Longrightarrow> interleaved c l s (Inr (l', s')) \<Longrightarrow> \<exists>a. refines s' a"
  using outline_good [of E P c l s "Inr (l', s')"] by auto

lemma good_awakeI: "refines s a \<Longrightarrow> thread_running_var s \<noteq> idle_thread s \<Longrightarrow> good_awake l s"
  using simD(2,3) [OF refinesD(1)] by (fastforce simp: good_awake_def)

text \<open>An interrupted creation, from a state in which \<open>calloc\<close> has memory.\<close>

lemma create_interrupted:
  assumes "refines s a" "irq_masking sd" "t \<noteq> 0" "kernel_admissible (Create t nm f ax d) s"
    and "interleaved (thread_create_com sd t nm f ax d) l s r"
  obtains l' s' where "r = Inr (l', s')" "made a_block_if_idle (queued_run t d a) (has_tid (next_tid s)) (next_tid s) nm t l' s'"
proof -
  have adm: "t \<notin> set (a_all a)" "nm \<noteq> NullStr" "nm \<noteq> StrLit ''idle''" using assms(4) admissible_iff [OF assms(1)] by auto
  have "fresh_run a a" unfolding fresh_run_def by (rule exI [of _ 0]) simp
  then have "starting a (next_tid s) l s" using assms(1) by (auto simp: starting_def)
  with thread_create_outline [OF assms(2) adm(1) refinesD(2) [OF assms(1)] assms(3) adm(2,3), of "\<lambda>_. False"] assms(5) that
  show thesis unfolding outline_def by (fastforce split: sum.splits)
qed

lemma preempted_refines:
  assumes "irq_masking sd" "preempted sd s"
  shows "\<exists>a. refines s a"
  using assms(2)
proof (induction rule: preempted.induct)
  case (start n s)
  then show ?case using reachable_refines by blast
next
  case (loop s l l' s')
  then have "good l s" by (simp add: good_def)
  then show ?case by (rule outline_refines [OF after_interrupt_outline [OF assms(1)]]) (rule loop)
next
  case (yields s l l' s')
  then have "good l s" by (simp add: good_def)
  then show ?case by (rule outline_refines [OF yield_outline [OF assms(1)]]) (rule yields)
next
  case (sleeps s n l l' s')
  then have "good_awake l s" using good_awakeI by blast
  then show ?case by (rule outline_refines [OF sleep_outline [OF assms(1)]]) (rule sleeps)
next
  case (creates s t nm f ax d l l' s')
  then obtain a where a: "refines s a" by blast
  show ?case by (rule create_interrupted [OF a assms(1) creates(2,3,4)]) (auto simp: made_def)
next
  case (prints s fmt args)
  then show ?case by simp
next
  case (event s e s')
  then obtain a where a: "refines s a" by blast
  with event have "admissible e a" by (simp add: admissible_iff)
  with event_refines [OF a this, of sd] event show ?case by auto
qed

lemma pico_sync_masking: "irq_masking pico_sync"
  by (simp add: irq_masking_def pico_sync_def)

section \<open>Properties\<close>

text \<open>C6: \<open>thread_yield\<close> is atomic although it runs with interrupts enabled: whatever timer interrupts arrive at
  its statements, it returns, and the state is the one it would have left had all of them come before the call.\<close>

theorem thread_yield_interruptible:
  assumes "preempted sd s" "irq_masking sd" "interleaved (thread_yield_com sd) l s r"
  shows "\<exists>k s1 l' s'. run_events (kernel_event sd) (replicate k Tick) s = Some (Inr s1) \<and>
    thread_yield sd s1 = Inr s' \<and> r = Inr (l', s')"
proof -
  obtain a where a: "refines s a" using preempted_refines assms by blast
  obtain s1 l' s' where "taken s (Inr s1)" "thread_yield sd s1 = Inr s'" "r = Inr (l', s')"
    by (rule thread_yield_atomic [OF a assms(2,3)])
  with taken_ticks [OF _ refl, of s s1 sd] show ?thesis by blast
qed

theorem thread_yield_interruptible_witness:
  "\<exists>s l r k s1 l' s'. preempted pico_sync s \<and> interleaved (thread_yield_com pico_sync) l s r \<and>
    run_events (kernel_event pico_sync) (replicate k Tick) s = Some (Inr s1) \<and>
    thread_yield pico_sync s1 = Inr s' \<and> r = Inr (l', s')"
proof -
  obtain s where s: "preempted pico_sync s" using rr_scenario preempted.start by blast
  define l where "l = no_locals"
  show ?thesis using thread_yield_interruptible [OF s pico_sync_masking interleaved_exec [of _ l]] s interleaved_exec by blast
qed




lemma rr_awake: "\<exists>s. preempted pico_sync s \<and> reachable pico_sync 5 s \<and> thread_running_var s \<noteq> idle_thread s \<and> irq s = 0"
proof -
  obtain s where s: "reachable pico_sync 5 s" "refines s rr_sched" "irq s = 0" using rr_scenario by blast
  then have "thread_running_var s \<noteq> idle_thread s"
    using simD(2,3) [OF refinesD(1) [OF s(2)]] by (simp add: rr_sched_def)
  with s preempted.start show ?thesis by blast
qed


text \<open>C23: The failure does occur: in every reachable state with interrupts enabled in which a thread other than
  the idle thread runs, \<open>thread_sleep (1)\<close> panics if the timer interrupt comes between the insertion into
  \<open>lista_espera\<close> and \<open>thread_block\<close>.\<close>

theorem sleep_window_panics:
  assumes "reachable sd n s" "thread_running_var s \<noteq> idle_thread s" "irq s = 0"
  shows "interleaved (thread_sleep_com sd 1) l s (Inl (Panic ''t->status == THREAD_BLOCKED''))"
proof -
  obtain a where a: "refines s a" using reachable_refines [OF assms(1)] by blast
  have "a_cur a \<noteq> a_idle a" using assms(2) simD(2,3) [OF refinesD(1) [OF a]] by simp
  from sleep_race [OF a this assms(3)] show ?thesis .
qed

theorem sleep_window_panics_witness:
  "\<exists>s. reachable pico_sync 5 s \<and>
    interleaved (thread_sleep_com pico_sync 1) no_locals s (Inl (Panic ''t->status == THREAD_BLOCKED''))"
  using rr_awake sleep_window_panics by blast



end
