(* ===== verification/Switch_Asm.thy ===== *)
theory Switch_Asm
  imports Layout
begin

text \<open>
  The assembly of src/lib/switch.S: the instructions of the processor it uses, the two routines, and what
  they do.  The routines are part of the build; the kernel calls \<open>switch_threads_c\<close> instead.
\<close>

section \<open>The processor\<close>

datatype reg = R0 | R1 | R2 | R3 | R5 | R6 | R7 | SP | LR

text \<open>Memory is read and written in aligned words; an access that is not aligned is a fault.\<close>

record asm_machine =
  regs :: "reg \<Rightarrow> u32"
  mem :: "u32 \<Rightarrow> u32"

text \<open>\<open>BL f ret\<close> calls the function at \<open>f\<close>, \<open>ret\<close> being the address of the instruction after it.\<close>

datatype instr =
    PUSH "reg list"
  | POP "reg list"
  | LDR_const reg u32
  | LDR reg reg u32
  | STR_mem reg reg
  | MOV reg reg
  | ADDS reg reg reg
  | ADD_imm reg u32
  | BL u32 u32
  | BX reg

definition aligned :: "u32 \<Rightarrow> bool" where
  "aligned a \<longleftrightarrow> 4 dvd unat a"

definition load_word :: "u32 \<Rightarrow> asm_machine \<Rightarrow> error + u32" where
  "load_word a m = (if aligned a then Inr (mem m a) else Inl Fault)"

definition store_word :: "u32 \<Rightarrow> u32 \<Rightarrow> asm_machine \<Rightarrow> error + asm_machine" where
  "store_word a v m = (if aligned a then Inr (m\<lparr>mem := (mem m)(a := v)\<rparr>) else Inl Fault)"

definition set_reg :: "reg \<Rightarrow> u32 \<Rightarrow> asm_machine \<Rightarrow> asm_machine" where
  "set_reg r v m = m\<lparr>regs := (regs m)(r := v)\<rparr>"

text \<open>The lowest register is at the lowest address.\<close>

fun store_regs :: "u32 \<Rightarrow> reg list \<Rightarrow> asm_machine \<Rightarrow> error + asm_machine" where
  "store_regs a [] m = Inr m"
| "store_regs a (r # rs) m = bindE (store_word a (regs m r) m) (store_regs (a + 4) rs)"

fun load_regs :: "u32 \<Rightarrow> reg list \<Rightarrow> asm_machine \<Rightarrow> error + asm_machine" where
  "load_regs a [] m = Inr m"
| "load_regs a (r # rs) m = bindE (load_word a m) (\<lambda>v. load_regs (a + 4) rs (set_reg r v m))"

text \<open>\<open>call\<close> is the effect of the functions that are called.\<close>

fun exec_instr :: "(u32 \<Rightarrow> asm_machine \<Rightarrow> error + asm_machine) \<Rightarrow> instr \<Rightarrow> asm_machine \<Rightarrow> error + asm_machine" where
  "exec_instr call (PUSH rs) m =
     (let sp = regs m SP - 4 * of_nat (length rs) in bindE (store_regs sp rs m) (\<lambda>m. Inr (set_reg SP sp m)))"
| "exec_instr call (POP rs) m =
     (let sp = regs m SP in bindE (load_regs sp rs m) (\<lambda>m. Inr (set_reg SP (sp + 4 * of_nat (length rs)) m)))"
| "exec_instr call (LDR_const r v) m = Inr (set_reg r v m)"
| "exec_instr call (LDR r b ofs) m = bindE (load_word (regs m b + ofs) m) (\<lambda>v. Inr (set_reg r v m))"
| "exec_instr call (STR_mem r b) m = store_word (regs m b) (regs m r) m"
| "exec_instr call (MOV r q) m = Inr (set_reg r (regs m q) m)"
| "exec_instr call (ADDS r p q) m = Inr (set_reg r (regs m p + regs m q) m)"
| "exec_instr call (ADD_imm r v) m = Inr (set_reg r (regs m r + v) m)"
| "exec_instr call (BL f ret) m = call f (set_reg LR ret m)"
| "exec_instr call (BX r) m = Inr m"

text \<open>A routine runs up to its branch \<open>BX\<close> and gives the address that it branches to; it does not run past its end.\<close>

fun run_asm :: "(u32 \<Rightarrow> asm_machine \<Rightarrow> error + asm_machine) \<Rightarrow> instr list \<Rightarrow> asm_machine \<Rightarrow> error + (u32 \<times> asm_machine)" where
  "run_asm call [] m = Inl Fault"
| "run_asm call (BX r # is) m = Inr (regs m r, m)"
| "run_asm call (i # is) m = bindE (exec_instr call i m) (run_asm call is)"

section \<open>The routines\<close>

text \<open>\<open>ofs_at\<close> is the address of the variable \<open>thread_stack_ofs\<close>.\<close>

definition switch_threads :: "u32 \<Rightarrow> instr list" where
  "switch_threads ofs_at =
     [PUSH [R3, R5, R6, R7],
      LDR_const R2 ofs_at,
      LDR R2 R2 0,
      LDR R0 SP (of_nat SWITCH_CUR),
      ADDS R1 R0 R2,
      MOV R3 SP,
      STR_mem R3 R1,
      LDR R3 SP (of_nat SWITCH_NEXT),
      ADDS R3 R3 R2,
      LDR R3 R3 0,
      MOV SP R3,
      POP [R3, R5, R6, R7],
      BX LR]"

text \<open>\<open>tail_fn\<close> is the address of \<open>thread_schedule_tail\<close>, \<open>ret\<close> the one of the instruction after its call.\<close>

definition switch_entry :: "u32 \<Rightarrow> u32 \<Rightarrow> instr list" where
  "switch_entry tail_fn ret = [ADD_imm SP 8, PUSH [R0], BL tail_fn ret, ADD_imm SP 4, BX LR]"

section \<open>What they do\<close>

lemma aligned_add: "aligned a \<Longrightarrow> aligned b \<Longrightarrow> aligned (a + b)"
  unfolding aligned_def unat_word_ariths by (intro dvd_mod dvd_add) simp_all

lemma aligned_const [simp]: "aligned 4" "aligned 8" "aligned 12" "aligned 16" "aligned (- 4)" "aligned (- 8)" "aligned (- 12)"
  "aligned (- 16)"
  by (simp_all add: aligned_def)

lemma aligned_offsets:
  assumes "aligned a"
  shows "aligned (a + 4)" "aligned (a + 8)" "aligned (a + 12)" "aligned (a - 4)" "aligned (a - 8)" "aligned (a - 12)" "aligned (a - 16)"
  using aligned_add [OF assms, of 4] aligned_add [OF assms, of 8] aligned_add [OF assms, of 12] aligned_add [OF assms, of "- 4"]
    aligned_add [OF assms, of "- 8"] aligned_add [OF assms, of "- 12"] aligned_add [OF assms, of "- 16"]
  by simp_all

text \<open>The words that \<open>switch_threads\<close> pushes below the stack pointer.\<close>

definition pushed :: "u32 \<Rightarrow> u32 set" where
  "pushed sp = {sp - 16, sp - 12, sp - 8, sp - 4}"

definition push_frame :: "asm_machine \<Rightarrow> u32 \<Rightarrow> u32" where
  "push_frame m = (mem m)(regs m SP - 16 := regs m R3, regs m SP - 12 := regs m R5,
     regs m SP - 8 := regs m R6, regs m SP - 4 := regs m R7)"

lemma push_eval:
  assumes "aligned (regs m SP)"
  shows "exec_instr call (PUSH [R3, R5, R6, R7]) m = Inr (set_reg SP (regs m SP - 16) (m\<lparr>mem := push_frame m\<rparr>))"
  using aligned_offsets [OF assms] by (simp add: store_word_def push_frame_def Let_def)

lemma pop_eval:
  assumes "aligned (regs m SP)"
  shows "exec_instr call (POP [R3, R5, R6, R7]) m = Inr (set_reg SP (regs m SP + 16)
    (set_reg R7 (mem m (regs m SP + 12)) (set_reg R6 (mem m (regs m SP + 8))
    (set_reg R5 (mem m (regs m SP + 4)) (set_reg R3 (mem m (regs m SP)) m)))))"
  using assms aligned_offsets [OF assms] by (simp add: load_word_def set_reg_def Let_def add.commute)

lemma regs_set [simp]: "regs (set_reg r v m) q = (if q = r then v else regs m q)" "mem (set_reg r v m) = mem m"
  "regs (m\<lparr>mem := w\<rparr>) = regs m"
  by (simp_all add: set_reg_def)

text \<open>Between the push and the pop.\<close>

lemma middle_eval:
  assumes "aligned a" "aligned (regs m SP + 20)" "aligned (regs m SP + 24)"
    and "ofs = mem m a" "c = mem m (regs m SP + 20)" "w = (mem m)(c + ofs := regs m SP)" "n = w (regs m SP + 24)"
    and "aligned (c + ofs)" "aligned (n + ofs)"
  shows "run_asm call (LDR_const R2 a # LDR R2 R2 0 # LDR R0 SP 20 # ADDS R1 R0 R2 # MOV R3 SP # STR_mem R3 R1 #
      LDR R3 SP 24 # ADDS R3 R3 R2 # LDR R3 R3 0 # MOV SP R3 # is) m =
    run_asm call is (m\<lparr>mem := w, regs := (regs m)(R2 := ofs, R0 := c, R1 := c + ofs, R3 := w (n + ofs), SP := w (n + ofs))\<rparr>)"
  using assms(1-3,8,9) unfolding assms(4-7)
  by (simp add: load_word_def store_word_def set_reg_def fun_upd_twist)

text \<open>
  The words at offsets 4 and 8 of the stack pointer are taken for the arguments, as in the frame of switch.h with
  the return address below them.
\<close>

lemma switch_threads_eval:
  fixes m :: asm_machine and a :: u32
  defines "sp \<equiv> regs m SP" and "c \<equiv> mem m (regs m SP + 4)" and "n \<equiv> mem m (regs m SP + 8)" and "ofs \<equiv> mem m a"
  defines "w \<equiv> (push_frame m)(c + ofs := sp - 16)"
  defines "sp' \<equiv> w (n + ofs)"
  assumes "aligned sp" "aligned a" "aligned (c + ofs)" "aligned (n + ofs)" "aligned sp'"
    and "a \<notin> pushed sp" "c + ofs \<noteq> sp + 8"
  shows "run_asm call (switch_threads a) m = Inr (regs m LR, m\<lparr>mem := w, regs := (regs m)(R2 := ofs, R0 := c, R1 := c + ofs,
    R3 := w sp', R5 := w (sp' + 4), R6 := w (sp' + 8), R7 := w (sp' + 12), SP := sp' + 16)\<rparr>)"
proof -
  define m1 where "m1 = set_reg SP (sp - 16) (m\<lparr>mem := push_frame m\<rparr>)"
  define m2 where "m2 = m1\<lparr>mem := w, regs := (regs m1)(R2 := ofs, R0 := c, R1 := c + ofs, R3 := sp', SP := sp')\<rparr>"
  have r1: "regs m1 SP = sp - 16" "regs m1 SP + 20 = sp + 4" "regs m1 SP + 24 = sp + 8" "mem m1 = push_frame m"
    by (simp_all add: m1_def)
  have pf: "x \<notin> pushed sp \<Longrightarrow> push_frame m x = mem m x" for x by (simp add: push_frame_def pushed_def sp_def)
  have "sp + 4 \<notin> pushed sp" "sp + 8 \<notin> pushed sp" by (simp_all add: pushed_def eq_diff_eq diff_eq_eq)
  with pf have args: "push_frame m (sp + 4) = c" "w (sp + 8) = n" "push_frame m a = ofs"
    using assms(12,13) by (simp_all add: w_def c_def n_def ofs_def sp_def)
  have "run_asm call (switch_threads a) m = run_asm call (tl (switch_threads a)) m1"
    using push_eval [of m call] assms(7) by (simp add: switch_threads_def m1_def sp_def del: exec_instr.simps)
  also have "\<dots> = run_asm call [POP [R3, R5, R6, R7], BX LR] m2"
  proof -
    have "tl (switch_threads a) = LDR_const R2 a # LDR R2 R2 0 # LDR R0 SP 20 # ADDS R1 R0 R2 # MOV R3 SP # STR_mem R3 R1 #
      LDR R3 SP 24 # ADDS R3 R3 R2 # LDR R3 R3 0 # MOV SP R3 # [POP [R3, R5, R6, R7], BX LR]"
      by (simp add: switch_threads_def SWITCH_CUR_def SWITCH_NEXT_def)
    moreover have "aligned (regs m1 SP + 20)" "aligned (regs m1 SP + 24)"
      unfolding r1(2,3) using aligned_offsets(1,2) [OF assms(7)] .
    moreover have "ofs = mem m1 a" "c = mem m1 (regs m1 SP + 20)" "w = (mem m1)(c + ofs := regs m1 SP)" "n = w (regs m1 SP + 24)"
      unfolding r1(2,3,4) args by (simp_all only: w_def r1(1))
    ultimately show ?thesis
      unfolding m2_def sp'_def using middle_eval [OF assms(8), of m1 ofs c w n call] assms(9,10) by (simp only:)
  qed
  also have "\<dots> = Inr (regs m LR, m\<lparr>mem := w, regs := (regs m)(R2 := ofs, R0 := c, R1 := c + ofs,
    R3 := w sp', R5 := w (sp' + 4), R6 := w (sp' + 8), R7 := w (sp' + 12), SP := sp' + 16)\<rparr>)"
    using pop_eval [of m2 call] assms(11)
    by (simp add: m2_def m1_def set_reg_def fun_upd_twist del: exec_instr.simps)
  finally show ?thesis .
qed

section \<open>Calls\<close>

text \<open>
  A call of \<open>switch_threads (c, n)\<close> with its arguments in the frame of switch.h: the variable \<open>thread_stack_ofs\<close>
  at \<open>a\<close> has its value, addresses are aligned, and neither it nor the saved stack pointers of the two threads lie
  where the registers are pushed.
\<close>

definition switch_call :: "u32 \<Rightarrow> u32 \<Rightarrow> u32 \<Rightarrow> asm_machine \<Rightarrow> bool" where
  "switch_call a c n m \<longleftrightarrow>
     aligned (regs m SP) \<and> aligned a \<and> aligned c \<and> aligned n \<and> aligned (mem m (n + thread_stack_ofs)) \<and>
     mem m a = thread_stack_ofs \<and> mem m (regs m SP + 4) = c \<and> mem m (regs m SP + 8) = n \<and> c \<noteq> n \<and>
     {a, c + thread_stack_ofs, n + thread_stack_ofs} \<inter> pushed (regs m SP) = {} \<and> c + thread_stack_ofs \<noteq> regs m SP + 8"

lemma pushed_frame: "x \<notin> pushed (regs m SP) \<Longrightarrow> push_frame m x = mem m x"
  by (simp add: push_frame_def pushed_def)

lemma pushed_regs:
  "push_frame m (regs m SP - 16) = regs m R3" "push_frame m (regs m SP - 12) = regs m R5"
  "push_frame m (regs m SP - 8) = regs m R6" "push_frame m (regs m SP - 4) = regs m R7"
  by (simp_all add: push_frame_def eq_diff_eq diff_eq_eq)

lemma switch_call_run:
  assumes "switch_call a c n m"
  obtains m' where "run_asm call (switch_threads a) m = Inr (regs m LR, m')"
    "mem m' = (push_frame m)(c + thread_stack_ofs := regs m SP - 16)" "regs m' R0 = c"
    "regs m' SP = mem m (n + thread_stack_ofs) + 16"
    "\<And>x. x = mem m (n + thread_stack_ofs) \<Longrightarrow>
      regs m' R3 = mem m' x \<and> regs m' R5 = mem m' (x + 4) \<and> regs m' R6 = mem m' (x + 8) \<and> regs m' R7 = mem m' (x + 12)"
proof -
  note A = assms [unfolded switch_call_def]
  let ?w = "(push_frame m)(c + thread_stack_ofs := regs m SP - 16)"
  have n: "?w (n + thread_stack_ofs) = mem m (n + thread_stack_ofs)" using A pushed_frame by auto
  have al: "aligned (c + thread_stack_ofs)" "aligned (n + thread_stack_ofs)"
    using A aligned_add [of _ "24"] by (simp_all add: thread_stack_ofs_eval aligned_def)
  from switch_threads_eval [of m a call] A n al that show thesis by simp
qed

section \<open>Properties\<close>

text \<open>C34: A switch away from a thread and back: if the memory below its stack pointer and the saved stack pointer in
  its structure are left alone in between, the registers r3, r5, r6, r7 and the stack pointer are the ones it had,
  and the thread that was switched from is returned in r0.\<close>

theorem switch_threads_back:
  assumes "switch_call a c n m0" "run_asm call (switch_threads a) m0 = Inr (pc, m1)" "switch_call a n c m2"
    and "\<forall>x \<in> insert (c + thread_stack_ofs) (pushed (regs m0 SP)). mem m2 x = mem m1 x"
    and "insert (n + thread_stack_ofs) (pushed (regs m2 SP)) \<inter> insert (c + thread_stack_ofs) (pushed (regs m0 SP)) = {}"
  shows "\<exists>m3. run_asm call (switch_threads a) m2 = Inr (regs m2 LR, m3) \<and> regs m3 R3 = regs m0 R3 \<and> regs m3 R5 = regs m0 R5 \<and>
    regs m3 R6 = regs m0 R6 \<and> regs m3 R7 = regs m0 R7 \<and> regs m3 SP = regs m0 SP \<and> regs m3 R0 = n"
proof -
  define sp where "sp = regs m0 SP"
  have m1: "mem m1 = (push_frame m0)(c + thread_stack_ofs := sp - 16)"
    using assms(2) switch_call_run [OF assms(1), of call] by (auto simp: sp_def)
  have c: "c + thread_stack_ofs \<notin> pushed sp" using assms(1) by (simp add: switch_call_def sp_def)
  obtain m3 where m3: "run_asm call (switch_threads a) m2 = Inr (regs m2 LR, m3)"
    "mem m3 = (push_frame m2)(n + thread_stack_ofs := regs m2 SP - 16)" "regs m3 R0 = n"
    "regs m3 SP = mem m2 (c + thread_stack_ofs) + 16"
    "\<And>x. x = mem m2 (c + thread_stack_ofs) \<Longrightarrow>
      regs m3 R3 = mem m3 x \<and> regs m3 R5 = mem m3 (x + 4) \<and> regs m3 R6 = mem m3 (x + 8) \<and> regs m3 R7 = mem m3 (x + 12)"
    by (rule switch_call_run [OF assms(3), of call]) blast
  have keep: "mem m3 x = push_frame m0 x" if "x \<in> pushed sp" for x
  proof -
    have "x \<noteq> n + thread_stack_ofs" "x \<notin> pushed (regs m2 SP)" "x \<noteq> c + thread_stack_ofs"
      using that assms(5) c unfolding sp_def by blast+
    then show ?thesis using that assms(4) m3(2) m1 pushed_frame [of x m2] by (simp add: sp_def)
  qed
  have "mem m2 (c + thread_stack_ofs) = sp - 16" using assms(4) m1 by simp
  with m3(4) m3(5) [of "sp - 16"] have r: "regs m3 SP = sp" "regs m3 R3 = mem m3 (sp - 16)" "regs m3 R5 = mem m3 (sp - 12)"
    "regs m3 R6 = mem m3 (sp - 8)" "regs m3 R7 = mem m3 (sp - 4)" by simp_all
  with keep [of "sp - 16"] keep [of "sp - 12"] keep [of "sp - 8"] keep [of "sp - 4"] m3(1,3) pushed_regs [of m0]
  show ?thesis by (simp add: pushed_def sp_def)
qed

definition demo_call :: asm_machine where
  "demo_call = \<lparr>regs = (\<lambda>_. 5)(SP := 0x20041000, R3 := 33),
     mem = (\<lambda>_. 0)(0x10000100 := 24, 0x20041004 := 0x20002000, 0x20041008 := 0x20003000)\<rparr>"

definition demo_return :: "(u32 \<Rightarrow> u32) \<Rightarrow> asm_machine" where
  "demo_return w = \<lparr>regs = (\<lambda>_. 7)(SP := 0x20051000), mem = w(0x20051004 := 0x20003000, 0x20051008 := 0x20002000)\<rparr>"

lemma demo_switch: "switch_call 0x10000100 0x20002000 0x20003000 demo_call"
  by (simp add: switch_call_def demo_call_def thread_stack_ofs_eval aligned_def pushed_def)

lemma demo_switch_back:
  assumes "w = (push_frame demo_call)(0x20002018 := 0x20040FF0)"
  shows "switch_call 0x10000100 0x20003000 0x20002000 (demo_return w)"
  using assms
  by (simp add: switch_call_def demo_return_def demo_call_def push_frame_def thread_stack_ofs_eval aligned_def pushed_def)

theorem switch_threads_back_witness:
  "\<exists>m1 m3. run_asm (\<lambda>_. Inr) (switch_threads 0x10000100) demo_call = Inr (5, m1) \<and>
    run_asm (\<lambda>_. Inr) (switch_threads 0x10000100) (demo_return (mem m1)) = Inr (7, m3) \<and>
    regs m3 R3 = 33 \<and> regs m3 R5 = 5 \<and> regs m3 SP = 0x20041000 \<and> regs m3 R0 = 0x20003000"
proof -
  obtain m1 where m1: "run_asm (\<lambda>_. Inr) (switch_threads 0x10000100) demo_call = Inr (regs demo_call LR, m1)"
    "mem m1 = (push_frame demo_call)(0x20002018 := 0x20040FF0)"
    by (rule switch_call_run [OF demo_switch]) (simp add: thread_stack_ofs_eval demo_call_def)
  have r: "regs demo_call SP = 0x20041000" "regs (demo_return w) SP = 0x20051000" for w by (simp_all add: demo_call_def demo_return_def)
  have "\<exists>m3. run_asm (\<lambda>_. Inr) (switch_threads 0x10000100) (demo_return (mem m1)) = Inr (regs (demo_return (mem m1)) LR, m3) \<and>
      regs m3 R3 = regs demo_call R3 \<and> regs m3 R5 = regs demo_call R5 \<and> regs m3 R6 = regs demo_call R6 \<and>
      regs m3 R7 = regs demo_call R7 \<and> regs m3 SP = regs demo_call SP \<and> regs m3 R0 = 0x20003000"
    by (rule switch_threads_back [OF demo_switch m1(1) demo_switch_back [OF m1(2)]])
      (simp_all only: r pushed_def thread_stack_ofs_eval, simp_all add: demo_return_def)
  with m1(1) show ?thesis by (auto simp: demo_call_def demo_return_def)
qed

text \<open>C35: The registers in which the procedure call standard of the processor passes arguments are not read:
  \<open>switch_threads\<close> does the same whatever r0 and r1 hold.\<close>

theorem switch_threads_ignores_arguments:
  "run_asm call (switch_threads a) (set_reg R0 x (set_reg R1 y m)) = run_asm call (switch_threads a) m"
  by (simp add: switch_threads_def load_word_def store_word_def set_reg_def Let_def fun_upd_twist cong: if_cong)

text \<open>
  \<open>switch_entry\<close> ends with a branch to the link register, which the call of \<open>thread_schedule_tail\<close> has set to the
  address of the instruction after it: unless the called function leaves another value there the branch goes back
  into \<open>switch_entry\<close>, and the function of the thread is not started.
\<close>

lemma switch_entry_loops:
  assumes "aligned (regs m SP)" "call tail_fn (set_reg LR ret (set_reg SP (regs m SP + 4)
      (m\<lparr>mem := (mem m)(regs m SP + 4 := regs m R0), regs := (regs m)(SP := regs m SP + 8)\<rparr>))) = Inr m1" "regs m1 LR = ret"
  shows "run_asm call (switch_entry tail_fn ret) m = Inr (ret, set_reg SP (regs m1 SP + 4) m1)"
  using assms aligned_offsets(1) [OF assms(1)]
  by (simp add: switch_entry_def store_word_def set_reg_def Let_def add.commute)

end
