(* ===== verification/Spec2Isabelle.thy ===== *)
theory Spec2Isabelle
  imports Scenario Layout Print_Lists CList_Props CList_Race Palloc_Spec Interrupt_Dispatch Synch_Cond Debug Main_Run Thread_Types
    Preempt_Props Switch_Asm
begin

text \<open>
  A verification of the operating system kernel for the Raspberry Pi Pico in src/: a port of the
  thread system of Pintos that schedules simulated threads, first in first out or round robin.

  \<^bold>\<open>The program.\<close>  \<open>main\<close> (src/main.c) asks for a test, starts the thread system and a repeating timer, runs
  the test, which creates threads with a duration in ticks, and calls \<open>after_interrupt\<close> for ever.  The timer
  interrupt counts ticks, charges the running thread and wakes sleepers; \<open>after_interrupt\<close> lets a thread
  exit when its duration is over or yield when its quantum is used.  The thread system
  (src/threads/thread.c) keeps three intrusive lists (src/misc/list.c) of threads and switches by
  \<open>switch_threads_c\<close> (src/lib/switch.c), which changes some registers and the variable
  \<open>thread_running_var\<close> but no stack: every call returns to its caller, with another current thread.
  The threads' functions are never called.  The repository also holds the interrupt system, the
  synchronisation and the start of the page allocator of Pintos (src/lib), which the build leaves out
  or does not call.

  \<^bold>\<open>Model.\<close>  C functions are functions on a state record, in the order and with the guards of the source.
  A result is \<open>Inl\<close> of an error (a failed \<open>ASSERT\<close>, a \<open>PANIC\<close>, or a memory fault) or \<open>Inr\<close> of value and
  state; a loop that may not end is a \<^theory_text>\<open>partial_function\<close> with \<open>None\<close> for a run that never returns, so
  there is no fuel and each theorem that a loop ends says so.  C integers are words of 32 or 64 bits and
  wrap; \<open>int\<close> is read by \<^const>\<open>sint\<close>.  List elements are cells of one partial memory, threads are
  records in another, so that aliasing and dangling pointers show.  The console is the list of the calls
  of \<open>printf\<close>.  The build has assertions on.

  \<^item> \<open>Prelude\<close>: errors, sequencing, integers (src/lib/debug.h, \<open>debug_panic\<close>).  \<open>Debug\<close>: \<open>debug_backtrace\<close>.
  \<^item> \<open>CList\<close>, \<open>CList_Algo\<close>: all of src/misc/list.c.  \<open>CList_Spec\<close>, \<open>CList_Algo_Spec\<close>, \<open>CList_Links\<close>,
    \<open>CList_Sort\<close>: each operation on well-formed lists; \<open>Queue\<close> is the contract of a queue and \<open>CList_Props\<close>
    interprets it on the list and states the properties.  \<open>CList_Race\<close>: an insertion interrupted by another.
  \<^item> \<open>Kernel_State\<close>, \<open>Thread\<close>: src/threads/thread.c and thread.h, src/lib/switch.c, src/misc/timer.c.
    \<open>Layout\<close>: the layout of the structures in memory (src/lib/switch.h).  \<open>Switch_Asm\<close>: the routines of
    src/lib/switch.S as lists of instructions on a machine of registers and words.
  \<^item> \<open>Kernel_Inv\<close>, \<open>Sched\<close>, \<open>Sched_Refine\<close>, \<open>Sched_Ops\<close>, \<open>Sched_Tick\<close>, \<open>Sched_Create\<close>: the invariant of the three
    lists, an abstract scheduler on plain lists, and the refinement of its operations by thread.c; the lemmas on
    a timer tick also cover ticks in the middle of an operation.
  \<^item> \<open>Main_Loop\<close>: \<open>timer_interrupt\<close>, \<open>after_interrupt\<close>, \<open>schedule_set_quantum\<close> of src/main.c.  \<open>Kernel_Run\<close>: runs as
    sequences of events, the locale of simulations and the states that are \<open>reachable\<close>; \<open>Policy\<close>: what holds
    over many rounds; \<open>Print_Lists\<close>: the printing loops; \<open>Scenario\<close>: a concrete run for the witnesses.
    \<open>Thread_Types\<close>: the fields of the thread structures, and that the timer interrupt ends.
  \<^item> \<open>Preempt\<close>: \<open>thread_yield\<close>, \<open>thread_block\<close>, \<open>thread_exit\<close>, \<open>after_interrupt\<close> as programs of statements, equal to the
    functions when nothing interrupts them, and the relation \<open>interleaved\<close> that lets timer interrupts in
    before every statement at which the mask allows them.  \<open>Preempt_Safe\<close>: critical sections, stable assertions
    and proof outlines; \<open>Preempt_Exit\<close>, \<open>Preempt_Loop\<close>: the outlines of \<open>thread_exit\<close>, with the switch that it makes
    while interrupts are enabled, and of \<open>after_interrupt\<close>; \<open>Preempt_Sleep\<close>: \<open>thread_sleep\<close>; \<open>Preempt_Create\<close>:
    \<open>thread_create\<close>, \<open>init_thread\<close>, \<open>alloc_frame\<close> and \<open>thread_unblock\<close>; \<open>Preempt_Props\<close>: runs with interrupts at any
    statement and their properties.  They rest on \<open>Sched_Aside\<close>: a timer interrupt leaves
    alone a thread that is on no list.
  \<^item> \<open>Tests\<close>: src/tests/tests.c, the fifteen tests and their alarm callbacks, temp-test.c, and \<open>main\<close>.  \<open>Tests_Spec\<close>,
    \<open>Tests_Run\<close>, \<open>Main_Run\<close>: they return without a failure, and \<open>main\<close> runs for ever.
  \<^item> \<open>Irq_Control\<close>: the contract of saving and restoring interrupts.  \<open>Interrupt\<close>, \<open>Interrupt_Spec\<close>,
    \<open>Interrupt_Dispatch\<close>: src/lib/interrupt.c.  \<open>Synch\<close>, \<open>Synch_Spec\<close>, \<open>Synch_Block\<close>, \<open>Synch_Props\<close>, \<open>Synch_Cond\<close>:
    src/lib/synch.c.  \<open>Palloc\<close>, \<open>Palloc_Spec\<close>: src/lib/palloc.c.

  \<^bold>\<open>What is shown.\<close>  This theory has the properties of the kernel as a whole: from every reachable state every
  call returns, the lists and the states of the threads are consistent, every run refines the abstract
  scheduler; round robin keeps its slices and starves nobody, FIFO runs threads to completion, sleeps are
  neither too short nor too long; thread ids are unique until the counter wraps.  With timer interrupts in the
  middle of the calls \<open>thread_yield\<close> is still atomic, \<open>thread_create\<close> takes effect at one moment, and the main
  loop and \<open>thread_sleep\<close> keep the lists and threads consistent but for one window each, in which an assertion
  fails.  The other properties are at the end of the theories of their components.  Some properties state defects: a frame stored
  outside of its block, a tick during \<open>thread_exit\<close> or \<open>thread_sleep\<close>, an insertion into a list that loses its
  element when another interrupts it, an assembly routine that does not read its arguments, a semaphore that
  waits for ever, a bitmap that is never written, a page count that wraps.

  \<^bold>\<open>Parameters.\<close>  Code that is not in src/ is an argument: \<open>sdk\<close> (interrupt masking), \<open>board\<close> (the other functions
  of the SDK, \<open>calloc\<close>, \<open>rand\<close>, bytes stored beyond an array, and the interrupts that arrive) and \<open>platform\<close>
  (assembly stubs, ports and handlers of the x86).  Hypotheses on them are \<open>irq_restoring\<close>, \<open>irq_masking\<close>,
  \<open>board_ok\<close>, \<open>roomy\<close> and \<open>platform_ok\<close>; \<open>pico_sync\<close>, \<open>pico\<close> and \<open>pc\<close> satisfy them.

  \<^bold>\<open>Bounds.\<close>  Sleeps are compared as 64-bit values of 32-bit tick counts, so the properties of sleeping suppose
  that the tick count does not wrap on the way; unique ids suppose fewer than $2^{32}$ threads created;
  \<open>list_sort\<close> supposes fewer than $2^{32}$ elements, since it counts runs in a \<open>size_t\<close>.

  \<^bold>\<open>Not modelled.\<close>  In the events of \<open>Kernel_Run\<close> interrupts are handled between the calls into the kernel.  In the
  programs of \<open>Preempt\<close>, \<open>Preempt_Sleep\<close> and \<open>Preempt_Create\<close> they come at any statement, a call into src/misc/list.c,
  of \<open>next_thread_to_run\<close> or of the C library being one statement; \<open>CList_Race\<close> goes inside of \<open>list_insert\<close>.  The
  start of the kernel and the setting of the quantum are not interrupted, and the alarm callbacks of the tests are
  handled between the calls.  src/lib/switch2.S is in no build and not accepted by the assembler; the
  files under src/build are generated by CMake.  Text that \<open>printf\<close> formats is kept as format and
  arguments.
\<close>

section \<open>Safety of every run\<close>



text \<open>C2: The pointer structures of a reachable state: \<open>ready_list\<close>, \<open>lista_espera\<close> and \<open>all_list\<close> are
  well-formed doubly linked lists; \<open>all_list\<close> holds exactly the allocated threads; the ready and
  the sleeping threads are disjoint and without repetition and exclude the running thread; every
  other thread but idle and main is on one of the two lists, so that no thread is lost.\<close>

theorem kernel_structures:
  assumes "reachable sd n s"
  shows "\<exists>rs ws al. is_list (links s) (hdr Ready_list) (map Elem rs) \<and>
    is_list (links s) (hdr Lista_espera) (map Elem ws) \<and>
    is_list (links s) (hdr All_list) (map AllElem al) \<and> set al = dom (threads s) \<and> distinct al \<and>
    distinct (rs @ ws) \<and> thread_running_var s \<in> set al - set (rs @ ws) \<and>
    set al = {thread_running_var s, idle_thread s, initial_thread s} \<union> set (rs @ ws)"
proof -
  obtain a where a: "refines s a" using reachable_refines [OF assms] by blast
  note R = refinesD [OF a] and S = simD [OF refinesD(1) [OF a]]
  show ?thesis
    by (rule exI [of _ "a_ready a"], rule exI [of _ "a_sleeping a"], rule exI [of _ "a_all a"])
      (use R(2) S(1-4) in \<open>auto simp: sched_wf_def lists_ok_def\<close>)
qed

theorem kernel_structures_witness:
  "\<exists>s rs ws al. reachable pico_sync 5 s \<and> is_list (links s) (hdr Ready_list) (map Elem rs) \<and>
    is_list (links s) (hdr Lista_espera) (map Elem ws) \<and>
    is_list (links s) (hdr All_list) (map AllElem al) \<and> distinct (rs @ ws)"
  using rr_scenario kernel_structures by blast

text \<open>C3: Exactly one thread has the status \<open>THREAD_RUNNING\<close>, the one \<open>thread_running_var\<close> points to;
  a ready thread is \<open>THREAD_READY\<close>, a sleeping one \<open>THREAD_BLOCKED\<close>, and no dying thread is left allocated.\<close>

theorem thread_states:
  assumes "reachable sd n s" "threads s t = Some th"
    and "is_list (links s) (hdr Ready_list) (map Elem rs)" "is_list (links s) (hdr Lista_espera) (map Elem ws)"
  shows "(status th = THREAD_RUNNING) = (t = thread_running_var s) \<and> status th \<noteq> THREAD_DYING \<and>
    (t \<in> set rs \<longrightarrow> status th = THREAD_READY) \<and> (t \<in> set ws \<longrightarrow> status th = THREAD_BLOCKED)"
proof -
  obtain a where a: "refines s a" using reachable_refines [OF assms(1)] by blast
  have "rs = a_ready a" "ws = a_sleeping a" "thread_running_var s = a_cur a"
    using refines_lists(1,2) [OF a] assms(3,4) simD(2) [OF refinesD(1) [OF a]] by auto
  with refines_threads(5) [OF a assms(2)] refinesD(2) [OF a] show ?thesis
    by (auto simp: status_ok_def sched_wf_def split: if_splits)
qed

theorem thread_states_witness:
  "\<exists>s rs ws. reachable pico_sync 5 s \<and> is_list (links s) (hdr Ready_list) (map Elem rs) \<and>
     is_list (links s) (hdr Lista_espera) (map Elem ws) \<and>
     (\<exists>th. threads s 0x20003000 = Some th \<and> thread_running_var s = 0x20003000 \<and> status th = THREAD_RUNNING)"
proof -
  obtain s where s: "reachable pico_sync 5 s" "refines s rr_sched" using rr_scenario by blast
  obtain th where "threads s 0x20003000 = Some th" "thread_running_var s = 0x20003000"
    using refines_cur [OF s(2)] simD(2) [OF refinesD(1) [OF s(2)]] by (auto simp: rr_sched_def)
  moreover obtain rs ws where "is_list (links s) (hdr Ready_list) (map Elem rs)" "is_list (links s) (hdr Lista_espera) (map Elem ws)"
    using lists_okD(1,2) [OF simD(1) [OF refinesD(1) [OF s(2)]]] by blast
  ultimately show ?thesis using thread_states [OF s(1)] s(1) by metis
qed

section \<open>Refinement of the abstract scheduler\<close>

text \<open>C4: Every finite sequence of admissible calls and interrupts on the pointer structures returns and
  ends in a state related to the result of the same sequence on the abstract scheduler.\<close>

theorem kernel_refines_scheduler:
  assumes "refines s a" "guarded admissible sched_event es a"
  shows "\<exists>s'. run_events (kernel_event sd) es s = Some (Inr s') \<and> refines s' (fold sched_event es a)"
  by (rule kr.run_simulates [OF assms])

theorem kernel_refines_scheduler_witness:
  "\<exists>s s'. refines s rr_sched \<and> run_events (kernel_event pico_sync) [Sleep 1, Tick, Loop] s = Some (Inr s') \<and>
     refines s' (fold sched_event [Sleep 1, Tick, Loop] rr_sched) \<and>
     a_ready (fold sched_event [Sleep 1, Tick, Loop] rr_sched) = [0x20005000, 0x20003000]"
proof -
  have "guarded admissible sched_event [Sleep 1, Tick, Loop] rr_sched"
    by (simp add: rr_sched_def)
  moreover have "a_ready (fold sched_event [Sleep 1, Tick, Loop] rr_sched) = [0x20005000, 0x20003000]"
    by (simp add: rr_sched_def sched_ops a_sleep_def a_timer_def a_tick_def a_wake_up_def a_expired_def
        a_after_interrupt_def a_policy_def a_forced_exit_def int_to_u64_def)
      (simp add: word_le_nat_alt)
  ultimately show ?thesis using rr_scenario kernel_refines_scheduler by blast
qed

text \<open>C5: The start: from the memory image at reset, \<open>thread_init\<close> and \<open>thread_start\<close> return and leave
  \<open>main\<close> (id 1) running and \<open>idle\<close> (id 2) alone on the ready list, in the initial state of the scheduler.\<close>

theorem kernel_boot:
  assumes "booting s" "t \<noteq> 0" "t \<noteq> running_thread_init s"
  shows "\<exists>s1 s2. thread_init s = Inr s1 \<and> thread_start sd t f s1 = Inr s2 \<and>
    refines s2 (a_boot (running_thread_init s) t s) \<and> next_tid s2 = 3 \<and> irq s2 = irq s \<and>
    map_option tid (threads s2 (running_thread_init s)) = Some 1 \<and> map_option tid (threads s2 t) = Some 2"
  using boot_refines [OF assms, of sd f] by metis

theorem kernel_boot_witness:
  "\<exists>s1 s2. thread_init reset = Inr s1 \<and> thread_start pico_sync 0x20002000 0 s1 = Inr s2 \<and>
     refines s2 (a_boot 0x20041000 0x20002000 reset)"
  using kernel_boot [OF reset_booting, of "0x20002000" pico_sync 0] by auto

section \<open>The scheduling policy\<close>

text \<open>C10: Round robin bounds the slice: after an iteration of the main loop either the current thread has
  used less than its quantum or no other thread is ready.\<close>

theorem round_robin_slice:
  assumes "reachable sd n s" "round_robin_mode s \<noteq> 0" "0 < round_robin_ticks s"
  shows "\<exists>s'. after_interrupt sd s = Inr s' \<and>
    (thread_ticks s' < round_robin_ticks s' \<or> is_ready_list_empty s' = Inr True)"
proof -
  obtain a where a: "refines s a" using reachable_refines [OF assms(1)] by blast
  obtain s' where s': "after_interrupt sd s = Inr s'" "refines s' (a_after_interrupt a)"
    using after_interrupt_refines [OF a, of sd] by blast
  have "a_used (a_after_interrupt a) < a_quantum a \<or> a_ready (a_after_interrupt a) = []"
    using slice_bound [of a] assms(2,3) simD(7,8) [OF refinesD(1) [OF a]] by simp
  with s' ready_empty_ok [OF s'(2)] simD(5,8) [OF refinesD(1) [OF s'(2)]] show ?thesis by auto
qed

theorem round_robin_slice_witness:
  "\<exists>s s'. reachable pico_sync 5 s \<and> round_robin_mode s = 1 \<and> round_robin_ticks s = 2 \<and> after_interrupt pico_sync s = Inr s' \<and>
     (thread_ticks s' < round_robin_ticks s' \<or> is_ready_list_empty s' = Inr True)"
proof -
  obtain s where s: "reachable pico_sync 5 s" "refines s rr_sched" using rr_scenario by blast
  have "round_robin_mode s = 1" "round_robin_ticks s = 2"
    using simD(7,8) [OF refinesD(1) [OF s(2)]] by (simp_all add: rr_sched_def)
  with round_robin_slice [OF s(1)] s(1) show ?thesis by auto
qed





text \<open>FIFO mode does not preempt: while the running thread is not idle, has ticks to go and no exit is
  requested, an iteration of the main loop leaves the whole kernel state as it is.\<close>

theorem fifo_no_preemption:
  assumes "reachable sd n s" "thread_running_var s \<noteq> idle_thread s"
    and "round_robin_mode s = 0" "thread_exit_on_return s = 0"
    and "threads s (thread_running_var s) = Some th" "0 < sint (duration_ticks th)"
  shows "after_interrupt sd s = Inr s"
proof -
  obtain a where a: "refines s a" using reachable_refines [OF assms(1)] by blast
  have "a_cur a = thread_running_var s" using simD(2) [OF refinesD(1) [OF a]] by simp
  then have "thread_current s = Inr (thread_running_var s)" "load_thread (thread_running_var s) s = Inr th"
    using thread_current_ok [OF a] refines_threads(2) [OF a assms(5)] assms(5) by simp_all
  then show ?thesis
    using assms(2-4,6) by (simp add: after_interrupt_def block_if_idle_thread_def)
qed

theorem fifo_no_preemption_witness:
  "\<exists>s. reachable pico_sync 4 s \<and> after_interrupt pico_sync s = Inr s"
proof -
  obtain s where s: "reachable pico_sync 4 s" "refines s fifo_sched" using fifo_scenario by blast
  note S = simD [OF refinesD(1) [OF s(2)]]
  obtain th where th: "threads s 0x20003000 = Some th" "duration_ticks th = 3"
    using refines_allocated [OF s(2), of "0x20003000"] by (auto simp: fifo_sched_def)
  have p: "thread_running_var s = 0x20003000" "idle_thread s = 0x20002000"
    "round_robin_mode s = 0" "thread_exit_on_return s = 0"
    using S(2,3,7,9) by (simp_all add: fifo_sched_def)
  have "after_interrupt pico_sync s = Inr s"
    by (rule fifo_no_preemption [OF s(1), where th = th]) (use p th in simp_all)
  with s(1) show ?thesis by blast
qed

section \<open>Sleeping\<close>



text \<open>C14: The sleep is not too long either: the \<open>n\<close>-th timer interrupt after the call makes the thread
  ready and puts it on the ready list.\<close>

theorem sleep_not_too_long:
  assumes "reachable sd m s" "thread_running_var s = t" "0 < sint n" "0 \<le> sint (ticks s)"
    and "sint (ticks s) + sint n < 2 ^ 31" "kernel_guarded sd (Sleep n # es) s" "int (ticks_in es) = sint n - 1"
  shows "\<exists>s' th rs. run_events (kernel_event sd) (Sleep n # es @ [Tick]) s = Some (Inr s') \<and>
    threads s' t = Some th \<and> status th = THREAD_READY \<and>
    is_list (links s') (hdr Ready_list) (map Elem rs) \<and> t \<in> set rs"
proof -
  obtain a where a: "refines s a" using reachable_refines [OF assms(1)] by blast
  note S = simD [OF refinesD(1) [OF a]]
  have g: "guarded admissible sched_event (Sleep n # es) a" using kernel_guarded_iff [OF a] assms(6) by blast
  define b where "b = fold sched_event (Sleep n # es) a"
  have "t \<in> set (a_ready (a_timer b))"
    using sleep_run [OF a g] assms(2-5,7) S(2,6) unfolding b_def
    by (intro wakes_up [where w = "a_now a + n"]) simp_all
  moreover have "guarded admissible sched_event ((Sleep n # es) @ [Tick]) a"
    using g unfolding guarded_append by simp
  then obtain s' where s': "run_events (kernel_event sd) (Sleep n # es @ [Tick]) s = Some (Inr s')"
    "refines s' (a_timer b)"
    using kr.run_simulates [OF a, of "(Sleep n # es) @ [Tick]" sd] by (auto simp: b_def)
  ultimately show ?thesis
    using ready_ready [OF s'(2)] lists_okD(1) [OF simD(1) [OF refinesD(1) [OF s'(2)]]] by blast
qed

theorem sleep_not_too_long_witness:
  "\<exists>s s' th. reachable pico_sync 5 s \<and>
     run_events (kernel_event pico_sync) [Sleep 2, Tick, Loop, Tick] s = Some (Inr s') \<and>
     threads s' 0x20003000 = Some th \<and> status th = THREAD_READY"
proof -
  obtain s where s: "reachable pico_sync 5 s" "refines s rr_sched" using rr_scenario by blast
  have p: "thread_running_var s = 0x20003000" "ticks s = 0"
    using simD(2,6) [OF refinesD(1) [OF s(2)]] by (simp_all add: rr_sched_def)
  have "kernel_guarded pico_sync [Sleep 2, Tick, Loop] s"
    using kernel_guarded_iff [OF s(2)] by (simp add: rr_sched_def)
  with sleep_not_too_long [OF s(1) p(1), of 2 "[Tick, Loop]"] p s(1) show ?thesis
    by (auto simp: ticks_in_def)
qed

section \<open>Creation and destruction of threads\<close>

text \<open>C15: \<open>thread_exit\<close> by a thread other than main and idle destroys it: its structure and the list
  elements inside are freed, and the front of the ready list, or else idle, runs.\<close>

theorem exit_destroys_thread:
  assumes "reachable sd n s" "thread_running_var s = t" "t \<noteq> initial_thread s" "t \<noteq> idle_thread s"
    and "is_list (links s) (hdr Ready_list) (map Elem rs)"
  shows "\<exists>s'. thread_exit sd s = Inr s' \<and> threads s' t = None \<and>
    thread_running_var s' = hd (rs @ [idle_thread s]) \<and> is_list (links s') (hdr Ready_list) (map Elem (tl rs))"
proof -
  obtain a where a: "refines s a" using reachable_refines [OF assms(1)] by blast
  note S = simD [OF refinesD(1) [OF a]]
  have rs: "rs = a_ready a" using refines_lists(1) [OF a assms(5)] .
  obtain s' where s': "thread_exit sd s = Inr s'" "refines s' (a_exit a)" "threads s' t = None"
    using thread_exit_refines [OF a, where sd = sd] assms(2-4) S(2-4) by metis
  note S' = simD [OF refinesD(1) [OF s'(2)]]
  have "a_exit a = a_dispatch (a\<lparr>a_all := remove1 t (a_all a)\<rparr>)"
    using assms(2-4) S(2-4) by (simp add: a_exit_def)
  then have "a_cur (a_exit a) = hd (rs @ [idle_thread s])" "a_ready (a_exit a) = tl rs"
    using rs S(3) by (simp_all add: a_dispatch_alt)
  with s' S'(2) lists_okD(1) [OF S'(1)] show ?thesis by auto
qed

theorem exit_destroys_thread_witness:
  "\<exists>s s'. reachable pico_sync 4 s \<and> thread_running_var s = 0x20003000 \<and> thread_exit pico_sync s = Inr s' \<and>
     threads s' 0x20003000 = None \<and> thread_running_var s' = 0x20004000"
proof -
  obtain s where s: "reachable pico_sync 4 s" "refines s fifo_sched" using fifo_scenario by blast
  note S = simD [OF refinesD(1) [OF s(2)]]
  have p: "thread_running_var s = 0x20003000" "idle_thread s = 0x20002000" "initial_thread s = 0x20041000"
    "is_list (links s) (hdr Ready_list) (map Elem [0x20004000])"
    using S(2-4) lists_okD(1) [OF S(1)] by (simp_all add: fifo_sched_def)
  from exit_destroys_thread [OF s(1) p(1) _ _ p(4)] p s(1) show ?thesis by auto
qed

text \<open>C16: Until the counter of identifiers wraps around, no two allocated threads have the same \<open>tid\<close>, and the
  identifier the next thread gets is in use by none.\<close>

theorem thread_ids_unique:
  assumes "reachable sd n s" "n < 2 ^ 32 - 1" "threads s t = Some th" "threads s u = Some uh"
  shows "(tid th = tid uh) = (t = u) \<and> tid th \<noteq> next_tid s"
proof -
  have "ids_ok n s" using reachable_ids [OF assms(1)] assms(2) by simp
  moreover have "of_nat (n + 1) \<notin> (of_nat ` {1..n} :: s32 set)" using fresh_id assms(2) by simp
  ultimately show ?thesis using assms(3,4) unfolding ids_ok_def by (metis option.inject)
qed

theorem thread_ids_unique_witness:
  "\<exists>s th uh. reachable pico_sync 5 s \<and> threads s 0x20003000 = Some th \<and> threads s 0x20004000 = Some uh \<and> tid th \<noteq> tid uh"
proof -
  obtain s where s: "reachable pico_sync 5 s" "refines s rr_sched" using rr_scenario by blast
  obtain th uh where th: "threads s 0x20003000 = Some th" "threads s 0x20004000 = Some uh"
    using refines_allocated [OF s(2), of "0x20003000"] refines_allocated [OF s(2), of "0x20004000"]
    by (auto simp: rr_sched_def)
  from thread_ids_unique [OF s(1) _ th] s(1) th show ?thesis by auto
qed

text \<open>C17: \<open>thread_create\<close> with memory available returns the next identifier and leaves an allocated thread
  with that identifier, the name cut to 15 characters and the given duration; the new thread goes to the
  end of the ready list, and a running idle thread hands over to the front of it.\<close>

theorem thread_create_creates:
  assumes "reachable sd n s" "kernel_admissible (Create t nm f ax d) s" "t \<noteq> 0"
    and "is_list (links s) (hdr Ready_list) (map Elem rs)"
  shows "\<exists>s' th rs'. thread_create sd t nm f ax d s = Inr (next_tid s, s') \<and> next_tid s' = next_tid s + 1 \<and>
    threads s' t = Some th \<and> tid th = next_tid s \<and> name th = take 15 (chars nm) \<and> duration_ticks th = d \<and>
    is_list (links s') (hdr Ready_list) (map Elem rs') \<and>
    (if thread_running_var s = idle_thread s then thread_running_var s' # rs' = rs @ [t]
     else thread_running_var s' = thread_running_var s \<and> rs' = rs @ [t])"
proof -
  obtain a where a: "refines s a" using reachable_refines [OF assms(1)] by blast
  note S = simD [OF refinesD(1) [OF a]]
  have rs: "rs = a_ready a" using refines_lists(1) [OF a assms(4)] .
  have adm: "admissible (Create t nm f ax d) a" using admissible_iff [OF a] assms(2) by blast
  obtain s' where s': "thread_create sd t nm f ax d s = Inr (next_tid s, s')" "refines s' (a_create t d a)"
    "same_ids (s\<lparr>next_tid := next_tid s + 1, threads := (threads s)(t \<mapsto> created_record t nm (next_tid s) d)\<rparr>) s'"
    by (rule thread_create_refines [OF a assms(3), where sd = sd and nm = nm and f = f and ax = ax and d = d])
      (use adm in auto)
  note S' = simD [OF refinesD(1) [OF s'(2)]]
  have "t \<in> set (a_all (a_create t d a))" "a_dur (a_create t d a) t = d"
    by (simp_all add: a_create_alt) (simp_all add: a_add_def)
  then obtain th where th: "threads s' t = Some th" "duration_ticks th = d"
    using refines_allocated [OF s'(2), of t] by auto
  have "tid th = next_tid s" "name th = take 15 (chars nm)" "next_tid s' = next_tid s + 1"
    using same_ids_thread [OF s'(3) th(1)] s'(3)
    by (auto simp: same_ids_def created_record_def initial_record_def strlcpy_def)
  moreover have "if thread_running_var s = idle_thread s then a_cur (a_create t d a) # a_ready (a_create t d a) = rs @ [t]
     else a_cur (a_create t d a) = thread_running_var s \<and> a_ready (a_create t d a) = rs @ [t]"
    using S(2,3) rs by (cases "a_ready a") (simp_all add: a_create_def a_block_if_idle_def a_dispatch_alt)
  ultimately show ?thesis using s'(1) th S'(2) lists_okD(1) [OF S'(1)] by auto
qed

theorem thread_create_creates_witness:
  "\<exists>s s' th. reachable pico_sync 5 s \<and> thread_create pico_sync 0x20006000 (CharBuf ''averyverylongname'') 0 0 7 s = Inr (next_tid s, s') \<and>
     threads s' 0x20006000 = Some th \<and> name th = ''averyverylongna'' \<and>
     is_list (links s') (hdr Ready_list) (map Elem [0x20004000, 0x20005000, 0x20006000])"
proof -
  obtain s where s: "reachable pico_sync 5 s" "refines s rr_sched" using rr_scenario by blast
  note S = simD [OF refinesD(1) [OF s(2)]]
  have l: "is_list (links s) (hdr Ready_list) (map Elem [0x20004000, 0x20005000])"
    and c: "thread_running_var s \<noteq> idle_thread s"
    using lists_okD(1) [OF S(1)] S(2,3) by (simp_all add: rr_sched_def)
  have "kernel_admissible (Create 0x20006000 (CharBuf ''averyverylongname'') 0 0 7) s"
    using admissible_iff [OF s(2)] by (simp add: rr_sched_def)
  from thread_create_creates [OF s(1) this _ l] c s(1) show ?thesis by auto
qed

text \<open>C40: The stack of a new thread is not memory of its own: \<open>thread_create\<close> allocates \<open>sizeof (struct thread)\<close>
  bytes at \<open>t\<close> but stores the twelve bytes of the frame at \<open>t + PGSIZE - 12\<close>, none of which lies in the block.\<close>

theorem thread_frame_outside:
  assumes "reachable sd n s" "kernel_admissible (Create t nm f ax d) s" "t \<noteq> 0"
  shows "\<exists>s' kf. thread_create sd t nm f ax d s = Inr (next_tid s, s') \<and>
    frames s' kf = Some \<lparr>eip = 0, function = f, aux = ax\<rparr> \<and>
    (\<forall>k < sizeof_kernel_thread_frame. \<forall>ofs < sizeof_thread. kf + k \<noteq> t + ofs)"
proof -
  obtain a where a: "refines s a" using reachable_refines [OF assms(1)] by blast
  have adm: "admissible (Create t nm f ax d) a" using admissible_iff [OF a] assms(2) by blast
  obtain s' where s': "thread_create sd t nm f ax d s = Inr (next_tid s, s')"
    "frames s' = (frames s)(t + PGSIZE - sizeof_kernel_thread_frame \<mapsto> \<lparr>eip = 0, function = f, aux = ax\<rparr>)"
    by (rule thread_create_refines [OF a assms(3), where sd = sd and nm = nm and f = f and ax = ax and d = d])
      (use adm in auto)
  have "t + PGSIZE - sizeof_kernel_thread_frame + k \<noteq> t + ofs"
    if "k < sizeof_kernel_thread_frame" "ofs < sizeof_thread" for k ofs
    using that frame_offset_outside by (simp add: add.assoc diff_conv_add_uminus del: add_uminus_conv_diff)
  with s' show ?thesis by auto
qed

theorem thread_frame_outside_witness:
  "\<exists>s s' kf. reachable pico_sync 5 s \<and> thread_create pico_sync 0x20006000 (CharBuf ''D'') 7 0 9 s = Inr (next_tid s, s') \<and>
     frames s' kf = Some \<lparr>eip = 0, function = 7, aux = 0\<rparr> \<and> kf \<noteq> 0x20006000 + thread_stack_ofs"
proof -
  obtain s where s: "reachable pico_sync 5 s" "refines s rr_sched" using rr_scenario by blast
  have "kernel_admissible (Create 0x20006000 (CharBuf ''D'') 7 0 9) s"
    using admissible_iff [OF s(2)] by (simp add: rr_sched_def)
  from thread_frame_outside [OF s(1) this] obtain s' kf where
    s': "thread_create pico_sync 0x20006000 (CharBuf ''D'') 7 0 9 s = Inr (next_tid s, s')"
    "frames s' kf = Some \<lparr>eip = 0, function = 7, aux = 0\<rparr>"
    "\<forall>k < sizeof_kernel_thread_frame. \<forall>ofs < sizeof_thread. kf + k \<noteq> 0x20006000 + ofs" by auto
  moreover have "0 < sizeof_kernel_thread_frame" "thread_stack_ofs < sizeof_thread"
    by (simp_all add: thread_stack_ofs_eval sizeof_thread_def sizeof_kernel_thread_frame_def)
  ultimately have "kf + 0 \<noteq> 0x20006000 + thread_stack_ofs" by blast
  with s(1) s' show ?thesis by auto
qed

text \<open>The statistics add up: the ticks counted for the idle thread and for the other threads sum to the
  number of timer interrupts.\<close>

theorem tick_accounting:
  assumes "reachable sd n s"
  shows "ticks s = ucast (idle_ticks s + kernel_ticks s)"
  using reachable_ticks [OF assms] by (simp add: ticks_ok_def)

theorem tick_accounting_witness:
  "\<exists>s. reachable pico_sync 5 s \<and> ticks s = ucast (idle_ticks s + kernel_ticks s)"
  using rr_scenario tick_accounting by blast

section \<open>Interrupts and context switches\<close>

text \<open>C20: With interrupt primitives that restore what they saved, every call into the kernel returns with
  the interrupt mask it was called with.\<close>

theorem interrupt_mask_restored:
  assumes "reachable sd n s" "kernel_admissible e s" "irq_restoring sd" "kernel_event sd e s = Some (Inr s')"
  shows "irq s' = irq s"
proof -
  obtain a where a: "refines s a" using reachable_refines [OF assms(1)] by blast
  show ?thesis using event_irq [OF a _ assms(3,4)] admissible_iff [OF a] assms(2) by blast
qed

theorem interrupt_mask_restored_witness:
  "\<exists>s s'. reachable pico_sync 5 s \<and> kernel_event pico_sync Yield s = Some (Inr s') \<and> irq s' = irq s"
proof -
  obtain s where s: "reachable pico_sync 5 s" "refines s rr_sched" using rr_scenario by blast
  obtain s' where s': "kernel_event pico_sync Yield s = Some (Inr s')"
    using event_refines [OF s(2), of Yield pico_sync] by auto
  have "irq s' = irq s"
    by (rule interrupt_mask_restored [OF s(1) _ pico_sync_restoring s']) simp
  with s(1) s' show ?thesis by blast
qed



text \<open>C22: \<open>thread_exit\<close> marks the thread as dying with interrupts enabled: a timer interrupt that arrives
  between the mark and the switch panics in \<open>thread_current\<close>.\<close>

theorem tick_during_exit_panics:
  assumes "reachable sd n s"
  shows "\<exists>s1. thread_exit_mark s = Inr s1 \<and> irq s1 = irq s \<and>
    timer_interrupt s1 = Some (Inl (Panic ''t->status == THREAD_RUNNING''))"
proof -
  obtain a where a: "refines s a" using reachable_refines [OF assms] by blast
  obtain s1 th where s1: "thread_exit_mark s = Inr s1" "sim s1 (a\<lparr>a_all := remove1 (a_cur a) (a_all a)\<rparr>) (set (a_all a))"
    "threads s1 (a_cur a) = Some th" "status th = THREAD_DYING" "magic th = THREAD_MAGIC" "irq s1 = irq s"
    by (rule thread_exit_mark_sim [OF a])
  have "thread_running_var s1 = a_cur a" using simD(2) [OF s1(2)] by simp
  moreover have "a_cur a \<noteq> 0" using refines_cur [OF a] by blast
  ultimately have "timer_interrupt s1 = Some (Inl (Panic ''t->status == THREAD_RUNNING''))"
    using s1(3-5) by (simp add: timer_interrupt_def thread_tick_def thread_current_def running_thread_def)
  with s1(1,6) show ?thesis by blast
qed

theorem tick_during_exit_panics_witness:
  "\<exists>s s1. reachable pico_sync 4 s \<and> thread_exit_mark s = Inr s1 \<and>
     timer_interrupt s1 = Some (Inl (Panic ''t->status == THREAD_RUNNING''))"
  using fifo_scenario tick_during_exit_panics by blast

section \<open>Output\<close>

text \<open>\<open>print_lists\<close> returns and prints the names of the ready and of the sleeping threads in the order of
  the two lists, changing nothing but the console.\<close>

theorem print_lists_prints:
  assumes "reachable sd n s" "is_list (links s) (hdr Ready_list) (map Elem rs)"
    and "is_list (links s) (hdr Lista_espera) (map Elem ws)"
  shows "print_lists s = Some (Inr (s\<lparr>console := console s @
    [(''\<newline>'', []), (''READY: '', []), (''LISTA: '', [])] @ map (entry_of s) rs @
    [(''\<newline>'', []), (''BLOCKED: '', []), (''LISTA: '', [])] @ map (entry_of s) ws @ [(''\<newline>'', []), (''\<newline>'', [])]\<rparr>))"
proof -
  obtain a where a: "refines s a" using reachable_refines [OF assms(1)] by blast
  note L = lists_okD(4-7) [OF simD(1) [OF refinesD(1) [OF a]]]
  have "rs = a_ready a" "ws = a_sleeping a" using refines_lists(1,2) [OF a] assms(2,3) by auto
  with L show ?thesis
    using print_lists_spec [OF assms(2) _ _ assms(3)] by (auto simp: prints_def)
qed

theorem print_lists_prints_witness:
  "\<exists>s s'. reachable pico_sync 5 s \<and> print_lists s = Some (Inr s')"
proof -
  obtain s where s: "reachable pico_sync 5 s" "refines s rr_sched" using rr_scenario by blast
  note L = lists_okD(1,2) [OF simD(1) [OF refinesD(1) [OF s(2)]]]
  from print_lists_prints [OF s(1) L] s(1) show ?thesis by blast
qed

end
